(* ===== verification/Prelude.thy ===== *)
theory Prelude imports Main "HOL-Library.Multiset" "HOL-Library.Char_ord" "HOL-Library.List_Lexorder" "HOL-Library.Sublist" "HOL-Library.AList" begin

text \<open>
  Shared vocabulary of the development.  Go strings are byte strings, which is what
  \<open>string\<close> (a list of 8-bit characters) is; their comparison is the byte-wise lexicographic
  order of the theories \<open>Char_ord\<close> and \<open>List_Lexorder\<close>.  A Go map is an association list with
  distinct keys, read with \<open>map_of\<close> and written with \<open>AList.update\<close> / \<open>AList.delete\<close>; the
  order of the list carries no meaning.  A Go pair \<open>(value, error)\<close> is a value of the sum type
  \<open>'e + 'a\<close>, with \<open>Inl\<close> for the error.
\<close>

type_synonym ('e, 'a) go_result = "'e + 'a"
type_synonym 'v go_map = "(string \<times> 'v) list"

named_theorems go_eval \<open>equations that evaluate the model on concrete input\<close>
named_theorems shape_intros \<open>introduction rules for the well-formedness predicates\<close>

section \<open>Maps\<close>

definition go_map_ok :: "'v go_map \<Rightarrow> bool" where
  "go_map_ok m \<longleftrightarrow> distinct (map fst m)"

lemma go_map_ok_Nil [simp, shape_intros]: "go_map_ok []"
  by (simp add: go_map_ok_def)

lemma go_map_ok_update [shape_intros]: "go_map_ok m \<Longrightarrow> go_map_ok (AList.update k v m)"
  by (simp add: go_map_ok_def distinct_update)

lemma go_map_ok_delete [shape_intros]: "go_map_ok m \<Longrightarrow> go_map_ok (AList.delete k m)"
  by (simp add: go_map_ok_def distinct_delete)

lemma keys_update: "fst ` set (AList.update k v m) = insert k (fst ` set m)"
  by (induction m) auto

lemma keys_delete: "fst ` set (AList.delete k m) = fst ` set m - {k}"
  by (induction m) auto

lemma map_of_in_keys: "map_of m k = Some v \<Longrightarrow> k \<in> fst ` set m"
  by (metis map_of_SomeD fst_conv image_eqI)

lemma keys_iff_map_of: "k \<in> fst ` set m \<longleftrightarrow> (\<exists>v. map_of m k = Some v)"
  by (metis map_of_eq_None_iff not_None_eq)

lemma map_of_go_map_ok: "go_map_ok m \<Longrightarrow> map_of m k = Some v \<longleftrightarrow> (k, v) \<in> set m"
  by (simp add: go_map_ok_def)

lemma map_of_AList_update: "map_of (AList.update k v m) = (map_of m)(k \<mapsto> v)"
  by (simp add: update_conv')

lemma map_of_AList_delete: "map_of (AList.delete k m) = (map_of m)(k := None)"
  by (simp add: delete_conv')

lemmas go_map_simps = map_of_AList_update map_of_AList_delete keys_update keys_delete

section \<open>Sorted, duplicate-free key lists\<close>

definition sorted_keys :: "'v go_map \<Rightarrow> string list" where
  "sorted_keys m = sort (map fst m)"

lemma set_sorted_keys [simp]: "set (sorted_keys m) = fst ` set m"
  by (simp add: sorted_keys_def)

lemma sorted_sorted_keys [simp]: "sorted (sorted_keys m)"
  by (simp add: sorted_keys_def)

lemma distinct_sorted_keys [simp]: "distinct (sorted_keys m) \<longleftrightarrow> go_map_ok m"
  by (simp add: sorted_keys_def go_map_ok_def)

lemma length_sorted_keys [simp]: "length (sorted_keys m) = length m"
  by (simp add: sorted_keys_def)

lemma sorted_keys_cong:
  assumes "go_map_ok m" "go_map_ok m'" "fst ` set m = fst ` set m'"
  shows "sorted_keys m = sorted_keys m'"
  using assms by (intro sorted_distinct_set_unique) auto

section \<open>Sums over lists\<close>

lemma sum_list_map_int_nonneg: "(\<And>x. x \<in> set xs \<Longrightarrow> (0::int) \<le> f x) \<Longrightarrow> 0 \<le> (\<Sum>x\<leftarrow>xs. f x)"
  by (induction xs) auto

lemma sum_list_const_int: "(\<Sum>x\<leftarrow>xs. (c::int)) = int (length xs) * c"
  by (induction xs) (auto simp: algebra_simps)

lemma sum_list_indicator: "(\<Sum>x\<leftarrow>xs. if P x then (1::int) else 0) = int (length (filter P xs))"
  by (induction xs) auto

lemma length_filter_as_sum: "length (filter P xs) = (\<Sum>x\<leftarrow>xs. if P x then 1 else 0)"
  by (induction xs) auto

lemma list_split_at: "i < length xs \<Longrightarrow> xs = take i xs @ xs ! i # drop (Suc i) xs"
  by (simp add: id_take_nth_drop)

end
