(* ===== verification/GoStrings.thy ===== *)
theory GoStrings imports Prelude begin

text \<open>
  The functions of Go's packages \<open>strings\<close>, \<open>strconv\<close>, \<open>slices\<close> and \<open>fmt\<close> that the program
  calls, on byte strings.  Nothing here models a line of the repository; the components below
  are written with these functions.
\<close>

section \<open>Prefixes, splitting, joining\<close>

definition has_prefix :: "string \<Rightarrow> string \<Rightarrow> bool" where
  "has_prefix s p \<longleftrightarrow> take (length p) s = p"

definition trim_prefix :: "string \<Rightarrow> string \<Rightarrow> string" where
  "trim_prefix s p = (if has_prefix s p then drop (length p) s else s)"

fun go_contains :: "string \<Rightarrow> string \<Rightarrow> bool" where
  "go_contains [] p \<longleftrightarrow> p = []"
| "go_contains (c # s) p \<longleftrightarrow> has_prefix (c # s) p \<or> go_contains s p"

text \<open>\<open>strings.Split\<close> for a separator of one byte.\<close>

fun go_split :: "char \<Rightarrow> string \<Rightarrow> string list" where
  "go_split d [] = [[]]"
| "go_split d (c # s) =
     (if c = d then [] # go_split d s
      else (case go_split d s of [] \<Rightarrow> [[c]] | w # ws \<Rightarrow> (c # w) # ws))"

fun go_join :: "string \<Rightarrow> string list \<Rightarrow> string" where
  "go_join d [] = []"
| "go_join d [w] = w"
| "go_join d (w # v # ws) = w @ d @ go_join d (v # ws)"

lemma has_prefix_append [simp]: "has_prefix (p @ s) p"
  by (simp add: has_prefix_def)

lemma trim_prefix_append [simp]: "trim_prefix (p @ s) p = s"
  by (simp add: trim_prefix_def)

lemma go_split_nonempty [simp]: "go_split d s \<noteq> []"
  by (cases s) (auto split: list.splits)

lemma go_split_no_sep: "w \<in> set (go_split d s) \<Longrightarrow> d \<notin> set w"
  by (induction d s arbitrary: w rule: go_split.induct) (auto split: if_splits list.splits)

lemma go_split_plain: "d \<notin> set s \<Longrightarrow> go_split d s = [s]"
  by (induction s) auto

lemma go_split_append:
  "d \<notin> set s \<Longrightarrow> go_split d (s @ d # t) = s # go_split d t"
  by (induction s) auto

lemma go_split_append_sep: "go_split d (s @ d # t) = go_split d s @ go_split d t"
  by (induction d s rule: go_split.induct) (auto split: list.splits)

lemma go_join_split: "go_join [d] (go_split d s) = s"
proof (induction d s rule: go_split.induct)
  case (2 d c s)
  then show ?case by (cases "go_split d s"; cases "tl (go_split d s)") (auto split: list.splits)
qed simp

lemma go_split_join:
  "ws \<noteq> [] \<Longrightarrow> (\<forall>w\<in>set ws. d \<notin> set w) \<Longrightarrow> go_split d (go_join [d] ws) = ws"
  by (induction "[d]" ws rule: go_join.induct) (auto simp: go_split_plain go_split_append)

section \<open>Trimming\<close>

text \<open>
  \<open>strings.TrimSpace\<close> removes the runes of \<open>unicode.IsSpace\<close> at both ends.  On bytes these are
  the following UTF-8 sequences.
\<close>

definition go_spaces :: "string list" where
  "go_spaces =
    [[CHR 0x09], [CHR 0x0A], [CHR 0x0B], [CHR 0x0C], [CHR 0x0D], [CHR 0x20],
     [CHR 0xC2, CHR 0x85], [CHR 0xC2, CHR 0xA0], [CHR 0xE1, CHR 0x9A, CHR 0x80],
     [CHR 0xE2, CHR 0x80, CHR 0x80], [CHR 0xE2, CHR 0x80, CHR 0x81],
     [CHR 0xE2, CHR 0x80, CHR 0x82], [CHR 0xE2, CHR 0x80, CHR 0x83],
     [CHR 0xE2, CHR 0x80, CHR 0x84], [CHR 0xE2, CHR 0x80, CHR 0x85],
     [CHR 0xE2, CHR 0x80, CHR 0x86], [CHR 0xE2, CHR 0x80, CHR 0x87],
     [CHR 0xE2, CHR 0x80, CHR 0x88], [CHR 0xE2, CHR 0x80, CHR 0x89],
     [CHR 0xE2, CHR 0x80, CHR 0x8A], [CHR 0xE2, CHR 0x80, CHR 0xA8],
     [CHR 0xE2, CHR 0x80, CHR 0xA9], [CHR 0xE2, CHR 0x80, CHR 0xAF],
     [CHR 0xE2, CHR 0x81, CHR 0x9F], [CHR 0xE3, CHR 0x80, CHR 0x80]]"

definition leading_word :: "string list \<Rightarrow> string \<Rightarrow> string option" where
  "leading_word ws s = find (\<lambda>w. w \<noteq> [] \<and> has_prefix s w) ws"

lemma leading_word_decreases:
  "leading_word ws s = Some w \<Longrightarrow> length (drop (length w) s) < length s"
  by (cases s) (auto simp: leading_word_def find_Some_iff has_prefix_def)

function trim_left_words :: "string list \<Rightarrow> string \<Rightarrow> string" where
  "trim_left_words ws s =
     (case leading_word ws s of
        None \<Rightarrow> s
      | Some w \<Rightarrow> trim_left_words ws (drop (length w) s))"
  by pat_completeness auto
termination
proof (relation "measure (\<lambda>(ws, s). length s)")
  fix ws s w
  assume "leading_word ws s = Some w"
  then show "((ws, drop (length w) s), ws, s) \<in> measure (\<lambda>(ws, s). length s)"
    using leading_word_decreases by simp
qed simp

declare trim_left_words.simps [simp del]

definition trim_space :: "string \<Rightarrow> string" where
  "trim_space s = rev (trim_left_words (map rev go_spaces) (rev (trim_left_words go_spaces s)))"

text \<open>\<open>strings.Trim\<close> and \<open>strings.TrimRight\<close> with a cutset of ASCII characters.\<close>

definition trim_right_set :: "string \<Rightarrow> string \<Rightarrow> string" where
  "trim_right_set s cs = rev (dropWhile (\<lambda>c. c \<in> set cs) (rev s))"

definition trim_set :: "string \<Rightarrow> string \<Rightarrow> string" where
  "trim_set s cs = trim_right_set (dropWhile (\<lambda>c. c \<in> set cs) s) cs"

lemma list_all_dropWhile: "list_all P (dropWhile P s) \<longleftrightarrow> list_all P s"
  by (induction s) auto

lemma trim_set_eq_Nil: "trim_set s cs = [] \<longleftrightarrow> set s \<subseteq> set cs"
proof -
  have "trim_set s cs = [] \<longleftrightarrow> list_all (\<lambda>c. c \<in> set cs) (dropWhile (\<lambda>c. c \<in> set cs) s)"
    by (simp only: trim_set_def trim_right_set_def rev_is_Nil_conv dropWhile_eq_Nil_conv set_rev
        list_all_iff)
  then show ?thesis by (simp only: list_all_dropWhile) (auto simp: list_all_iff)
qed

section \<open>Case folding\<close>

definition ascii_lower :: "char \<Rightarrow> char" where
  "ascii_lower c =
     (let n = (of_char c :: nat) in if 65 \<le> n \<and> n \<le> 90 then char_of (n + 32) else c)"

text \<open>
  \<open>strings.ToLower\<close>.  Two runes outside ASCII map to ASCII letters: U+212A to \<open>k\<close> and U+0130 to
  \<open>i\<close>.  Every other rune outside ASCII (and every invalid byte) maps to bytes outside ASCII; the
  model leaves those as they are, and no use below can tell, since every result is compared with
  ASCII strings only.
\<close>

function go_to_lower :: "string \<Rightarrow> string" where
  "go_to_lower s =
     (if has_prefix s [CHR 0xE2, CHR 0x84, CHR 0xAA] then CHR ''k'' # go_to_lower (drop 3 s)
      else if has_prefix s [CHR 0xC4, CHR 0xB0] then CHR ''i'' # go_to_lower (drop 2 s)
      else (case s of [] \<Rightarrow> [] | c # cs \<Rightarrow> ascii_lower c # go_to_lower cs))"
  by pat_completeness auto
termination
proof (relation "measure length")
  fix s :: string
  assume "has_prefix s [CHR 0xE2, CHR 0x84, CHR 0xAA]"
  then show "(drop 3 s, s) \<in> measure length" by (cases s) (auto simp: has_prefix_def)
next
  fix s :: string
  assume "has_prefix s [CHR 0xC4, CHR 0xB0]"
  then show "(drop 2 s, s) \<in> measure length" by (cases s) (auto simp: has_prefix_def)
qed auto

declare go_to_lower.simps [simp del]

definition ascii_string :: "string \<Rightarrow> bool" where
  "ascii_string s \<longleftrightarrow> (\<forall>c\<in>set s. (of_char c :: nat) < 128)"

lemma go_to_lower_ascii: "ascii_string s \<Longrightarrow> go_to_lower s = map ascii_lower s"
proof (induction s)
  case Nil
  then show ?case by (simp add: go_to_lower.simps has_prefix_def)
next
  case (Cons c s)
  then have "c \<noteq> CHR 0xE2" "c \<noteq> CHR 0xC4" by (auto simp: ascii_string_def)
  with Cons show ?case
    by (subst go_to_lower.simps) (auto simp: has_prefix_def ascii_string_def)
qed

text \<open>
  \<open>strings.EqualFold\<close> where one side holds only characters whose fold orbit is ASCII
  (digits, the letters a to f, and punctuation).
\<close>

definition equal_fold :: "string \<Rightarrow> string \<Rightarrow> bool" where
  "equal_fold s t \<longleftrightarrow> map ascii_lower s = map ascii_lower t"

definition replace_char :: "string \<Rightarrow> char \<Rightarrow> char \<Rightarrow> string" where
  "replace_char s c d = map (\<lambda>x. if x = c then d else x) s"

section \<open>Decimal integers\<close>

definition is_digit :: "char \<Rightarrow> bool" where
  "is_digit c \<longleftrightarrow> 48 \<le> (of_char c :: nat) \<and> (of_char c :: nat) \<le> 57"

definition digit_value :: "char \<Rightarrow> int" where
  "digit_value c = int (of_char c) - 48"

definition digits_value :: "string \<Rightarrow> int" where
  "digits_value ds = foldl (\<lambda>v c. 10 * v + digit_value c) 0 ds"

definition in_int64 :: "int \<Rightarrow> bool" where
  "in_int64 v \<longleftrightarrow> - (2 ^ 63) \<le> v \<and> v < 2 ^ 63"

text \<open>
  \<open>strconv.Atoi\<close> (and \<open>strconv.ParseInt\<close> with base 10 and 64 bits): an optional sign, at least one
  digit, nothing else, and a value of 64 bits; \<open>None\<close> is any of its errors.
\<close>

definition atoi :: "string \<Rightarrow> int option" where
  "atoi s =
     (let (neg, ds) = (case s of
            [] \<Rightarrow> (False, [])
          | c # cs \<Rightarrow> if c = CHR ''-'' then (True, cs)
                      else if c = CHR ''+'' then (False, cs) else (False, s));
          v = (if neg then - digits_value ds else digits_value ds)
      in if ds = [] \<or> \<not> list_all is_digit ds \<or> \<not> in_int64 v then None else Some v)"

definition digit_char :: "nat \<Rightarrow> char" where
  "digit_char n = char_of (48 + n mod 10)"

fun nat_digits :: "nat \<Rightarrow> string" where
  "nat_digits n = (if n < 10 then [digit_char n] else nat_digits (n div 10) @ [digit_char n])"

declare nat_digits.simps [simp del]

text \<open>The verb \<open>%d\<close> of \<open>fmt.Sprintf\<close>.\<close>

definition itoa :: "int \<Rightarrow> string" where
  "itoa v = (if v < 0 then CHR ''-'' # nat_digits (nat (- v)) else nat_digits (nat v))"

lemma of_char_digit_char [simp]: "(of_char (digit_char n) :: nat) = 48 + n mod 10"
proof -
  have "(48 + n mod 10) mod 256 = 48 + n mod 10" using mod_less_divisor [of 10 n] by simp
  then show ?thesis by (simp add: digit_char_def of_char_of)
qed

lemma digit_value_digit_char: "digit_value (digit_char n) = int (n mod 10)"
  by (simp add: digit_value_def)

lemma is_digit_digit_char: "is_digit (digit_char n)"
  using mod_less_divisor [of 10 n] by (simp add: is_digit_def)

lemma nat_digits_digits: "list_all is_digit (nat_digits n) \<and> nat_digits n \<noteq> []"
proof (induction n rule: nat_digits.induct)
  case (1 n)
  then show ?case by (cases "n < 10") (simp_all add: nat_digits.simps [of n] is_digit_digit_char)
qed

lemma digits_value_nat_digits: "digits_value (nat_digits n) = int n"
proof (induction n rule: nat_digits.induct)
  case (1 n)
  show ?case
  proof (cases "n < 10")
    case True
    then show ?thesis by (simp add: nat_digits.simps [of n] digits_value_def digit_value_digit_char)
  next
    case False
    with 1 have "digits_value (nat_digits (n div 10)) = int (n div 10)" by simp
    moreover have "10 * int (n div 10) + int (n mod 10) = int n" by presburger
    ultimately show ?thesis using False
      by (simp add: nat_digits.simps [of n] digits_value_def digit_value_digit_char)
  qed
qed

lemma nat_digits_head: "\<exists>c cs. nat_digits n = c # cs \<and> is_digit c"
  using nat_digits_digits [of n] by (cases "nat_digits n") auto

lemma not_digit_signs: "\<not> is_digit (CHR ''-'')" "\<not> is_digit (CHR ''+'')"
  by (simp_all add: is_digit_def)

lemma atoi_itoa: "in_int64 v \<Longrightarrow> atoi (itoa v) = Some v"
proof -
  assume v: "in_int64 v"
  obtain c cs where c: "nat_digits (nat v) = c # cs" "is_digit c" using nat_digits_head by blast
  then have "c \<noteq> CHR ''-''" "c \<noteq> CHR ''+''" using not_digit_signs by auto
  with c v show ?thesis
    using nat_digits_digits [of "nat v"] nat_digits_digits [of "nat (- v)"]
      digits_value_nat_digits [of "nat v"]
    by (auto simp: atoi_def itoa_def digits_value_nat_digits)
qed

lemma itoa_inject: "itoa v = itoa w \<longleftrightarrow> v = w"
proof
  assume eq: "itoa v = itoa w"
  have dash: "nat_digits n \<noteq> CHR ''-'' # ds" for n ds
    using nat_digits_digits [of n] not_digit_signs by auto
  have inj: "nat_digits m = nat_digits n \<Longrightarrow> m = n" for m n
    by (metis digits_value_nat_digits of_nat_eq_iff)
  from eq dash show "v = w"
    by (auto simp: itoa_def dest!: inj split: if_splits) (metis dash)+
qed simp

section \<open>Comparing slices\<close>

text \<open>\<open>slices.Compare\<close>: the first unequal pair decides, then the lengths.\<close>

fun slices_compare :: "int list \<Rightarrow> int list \<Rightarrow> int" where
  "slices_compare [] [] = 0"
| "slices_compare [] (y # ys) = -1"
| "slices_compare (x # xs) [] = 1"
| "slices_compare (x # xs) (y # ys) =
     (if x < y then -1 else if y < x then 1 else slices_compare xs ys)"

lemma slices_compare_less: "slices_compare xs ys < 0 \<longleftrightarrow> xs < ys"
  by (induction xs ys rule: slices_compare.induct) auto

end
