(* ===== verification/GoPath.thy ===== *)
theory GoPath imports GoStrings begin

text \<open>
  The functions of Go's package \<open>path/filepath\<close> that the program calls, on Unix paths, with the
  facts about cleaned absolute paths that the PCI hierarchy and the socket paths rest on.
\<close>

section \<open>Clean, Join, Base, Dir\<close>

text \<open>The stack of kept segments is in reverse order.\<close>

definition clean_step :: "bool \<Rightarrow> string list \<Rightarrow> string \<Rightarrow> string list" where
  "clean_step rooted stack seg =
     (if seg = [] \<or> seg = ''.'' then stack
      else if seg = ''..'' then
        (case stack of
           [] \<Rightarrow> if rooted then [] else [''..'']
         | t # ts \<Rightarrow> if t = ''..'' then ''..'' # stack else ts)
      else seg # stack)"

definition path_clean :: "string \<Rightarrow> string" where
  "path_clean s =
     (let rooted = has_prefix s ''/'';
          kept = rev (foldl (clean_step rooted) [] (go_split CHR ''/'' s))
      in if rooted then ''/'' @ go_join ''/'' kept
         else if kept = [] then ''.'' else go_join ''/'' kept)"

definition path_join :: "string list \<Rightarrow> string" where
  "path_join es =
     (case dropWhile (\<lambda>e. e = []) es of
        [] \<Rightarrow> []
      | e # es' \<Rightarrow> path_clean (go_join ''/'' (e # es')))"

definition path_base :: "string \<Rightarrow> string" where
  "path_base s =
     (if s = [] then ''.''
      else let t = trim_right_set s ''/''
           in if t = [] then ''/'' else rev (takeWhile (\<lambda>c. c \<noteq> CHR ''/'') (rev t)))"

definition path_dir :: "string \<Rightarrow> string" where
  "path_dir s = path_clean (rev (dropWhile (\<lambda>c. c \<noteq> CHR ''/'') (rev s)))"

section \<open>Clean absolute paths\<close>

definition good_seg :: "string \<Rightarrow> bool" where
  "good_seg w \<longleftrightarrow> w \<noteq> [] \<and> w \<noteq> ''.'' \<and> w \<noteq> ''..'' \<and> CHR ''/'' \<notin> set w"

definition abs_path :: "string list \<Rightarrow> string" where
  "abs_path ws = ''/'' @ go_join ''/'' ws"

lemma good_seg_no_slash: "good_seg w \<Longrightarrow> CHR ''/'' \<notin> set w"
  by (simp add: good_seg_def)

lemma clean_step_good: "good_seg w \<Longrightarrow> clean_step r st w = w # st"
  by (auto simp: clean_step_def good_seg_def)

lemma clean_good: "\<forall>w\<in>set ws. good_seg w \<Longrightarrow> foldl (clean_step r) st ws = rev ws @ st"
  by (induction ws arbitrary: st) (auto simp: clean_step_good)

lemma go_split_slash_join:
  "\<forall>w\<in>set ws. good_seg w \<Longrightarrow> ws \<noteq> [] \<Longrightarrow> go_split CHR ''/'' (go_join ''/'' ws) = ws"
  by (intro go_split_join) (auto simp: good_seg_no_slash)

lemma go_split_abs_path:
  "\<forall>w\<in>set ws. good_seg w \<Longrightarrow>
     foldl (clean_step True) [] (go_split CHR ''/'' (abs_path ws)) = rev ws"
proof (cases "ws = []")
  case True
  then show ?thesis by (simp add: abs_path_def clean_step_def)
next
  case False
  assume "\<forall>w\<in>set ws. good_seg w"
  with False show ?thesis
    by (simp add: abs_path_def go_split_slash_join clean_good clean_step_def [of True "[]" "[]"])
qed

text \<open>Joining one more path element to a clean absolute path, for every shape of the element.\<close>

lemma path_join_abs:
  assumes "\<forall>w\<in>set ws. good_seg w" and "CHR ''/'' \<notin> set seg"
  shows "path_join [abs_path ws, seg] = abs_path (rev (clean_step True (rev ws) seg))"
proof -
  let ?s = "abs_path ws @ ''/'' @ seg"
  have "go_split CHR ''/'' ?s = go_split CHR ''/'' (abs_path ws) @ [seg]"
    using assms(2) by (simp add: go_split_append_sep go_split_plain)
  moreover have "has_prefix ?s ''/''" by (simp add: abs_path_def has_prefix_def)
  ultimately have "path_clean ?s = abs_path (rev (clean_step True (rev ws) seg))"
    using go_split_abs_path [OF assms(1)]
    by (simp only: path_clean_def Let_def foldl_append foldl.simps if_True abs_path_def)
  then show ?thesis by (simp add: path_join_def abs_path_def)
qed

lemma path_join_abs_good:
  "\<forall>w\<in>set ws. good_seg w \<Longrightarrow> good_seg seg \<Longrightarrow>
     path_join [abs_path ws, seg] = abs_path (ws @ [seg])"
  by (simp add: path_join_abs good_seg_no_slash clean_step_good)

lemma clean_step_keeps_good:
  assumes "\<forall>w\<in>set ws. good_seg w" and "CHR ''/'' \<notin> set seg"
  shows "\<forall>w\<in>set (rev (clean_step True (rev ws) seg)). good_seg w"
proof (cases "rev ws")
  case Nil
  with assms show ?thesis by (auto simp: clean_step_def good_seg_def)
next
  case (Cons t ts)
  then have "set ws = insert t (set ts)" by (metis list.simps(15) set_rev)
  with Cons assms show ?thesis by (auto simp: clean_step_def good_seg_def)
qed

lemma abs_path_inject:
  assumes "\<forall>w\<in>set ws. good_seg w" "\<forall>w\<in>set vs. good_seg w"
  shows "abs_path ws = abs_path vs \<longleftrightarrow> ws = vs"
  using go_split_abs_path [OF assms(1)] go_split_abs_path [OF assms(2)]
  by (metis rev_is_rev_conv)

lemma path_clean_abs_path: "\<forall>w\<in>set ws. good_seg w \<Longrightarrow> path_clean (abs_path ws) = abs_path ws"
  by (simp add: path_clean_def go_split_abs_path Let_def has_prefix_def)
    (simp add: abs_path_def)

end
