(* ===== verification/Sysfs.thy ===== *)
theory Sysfs imports GoPath begin

text \<open>
  The operating system as the program reads it: one snapshot of the file system, given by the
  results of the calls \<open>os.Lstat\<close>, \<open>os.Readlink\<close>, \<open>os.ReadFile\<close>, \<open>filepath.EvalSymlinks\<close> and
  \<open>os.Stat\<close> on each path.  It is a parameter of every definition that reads it.  An error is
  either one for which \<open>errors.Is(err, os.ErrNotExist)\<close> holds or any other.
\<close>

datatype fs_error = NotExist | FsError string

record filesystem =
  fs_lstat :: "string \<Rightarrow> (fs_error, unit) go_result"
  fs_readlink :: "string \<Rightarrow> (fs_error, string) go_result"
  fs_readfile :: "string \<Rightarrow> (fs_error, string) go_result"
  fs_evalsymlinks :: "string \<Rightarrow> (fs_error, string) go_result"
  fs_stat :: "string \<Rightarrow> (fs_error, bool) go_result"

definition err_text :: "fs_error \<Rightarrow> string" where
  "err_text err = (case err of NotExist \<Rightarrow> ''no such file or directory'' | FsError msg \<Rightarrow> msg)"

text \<open>A snapshot in which no path exists.\<close>

definition empty_fs :: filesystem where
  "empty_fs = \<lparr>fs_lstat = (\<lambda>_. Inl NotExist), fs_readlink = (\<lambda>_. Inl NotExist),
     fs_readfile = (\<lambda>_. Inl NotExist), fs_evalsymlinks = (\<lambda>_. Inl NotExist),
     fs_stat = (\<lambda>_. Inl NotExist)\<rparr>"

end
