(* ===== verification/Devices.thy ===== *)
theory Devices imports Sysfs begin

text \<open>
  The device data of \<open>cmd/rbln-device-plugin/inventory.go\<close>: \<open>NPUDevice\<close> with the fields of
  \<open>rblndevice.Device\<close> that the program reads, the resource groups, and the sorted identifiers
  every component iterates over.
\<close>

record rblnDevice =
  Name :: string
  ProductName :: string
  PCIDeviceID :: string
  PCIBusID :: string
  PCINumaNode :: string
  SID :: string

record npuDevice =
  Info :: rblnDevice
  Health :: string
  StatusName :: string
  ParentPFBusID :: string

record deviceGroup =
  ResourceName :: string
  Devices :: "npuDevice go_map"

definition zeroNPUDevice :: npuDevice where
  "zeroNPUDevice =
     \<lparr>Info = \<lparr>Name = [], ProductName = [], PCIDeviceID = [], PCIBusID = [], PCINumaNode = [],
        SID = []\<rparr>, Health = [], StatusName = [], ParentPFBusID = []\<rparr>"

text \<open>Reading a Go map at a key that is absent gives the zero value.\<close>

definition device_at :: "npuDevice go_map \<Rightarrow> string \<Rightarrow> npuDevice" where
  "device_at devices i = (case map_of devices i of Some d \<Rightarrow> d | None \<Rightarrow> zeroNPUDevice)"

definition sortedDeviceIDs :: "npuDevice go_map \<Rightarrow> string list" where
  "sortedDeviceIDs devices = sort (map fst devices)"

lemma sortedDeviceIDs_keys: "sortedDeviceIDs = sorted_keys"
  by (intro ext) (simp add: sortedDeviceIDs_def sorted_keys_def)

lemma set_sortedDeviceIDs [simp]: "set (sortedDeviceIDs ds) = fst ` set ds"
  by (simp add: sortedDeviceIDs_keys)

lemma sorted_sortedDeviceIDs [simp]: "sorted (sortedDeviceIDs ds)"
  by (simp add: sortedDeviceIDs_keys)

lemma distinct_sortedDeviceIDs [simp]: "distinct (sortedDeviceIDs ds) \<longleftrightarrow> go_map_ok ds"
  by (simp add: sortedDeviceIDs_keys)

lemma length_sortedDeviceIDs [simp]: "length (sortedDeviceIDs ds) = length ds"
  by (simp add: sortedDeviceIDs_keys)

lemma device_at_Some: "map_of ds i = Some d \<Longrightarrow> device_at ds i = d"
  by (simp add: device_at_def)

lemma device_at_key: "i \<in> fst ` set ds \<Longrightarrow> map_of ds i = Some (device_at ds i)"
  by (auto simp: device_at_def keys_iff_map_of)

end
