(* ===== verification/PciAncestors.thy ===== *)
theory PciAncestors imports Devices begin

text \<open>
  \<open>pciDeviceAncestors\<close> of \<open>cmd/rbln-device-plugin/pci_topology.go\<close>: the PCI root, the upstream
  bridges and the endpoint of one device, as canonical sysfs paths.  The lemmas show that the
  paths of all devices fit into one forest: equal paths have equal chains of ancestors, which is
  what interning nodes by their path relies on.
\<close>

section \<open>The two address patterns\<close>

definition is_hex :: "char \<Rightarrow> bool" where
  "is_hex c \<longleftrightarrow> is_digit c \<or> (97 \<le> (of_char c :: nat) \<and> (of_char c :: nat) \<le> 102)
     \<or> (65 \<le> (of_char c :: nat) \<and> (of_char c :: nat) \<le> 70)"

fun topologyPCIAddressPattern :: "string \<Rightarrow> bool" where
  "topologyPCIAddressPattern [d1, d2, d3, d4, s1, b1, b2, s2, v1, v2, s3, f] \<longleftrightarrow>
     list_all is_hex [d1, d2, d3, d4] \<and> s1 = CHR '':'' \<and> list_all is_hex [b1, b2]
     \<and> s2 = CHR '':'' \<and> list_all is_hex [v1, v2] \<and> s3 = CHR ''.''
     \<and> 48 \<le> (of_char f :: nat) \<and> (of_char f :: nat) \<le> 55"
| "topologyPCIAddressPattern _ \<longleftrightarrow> False"

fun topologyPCIRootPattern :: "string \<Rightarrow> bool" where
  "topologyPCIRootPattern [p, c, i, d1, d2, d3, d4, s1, b1, b2] \<longleftrightarrow>
     [p, c, i] = ''pci'' \<and> list_all is_hex [d1, d2, d3, d4] \<and> s1 = CHR '':''
     \<and> list_all is_hex [b1, b2]"
| "topologyPCIRootPattern _ \<longleftrightarrow> False"

fun_cases addressE: "topologyPCIAddressPattern s"
fun_cases rootE: "topologyPCIRootPattern s"

definition topologyPCISysfsDevicesPath :: string where
  "topologyPCISysfsDevicesPath = ''/sys/bus/pci/devices''"

section \<open>pciDeviceAncestors\<close>

datatype ancestors_error =
    InvalidPCIAddress string
  | AncestorsFs fs_error
  | PathNotAtDevice string
  | UnexpectedComponent string
  | PCIRootMissing string

text \<open>The loop over the segments of the resolved path.\<close>

fun ancestor_walk ::
    "string \<Rightarrow> string list \<Rightarrow> string list \<Rightarrow> (ancestors_error, string list) go_result" where
  "ancestor_walk current ancestors [] = Inr ancestors"
| "ancestor_walk current ancestors (segment # segments) =
     (let current = path_join [current, segment]
      in if topologyPCIRootPattern segment \<and> ancestors = [] then
           ancestor_walk current (ancestors @ [current]) segments
         else if ancestors \<noteq> [] then
           (if \<not> topologyPCIAddressPattern segment then Inl (UnexpectedComponent segment)
            else ancestor_walk current (ancestors @ [current]) segments)
         else ancestor_walk current ancestors segments)"

definition pciDeviceAncestors ::
    "filesystem \<Rightarrow> string \<Rightarrow> (ancestors_error, string list) go_result" where
  "pciDeviceAncestors fs busID =
     (if \<not> topologyPCIAddressPattern busID then Inl (InvalidPCIAddress busID)
      else (case fs_evalsymlinks fs (path_join [topologyPCISysfsDevicesPath, go_to_lower busID]) of
        Inl e \<Rightarrow> Inl (AncestorsFs e)
      | Inr path \<Rightarrow>
          (case fs_stat fs path of
             Inl e \<Rightarrow> Inl (AncestorsFs e)
           | Inr is_dir \<Rightarrow>
               if \<not> is_dir \<or> \<not> equal_fold (path_base path) busID then Inl (PathNotAtDevice busID)
               else (case ancestor_walk ''/'' [] (go_split CHR ''/'' (path_clean path)) of
                  Inl e \<Rightarrow> Inl e
                | Inr ancestors \<Rightarrow>
                    if length ancestors < 2 then Inl (PCIRootMissing busID) else Inr ancestors))))"

section \<open>Shape of the segments\<close>

lemma slash_not_hex: "\<not> is_hex (CHR ''/'')"
  by (simp add: is_hex_def is_digit_def)

lemma address_good: "topologyPCIAddressPattern s \<Longrightarrow> good_seg s"
  by (erule addressE) (use slash_not_hex in \<open>auto simp: good_seg_def\<close>)

lemma root_good: "topologyPCIRootPattern s \<Longrightarrow> good_seg s"
  by (erule rootE) (use slash_not_hex in \<open>auto simp: good_seg_def\<close>)

lemma root_not_address: "topologyPCIRootPattern s \<Longrightarrow> \<not> topologyPCIAddressPattern s"
  by (auto elim!: rootE)

section \<open>Prefix consistency\<close>

text \<open>
  A chain of ancestors extends a clean directory path by a root segment and then by PCI
  addresses.  \<open>chain_of ws segs\<close> lists the paths it visits.
\<close>

fun chain_of :: "string list \<Rightarrow> string list \<Rightarrow> string list" where
  "chain_of ws [] = []"
| "chain_of ws (seg # segs) = abs_path (ws @ [seg]) # chain_of (ws @ [seg]) segs"

lemma chain_of_snoc: "chain_of ws (segs @ [seg]) = chain_of ws segs @ [abs_path (ws @ segs @ [seg])]"
  by (induction segs arbitrary: ws) auto

lemma length_chain_of [simp]: "length (chain_of ws segs) = length segs"
  by (induction segs arbitrary: ws) auto

lemma nth_chain_of: "i < length segs \<Longrightarrow> chain_of ws segs ! i = abs_path (ws @ take (Suc i) segs)"
  by (induction segs arbitrary: ws i) (auto simp: nth_Cons split: nat.splits)

lemma take_chain_of: "take k (chain_of ws segs) = chain_of ws (take k segs)"
  by (induction segs arbitrary: ws k) (auto simp: take_Cons split: nat.splits)

text \<open>Once the root has been met, the walk appends one address per step.\<close>

lemma ancestor_walk_below:
  assumes "ancestor_walk (abs_path ws) anc segs = Inr res" "anc \<noteq> []" "\<forall>w\<in>set ws. good_seg w"
  shows "res = anc @ chain_of ws segs \<and> list_all topologyPCIAddressPattern segs"
  using assms
proof (induction segs arbitrary: ws anc)
  case (Cons seg segs)
  have addr: "topologyPCIAddressPattern seg"
    using Cons.prems(1,2) by (auto simp: Let_def split: if_splits)
  with Cons.prems have "path_join [abs_path ws, seg] = abs_path (ws @ [seg])"
    by (simp add: path_join_abs_good address_good)
  with Cons.prems addr Cons.IH [of "ws @ [seg]" "anc @ [abs_path (ws @ [seg])]"]
  show ?case by (auto simp: Let_def address_good split: if_splits)
qed simp

definition chain_shape :: "string list \<Rightarrow> bool" where
  "chain_shape res \<longleftrightarrow> res = [] \<or>
     (\<exists>ws r segs. res = chain_of ws (r # segs) \<and> (\<forall>w\<in>set ws. good_seg w)
        \<and> topologyPCIRootPattern r \<and> list_all topologyPCIAddressPattern segs)"

lemma ancestor_walk_shape:
  assumes "ancestor_walk (abs_path ws) [] segs = Inr res" "\<forall>w\<in>set ws. good_seg w"
    "\<forall>w\<in>set segs. CHR ''/'' \<notin> set w"
  shows "chain_shape res"
  using assms
proof (induction segs arbitrary: ws)
  case Nil
  then show ?case by (simp add: chain_shape_def)
next
  case (Cons seg segs)
  let ?ws = "rev (clean_step True (rev ws) seg)"
  have step: "path_join [abs_path ws, seg] = abs_path ?ws" and good: "\<forall>w\<in>set ?ws. good_seg w"
    using Cons.prems path_join_abs [of ws seg] clean_step_keeps_good [of ws seg] by auto
  show ?case
  proof (cases "topologyPCIRootPattern seg")
    case True
    then have "?ws = ws @ [seg]" by (simp add: clean_step_good root_good)
    with Cons.prems(1) True step
    have "ancestor_walk (abs_path (ws @ [seg])) [abs_path (ws @ [seg])] segs = Inr res"
      by (simp add: Let_def)
    then have "res = chain_of ws (seg # segs) \<and> list_all topologyPCIAddressPattern segs"
      using ancestor_walk_below [of "ws @ [seg]" "[abs_path (ws @ [seg])]" segs res]
        Cons.prems(2) True by (auto simp: root_good)
    with True Cons.prems(2) show ?thesis unfolding chain_shape_def by blast
  next
    case False
    with Cons.prems(1) step have "ancestor_walk (abs_path ?ws) [] segs = Inr res"
      by (simp add: Let_def)
    then show ?thesis using Cons.IH [OF _ good] Cons.prems(3) by simp
  qed
qed

lemma pciDeviceAncestors_shape:
  assumes "pciDeviceAncestors fs busID = Inr anc"
  shows "chain_shape anc \<and> 2 \<le> length anc"
proof -
  from assms obtain path where
    "ancestor_walk ''/'' [] (go_split CHR ''/'' (path_clean path)) = Inr anc" "2 \<le> length anc"
    by (auto simp: pciDeviceAncestors_def split: if_splits sum.splits)
  then show ?thesis
    using ancestor_walk_shape [of "[]"] go_split_no_sep by (auto simp: abs_path_def)
qed

lemma last_root_unique:
  assumes eq: "ws @ r # as = vs @ s # bs"
    and "topologyPCIRootPattern r" "topologyPCIRootPattern s"
    and "list_all topologyPCIAddressPattern as" "list_all topologyPCIAddressPattern bs"
  shows "ws = vs \<and> r = s \<and> as = bs"
proof -
  have tw: "takeWhile topologyPCIAddressPattern (rev (us @ t # cs)) = rev cs"
    if "topologyPCIRootPattern t" "list_all topologyPCIAddressPattern cs" for us t cs
    using that by (subst rev_append, subst rev.simps, subst append_assoc, subst takeWhile_append2)
      (auto simp: list_all_iff root_not_address)
  have "rev as = rev bs" using tw assms by metis
  with eq show ?thesis by simp
qed

text \<open>Equal paths in two chains stand at the same position, below the same ancestors.\<close>

lemma chain_shape_consistent:
  assumes "chain_shape as" "chain_shape bs" "i < length as" "j < length bs" "as ! i = bs ! j"
  shows "take (Suc i) as = take (Suc j) bs"
proof -
  from assms obtain ws r xs where a: "as = chain_of ws (r # xs)" "\<forall>w\<in>set ws. good_seg w"
    "topologyPCIRootPattern r" "list_all topologyPCIAddressPattern xs"
    by (auto simp: chain_shape_def)
  from assms obtain vs s ys where b: "bs = chain_of vs (s # ys)" "\<forall>w\<in>set vs. good_seg w"
    "topologyPCIRootPattern s" "list_all topologyPCIAddressPattern ys"
    by (auto simp: chain_shape_def)
  have good: "\<forall>w\<in>set (zs @ t # take k us). good_seg w"
    if "list_all topologyPCIAddressPattern us" "topologyPCIRootPattern t"
      "\<forall>w\<in>set zs. good_seg w" for us t k zs
    using that by (auto simp: root_good list_all_iff address_good dest: in_set_takeD)
  have addr: "list_all topologyPCIAddressPattern (take k us)"
    if "list_all topologyPCIAddressPattern us" for us k
    using that by (auto simp: list_all_iff dest: in_set_takeD)
  have "abs_path (ws @ r # take i xs) = abs_path (vs @ s # take j ys)"
    using assms(3-5) a(1) b(1) by (simp add: nth_chain_of del: chain_of.simps)
  then have "ws @ r # take i xs = vs @ s # take j ys"
    using abs_path_inject [OF good [OF a(4,3,2)] good [OF b(4,3,2)]] by blast
  then have "ws = vs \<and> r = s \<and> take i xs = take j ys"
    using a(3) b(3) addr [OF a(4)] addr [OF b(4)] by (rule last_root_unique)
  then show ?thesis using a(1) b(1) by (simp add: take_chain_of)
qed

text \<open>
  The interface of the ancestor chains: the set of all their non-empty prefixes is closed under
  prefixes and determined by the last path.  The forest of \<open>newPCITree\<close> is built against this
  contract alone.
\<close>

definition ancestor_family :: "filesystem \<Rightarrow> string list set" where
  "ancestor_family fs =
     {take k anc | k anc busID. pciDeviceAncestors fs busID = Inr anc \<and> 0 < k \<and> k \<le> length anc}"

locale path_family =
  fixes family :: "string list set"
  assumes family_nonempty: "p \<in> family \<Longrightarrow> p \<noteq> []"
    and family_prefix: "p @ q \<in> family \<Longrightarrow> p \<noteq> [] \<Longrightarrow> p \<in> family"
    and family_last: "p \<in> family \<Longrightarrow> q \<in> family \<Longrightarrow> last p = last q \<Longrightarrow> p = q"

interpretation sysfs: path_family "ancestor_family fs" for fs
proof unfold_locales
  fix p assume "p \<in> ancestor_family fs"
  then show "p \<noteq> []" by (auto simp: ancestor_family_def)
next
  fix p q assume pq: "p @ q \<in> ancestor_family fs" "p \<noteq> []"
  then obtain k anc busID where *: "p @ q = take k anc" "pciDeviceAncestors fs busID = Inr anc"
    "k \<le> length anc" by (auto simp: ancestor_family_def)
  then have "p = take (length p) anc" "length p \<le> length anc"
    by (metis append_eq_conv_conj min.absorb1 take_take le_cases length_append length_take
        le_add1 min_def) (metis * length_append length_take le_add1 le_trans min.cobounded2 min.commute)
  with * pq(2) show "p \<in> ancestor_family fs" by (auto simp: ancestor_family_def)
next
  fix p q assume "p \<in> ancestor_family fs" "q \<in> ancestor_family fs" and l: "last p = last q"
  then obtain k anc bus k' anc' bus' where
    p: "p = take k anc" "pciDeviceAncestors fs bus = Inr anc" "0 < k" "k \<le> length anc" and
    q: "q = take k' anc'" "pciDeviceAncestors fs bus' = Inr anc'" "0 < k'" "k' \<le> length anc'"
    by (auto simp: ancestor_family_def)
  have nth: "last (take n xs) = xs ! (n - 1)" if "0 < n" "n \<le> length xs" for n and xs :: "string list"
    using that by (subst last_conv_nth) auto
  have "anc ! (k - 1) = anc' ! (k' - 1)" using l p q by (simp add: nth)
  then have "take (Suc (k - 1)) anc = take (Suc (k' - 1)) anc'"
    using p q pciDeviceAncestors_shape by (intro chain_shape_consistent) auto
  then show "p = q" using p q by simp
qed

lemma pciDeviceAncestors_in_family:
  assumes "pciDeviceAncestors fs busID = Inr anc"
  shows "anc \<in> ancestor_family fs"
  using assms pciDeviceAncestors_shape [OF assms] unfolding ancestor_family_def
  by (intro CollectI exI [of _ "length anc"] exI [of _ anc] exI [of _ busID]) auto

end
