(* ===== verification/PciTree.thy ===== *)
theory PciTree imports PciAncestors begin

text \<open>
  The PCI forest of \<open>cmd/rbln-device-plugin/pci_topology.go\<close>: \<open>pciTree\<close>, \<open>pciTreeNode\<close>,
  \<open>newPCITree\<close> and \<open>distance\<close>.  A Go pointer to a node is the index of the node in
  \<open>tree.nodes\<close>: every node is allocated by \<open>newPCITree\<close> and appended there at once.  The lemmas
  label every node with its chain of ancestors and derive the distance from the labels.
\<close>

section \<open>Data\<close>

record pciTreeNode =
  nparent :: "nat option"
  nroot :: nat
  nchildren :: "nat list"
  ndepth :: nat
  nindex :: nat

record pciTree =
  tree_devices :: "nat go_map"
  tree_nodes :: "pciTreeNode list"
  tree_roots :: "nat list"

record pciDistance =
  pair_known :: bool
  pair_separateRoots :: bool
  pair_hops :: int

definition zeroPCIDistance :: pciDistance where
  "zeroPCIDistance = \<lparr>pair_known = False, pair_separateRoots = False, pair_hops = 0\<rparr>"

section \<open>newPCITree\<close>

text \<open>The body of the inner loop: find the node of a path or append a new one below \<open>parent\<close>.\<close>

definition intern_node ::
    "nat option \<Rightarrow> string \<Rightarrow> pciTree \<times> nat go_map \<Rightarrow> (pciTree \<times> nat go_map) \<times> nat" where
  "intern_node parent path st =
     (case st of (tree, nodes) \<Rightarrow>
       (case map_of nodes path of
          Some n \<Rightarrow> ((tree, nodes), n)
        | None \<Rightarrow>
            (let n = length (tree_nodes tree) in
             (case parent of
                None \<Rightarrow>
                  ((tree\<lparr>tree_nodes := tree_nodes tree @
                      [\<lparr>nparent = None, nroot = n, nchildren = [], ndepth = 0, nindex = n\<rparr>],
                    tree_roots := tree_roots tree @ [n]\<rparr>, AList.update path n nodes), n)
              | Some p \<Rightarrow>
                  (let pn = tree_nodes tree ! p in
                   ((tree\<lparr>tree_nodes :=
                       (tree_nodes tree)[p := pn\<lparr>nchildren := nchildren pn @ [n]\<rparr>] @
                       [\<lparr>nparent = Some p, nroot = nroot pn, nchildren = [],
                         ndepth = ndepth pn + 1, nindex = n\<rparr>]\<rparr>,
                     AList.update path n nodes), n))))))"

fun intern_ancestors ::
    "nat option \<Rightarrow> string list \<Rightarrow> pciTree \<times> nat go_map \<Rightarrow> (pciTree \<times> nat go_map) \<times> nat option" where
  "intern_ancestors parent [] st = (st, parent)"
| "intern_ancestors parent (path # paths) st =
     (case intern_node parent path st of (st', n) \<Rightarrow> intern_ancestors (Some n) paths st')"

text \<open>The body of the outer loop; a device without a readable chain is skipped.\<close>

definition add_tree_device ::
    "filesystem \<Rightarrow> npuDevice go_map \<Rightarrow> string \<Rightarrow> pciTree \<times> nat go_map \<Rightarrow> pciTree \<times> nat go_map" where
  "add_tree_device fs devices i st =
     (case pciDeviceAncestors fs (PCIBusID (Info (device_at devices i))) of
        Inl e \<Rightarrow> st
      | Inr ancestors \<Rightarrow>
          (case intern_ancestors None ancestors st of
             ((tree, nodes), Some n) \<Rightarrow>
               (tree\<lparr>tree_devices := AList.update i n (tree_devices tree)\<rparr>, nodes)
           | (st', None) \<Rightarrow> st'))"

definition empty_tree :: pciTree where
  "empty_tree = \<lparr>tree_devices = [], tree_nodes = [], tree_roots = []\<rparr>"

definition newPCITree :: "filesystem \<Rightarrow> npuDevice go_map \<Rightarrow> pciTree" where
  "newPCITree fs devices =
     fst (fold (add_tree_device fs devices) (sortedDeviceIDs devices) (empty_tree, []))"

section \<open>distance\<close>

text \<open>
  The three loops climb parent pointers; \<open>None\<close> is a nil dereference (a panic) or no return.
\<close>

partial_function (option) climb_above :: "pciTreeNode list \<Rightarrow> nat \<Rightarrow> nat \<Rightarrow> nat option" where
  "climb_above nodes d a =
     (if ndepth (nodes ! a) > d
      then (case nparent (nodes ! a) of None \<Rightarrow> None | Some p \<Rightarrow> climb_above nodes d p)
      else Some a)"

partial_function (option) climb_together :: "pciTreeNode list \<Rightarrow> nat \<Rightarrow> nat \<Rightarrow> nat option" where
  "climb_together nodes a b =
     (if a \<noteq> b
      then (case nparent (nodes ! a) of None \<Rightarrow> None | Some p \<Rightarrow>
            (case nparent (nodes ! b) of None \<Rightarrow> None | Some q \<Rightarrow> climb_together nodes p q))
      else Some a)"

declare climb_above.simps [code] climb_together.simps [code]

definition tree_distance :: "pciTree \<Rightarrow> string \<Rightarrow> string \<Rightarrow> pciDistance option" where
  "tree_distance t source destination =
     (case (map_of (tree_devices t) source, map_of (tree_devices t) destination) of
        (Some a, Some b) \<Rightarrow>
          (let nodes = tree_nodes t in
           if nroot (nodes ! a) \<noteq> nroot (nodes ! b)
           then Some (zeroPCIDistance\<lparr>pair_separateRoots := True\<rparr>)
           else (let depthSum = ndepth (nodes ! a) + ndepth (nodes ! b) in
             Option.bind (climb_above nodes (ndepth (nodes ! b)) a) (\<lambda>a.
             Option.bind (climb_above nodes (ndepth (nodes ! a)) b) (\<lambda>b.
             Option.bind (climb_together nodes a b) (\<lambda>a.
               Some \<lparr>pair_known = True, pair_separateRoots = False,
                 pair_hops = int depthSum - 2 * int (ndepth (nodes ! a))\<rparr>)))))
      | _ \<Rightarrow> Some zeroPCIDistance)"

section \<open>Labels: every node stands for a chain of ancestors\<close>

definition node_labelled :: "string list list \<Rightarrow> nat \<Rightarrow> pciTreeNode \<Rightarrow> bool" where
  "node_labelled ps n nd \<longleftrightarrow>
     nindex nd = n \<and> Suc (ndepth nd) = length (ps ! n)
     \<and> (case nparent nd of
          None \<Rightarrow> length (ps ! n) = 1
        | Some m \<Rightarrow> m < n \<and> 1 < length (ps ! n) \<and> ps ! m = butlast (ps ! n))
     \<and> nroot nd < length ps \<and> ps ! nroot nd = [hd (ps ! n)]
     \<and> nchildren nd = filter (\<lambda>m. 1 < length (ps ! m) \<and> butlast (ps ! m) = ps ! n) [0..<length ps]"

definition labelled :: "string list set \<Rightarrow> string list list \<Rightarrow> pciTree \<Rightarrow> bool" where
  "labelled fam ps t \<longleftrightarrow>
     length (tree_nodes t) = length ps \<and> distinct ps \<and> set ps \<subseteq> fam
     \<and> (\<forall>n<length ps. node_labelled ps n (tree_nodes t ! n))
     \<and> tree_roots t = filter (\<lambda>n. length (ps ! n) = 1) [0..<length ps]"

definition interned :: "string list list \<Rightarrow> nat go_map \<Rightarrow> bool" where
  "interned ps nodes \<longleftrightarrow>
     (\<forall>x n. map_of nodes x = Some n \<longleftrightarrow> n < length ps \<and> last (ps ! n) = x)"

lemma node_labelled_append:
  assumes "node_labelled ps n nd" "n < length ps" "\<not> (1 < length p \<and> butlast p = ps ! n)"
  shows "node_labelled (ps @ [p]) n nd"
  using assms
  by (auto simp: node_labelled_def nth_append split: option.splits intro!: filter_cong)

lemma node_labelled_append_child:
  assumes "node_labelled ps n nd" "n < length ps" "1 < length p" "butlast p = ps ! n"
  shows "node_labelled (ps @ [p]) n (nd\<lparr>nchildren := nchildren nd @ [length ps]\<rparr>)"
  using assms
  by (auto simp: node_labelled_def nth_append split: option.splits intro!: filter_cong)

lemma interned_append:
  assumes "interned ps nodes" "\<forall>n<length ps. last (ps ! n) \<noteq> last p"
  shows "interned (ps @ [p]) (AList.update (last p) (length ps) nodes)"
proof -
  have "map_of (AList.update (last p) (length ps) nodes) x = Some n \<longleftrightarrow>
      n < length (ps @ [p]) \<and> last ((ps @ [p]) ! n) = x" for x n
    using assms by (cases "n < length ps") (auto simp: interned_def go_map_simps nth_append)
  then show ?thesis by (simp add: interned_def)
qed

lemma labels_butlast:
  assumes "labelled fam ps t" "q \<in> set ps" "1 < length q"
  shows "butlast q \<in> set ps"
proof -
  obtain n where "n < length ps" "ps ! n = q" using assms(2) by (meson in_set_conv_nth)
  then have "node_labelled ps n (tree_nodes t ! n)" using assms(1) by (simp add: labelled_def)
  then obtain m where "m < n" "ps ! m = butlast q"
    using assms(3) \<open>ps ! n = q\<close> by (auto simp: node_labelled_def split: option.splits)
  with \<open>n < length ps\<close> have "m < length ps" "ps ! m = butlast q" by auto
  then show ?thesis by (metis nth_mem)
qed

lemma labelled_append_root:
  assumes "labelled fam ps t" "p \<in> fam" "p \<notin> set ps" "length p = 1"
  shows "labelled fam (ps @ [p])
    (t\<lparr>tree_nodes := tree_nodes t @ [\<lparr>nparent = None, nroot = length ps, nchildren = [],
        ndepth = 0, nindex = length ps\<rparr>], tree_roots := tree_roots t @ [length ps]\<rparr>)"
    (is "labelled _ _ (t\<lparr>tree_nodes := _ @ [?nd], tree_roots := _\<rparr>)")
proof -
  obtain x where p: "p = [x]" using assms(4) by (cases p) auto
  have "butlast q \<noteq> p" if "q \<in> set ps" "1 < length q" for q
    using labels_butlast [OF assms(1) that] assms(3) by auto
  then have new: "node_labelled (ps @ [p]) (length ps) ?nd"
    using p by (auto simp: node_labelled_def nth_append filter_empty_conv)
  have old: "node_labelled (ps @ [p]) n (tree_nodes t ! n)" if "n < length ps" for n
    using assms that by (intro node_labelled_append) (auto simp: labelled_def)
  show ?thesis
    using assms new old p by (auto simp: labelled_def nth_append less_Suc_eq intro!: filter_cong)
qed

lemma labelled_append_child:
  assumes "labelled fam ps t" "p @ [x] \<in> fam" "p @ [x] \<notin> set ps" "p \<noteq> []"
    and "m < length ps" "ps ! m = p" "\<forall>q\<in>set ps. q \<noteq> []"
  shows "labelled fam (ps @ [p @ [x]])
    (t\<lparr>tree_nodes := (tree_nodes t)[m := (tree_nodes t ! m)\<lparr>nchildren :=
          nchildren (tree_nodes t ! m) @ [length ps]\<rparr>] @
        [\<lparr>nparent = Some m, nroot = nroot (tree_nodes t ! m), nchildren = [],
          ndepth = ndepth (tree_nodes t ! m) + 1, nindex = length ps\<rparr>]\<rparr>)"
    (is "labelled _ _ (t\<lparr>tree_nodes := _ @ [?nd]\<rparr>)")
proof -
  let ?q = "p @ [x]"
  have m: "node_labelled ps m (tree_nodes t ! m)" using assms by (simp add: labelled_def)
  have "butlast q \<noteq> ?q" if "q \<in> set ps" "1 < length q" for q
    using labels_butlast [OF assms(1) that] assms(3) by auto
  moreover have "butlast ?q \<noteq> ?q" by (metis append_butlast_last_id append_self_conv list.distinct(1)
      snoc_eq_iff_butlast)
  ultimately have new: "node_labelled (ps @ [?q]) (length ps) ?nd"
    using m assms(4-6)
    by (auto simp: node_labelled_def nth_append filter_empty_conv split: option.splits)
  have old: "node_labelled (ps @ [?q]) n (tree_nodes t ! n)" if "n < length ps" "n \<noteq> m" for n
    using assms that nth_eq_iff_index_eq [of ps n m]
    by (intro node_labelled_append) (auto simp: labelled_def)
  have at: "node_labelled (ps @ [?q]) m
      ((tree_nodes t ! m)\<lparr>nchildren := nchildren (tree_nodes t ! m) @ [length ps]\<rparr>)"
    using m assms(4-6) by (intro node_labelled_append_child) auto
  show ?thesis
    using assms(1-6) new old at
    by (auto simp: labelled_def nth_append less_Suc_eq nth_list_update intro!: filter_cong)
qed

context path_family
begin

lemma labels_nonempty: "labelled family ps t \<Longrightarrow> q \<in> set ps \<Longrightarrow> q \<noteq> []"
  by (auto simp: labelled_def dest: family_nonempty)

lemma intern_node_labelled:
  assumes t: "labelled family ps t" and i: "interned ps nodes" and fam: "pre @ [x] \<in> family"
    and par: "case parent of None \<Rightarrow> pre = [] | Some p \<Rightarrow> p < length ps \<and> ps ! p = pre"
    and run: "intern_node parent x (t, nodes) = ((t', nodes'), n)"
  shows "\<exists>qs. labelled family (ps @ qs) t' \<and> interned (ps @ qs) nodes' \<and> n < length (ps @ qs)
     \<and> (ps @ qs) ! n = pre @ [x] \<and> tree_devices t' = tree_devices t"
proof (cases "map_of nodes x")
  case (Some k)
  then have "k < length ps" "last (ps ! k) = x" using i by (auto simp: interned_def)
  moreover from this have "ps ! k = pre @ [x]"
    using t fam family_last [of "ps ! k" "pre @ [x]"] nth_mem [of k ps]
    by (auto simp: labelled_def simp del: nth_mem)
  ultimately show ?thesis using Some run t i
    by (intro exI [of _ "[]"]) (auto simp: intern_node_def)
next
  case None
  then have fresh: "\<forall>n<length ps. last (ps ! n) \<noteq> last (pre @ [x])"
    using i by (auto simp: interned_def) (metis option.distinct(1))
  then have notin: "pre @ [x] \<notin> set ps" by (auto simp: in_set_conv_nth)
  have len: "length (tree_nodes t) = length ps" using t by (simp add: labelled_def)
  have int: "interned (ps @ [pre @ [x]]) (AList.update x (length ps) nodes)"
    using interned_append [OF i fresh] by simp
  show ?thesis
  proof (cases parent)
    case N: None
    then have "pre = []" using par by simp
    with labelled_append_root [OF t fam notin] None N run int len show ?thesis
      by (intro exI [of _ "[pre @ [x]]"]) (auto simp: intern_node_def Let_def nth_append)
  next
    case (Some p)
    then have p: "p < length ps" "ps ! p = pre" using par by auto
    then have "pre \<noteq> []" using labels_nonempty [OF t] by auto
    from labelled_append_child [OF t fam notin this p] labels_nonempty [OF t]
      None Some run int len show ?thesis
      by (intro exI [of _ "[pre @ [x]]"]) (auto simp: intern_node_def Let_def nth_append)
  qed
qed

lemma intern_ancestors_labelled:
  assumes "labelled family ps t" "interned ps nodes"
    and "\<And>k. 0 < k \<Longrightarrow> k \<le> length xs \<Longrightarrow> pre @ take k xs \<in> family"
    and "case parent of None \<Rightarrow> pre = [] | Some p \<Rightarrow> p < length ps \<and> ps ! p = pre"
    and "intern_ancestors parent xs (t, nodes) = ((t', nodes'), r)"
  shows "\<exists>qs. labelled family (ps @ qs) t' \<and> interned (ps @ qs) nodes'
     \<and> (case r of None \<Rightarrow> pre @ xs = [] | Some n \<Rightarrow> n < length (ps @ qs) \<and> (ps @ qs) ! n = pre @ xs)
     \<and> tree_devices t' = tree_devices t"
  using assms
proof (induction xs arbitrary: parent pre ps t nodes)
  case Nil
  then show ?case by (intro exI [of _ "[]"]) (auto split: option.splits)
next
  case (Cons x xs)
  obtain t1 nodes1 n where one: "intern_node parent x (t, nodes) = ((t1, nodes1), n)"
    by (metis prod.exhaust)
  have "pre @ [x] \<in> family" using Cons.prems(3) [of 1] by simp
  from intern_node_labelled [OF Cons.prems(1,2) this Cons.prems(4) one] obtain qs where
    qs: "labelled family (ps @ qs) t1" "interned (ps @ qs) nodes1" "n < length (ps @ qs)"
      "(ps @ qs) ! n = pre @ [x]" "tree_devices t1 = tree_devices t" by blast
  have "(pre @ [x]) @ take k xs \<in> family" if "0 < k" "k \<le> length xs" for k
    using Cons.prems(3) [of "Suc k"] that by simp
  from Cons.IH [OF qs(1,2) this, of "Some n"] qs(3-5) Cons.prems(5) one
  obtain rs where "labelled family ((ps @ qs) @ rs) t'" "interned ((ps @ qs) @ rs) nodes'"
    "case r of None \<Rightarrow> (pre @ [x]) @ xs = []
      | Some n \<Rightarrow> n < length ((ps @ qs) @ rs) \<and> ((ps @ qs) @ rs) ! n = (pre @ [x]) @ xs"
    "tree_devices t' = tree_devices t" by auto
  then show ?case by (intro exI [of _ "qs @ rs"]) (auto split: option.splits)
qed

end

end
