(* ===== verification/PciDistance.thy ===== *)
theory PciDistance imports PciTree begin

text \<open>
  What \<open>newPCITree\<close> and \<open>distance\<close> compute, stated on the sysfs paths alone: the forest holds
  exactly the devices with a readable chain of ancestors, and the distance of two devices is
  the number of edges between their paths (lengths minus twice the common prefix) when their PCI
  roots agree.
\<close>

section \<open>Common prefixes\<close>

fun lcp_len :: "'a list \<Rightarrow> 'a list \<Rightarrow> nat" where
  "lcp_len (x # xs) (y # ys) = (if x = y then Suc (lcp_len xs ys) else 0)"
| "lcp_len xs ys = 0"

lemma lcp_len_le: "lcp_len xs ys \<le> length xs" "lcp_len xs ys \<le> length ys"
  by (induction xs ys rule: lcp_len.induct) auto

lemma lcp_len_take: "lcp_len (take k xs) ys = min k (lcp_len xs ys)"
  by (induction xs ys arbitrary: k rule: lcp_len.induct) (auto simp: take_Cons split: nat.splits)

lemma lcp_len_sym: "lcp_len xs ys = lcp_len ys xs"
  by (induction xs ys rule: lcp_len.induct) auto

lemma lcp_len_take2: "lcp_len xs (take k ys) = min k (lcp_len xs ys)"
  by (metis lcp_len_sym lcp_len_take)

lemma lcp_len_self [simp]: "lcp_len xs xs = length xs"
  by (induction xs) auto

lemma lcp_len_full: "length xs = length ys \<Longrightarrow> lcp_len xs ys = length xs \<Longrightarrow> xs = ys"
  by (induction xs ys rule: lcp_len.induct) (auto split: if_splits)

lemma lcp_len_pos: "xs \<noteq> [] \<Longrightarrow> ys \<noteq> [] \<Longrightarrow> 0 < lcp_len xs ys \<longleftrightarrow> hd xs = hd ys"
  by (cases xs; cases ys) auto

lemma lcp_len_butlast:
  assumes "length xs = length ys" "xs \<noteq> ys"
  shows "lcp_len (butlast xs) (butlast ys) = lcp_len xs ys"
proof -
  have "lcp_len xs ys < length xs" using assms lcp_len_full lcp_len_le(1) le_neq_implies_less by blast
  then show ?thesis using assms(1) by (simp add: butlast_conv_take lcp_len_take lcp_len_take2)
qed

section \<open>Reference distance\<close>

definition device_path :: "filesystem \<Rightarrow> npuDevice go_map \<Rightarrow> string \<Rightarrow> string list option" where
  "device_path fs devices i =
     (case map_of devices i of
        None \<Rightarrow> None
      | Some d \<Rightarrow> (case pciDeviceAncestors fs (PCIBusID (Info d)) of Inl _ \<Rightarrow> None | Inr p \<Rightarrow> Some p))"

definition path_distance :: "string list option \<Rightarrow> string list option \<Rightarrow> pciDistance" where
  "path_distance p q =
     (case (p, q) of
        (Some xs, Some ys) \<Rightarrow>
          (if hd xs \<noteq> hd ys then zeroPCIDistance\<lparr>pair_separateRoots := True\<rparr>
           else \<lparr>pair_known = True, pair_separateRoots = False,
                  pair_hops = int (length xs) + int (length ys) - 2 * int (lcp_len xs ys)\<rparr>)
      | _ \<Rightarrow> zeroPCIDistance)"

lemma path_distance_sym: "path_distance p q = path_distance q p"
  by (auto simp: path_distance_def lcp_len_sym split: option.splits)

lemma path_distance_hops_nonneg: "0 \<le> pair_hops (path_distance p q)"
proof (cases "p = None \<or> q = None")
  case False
  then obtain xs ys where "p = Some xs" "q = Some ys" by auto
  then show ?thesis using lcp_len_le [of xs ys]
    by (simp add: path_distance_def zeroPCIDistance_def)
qed (auto simp: path_distance_def zeroPCIDistance_def split: option.splits)

section \<open>The forest of newPCITree\<close>

definition tree_rep ::
    "string list set \<Rightarrow> (string \<Rightarrow> string list option) \<Rightarrow> string list list \<Rightarrow> pciTree \<Rightarrow> bool" where
  "tree_rep fam path ps t \<longleftrightarrow> labelled fam ps t \<and>
     (\<forall>i. map_option (\<lambda>n. ps ! n) (map_of (tree_devices t) i) = path i) \<and>
     (\<forall>i n. map_of (tree_devices t) i = Some n \<longrightarrow> n < length ps)"

lemma add_tree_device_rep:
  assumes rep: "tree_rep (ancestor_family fs) path ps t" and int: "interned ps nodes"
    and i: "i \<in> fst ` set devices"
    and step: "add_tree_device fs devices i (t, nodes) = (t', nodes')"
  shows "\<exists>qs. tree_rep (ancestor_family fs)
       (case device_path fs devices i of None \<Rightarrow> path | Some p \<Rightarrow> path(i \<mapsto> p)) (ps @ qs) t'
     \<and> interned (ps @ qs) nodes'"
proof (cases "pciDeviceAncestors fs (PCIBusID (Info (device_at devices i)))")
  case (Inl e)
  then have "device_path fs devices i = None"
    using device_at_key [OF i] by (simp add: device_path_def)
  with Inl rep int step show ?thesis by (intro exI [of _ "[]"]) (simp add: add_tree_device_def)
next
  case (Inr anc)
  then have path: "device_path fs devices i = Some anc"
    using device_at_key [OF i] by (simp add: device_path_def)
  obtain t1 nodes1 r where run: "intern_ancestors None anc (t, nodes) = ((t1, nodes1), r)"
    by (metis prod.exhaust)
  have lab: "labelled (ancestor_family fs) ps t" using rep by (simp add: tree_rep_def)
  have fam: "[] @ take k anc \<in> ancestor_family fs" if "0 < k" "k \<le> length anc" for k
    using that Inr by (auto simp: ancestor_family_def)
  from sysfs.intern_ancestors_labelled [OF lab int fam _ run] obtain qs where
    qs: "labelled (ancestor_family fs) (ps @ qs) t1" "interned (ps @ qs) nodes1"
      "case r of None \<Rightarrow> anc = [] | Some n \<Rightarrow> n < length (ps @ qs) \<and> (ps @ qs) ! n = anc"
      "tree_devices t1 = tree_devices t" by (auto split: option.splits)
  then obtain n where n: "r = Some n" "n < length (ps @ qs)" "(ps @ qs) ! n = anc"
    using pciDeviceAncestors_shape [OF Inr] by (cases r) auto
  have old: "map_of (tree_devices t) j = Some m \<Longrightarrow> m < length ps" for j m
    using rep by (simp add: tree_rep_def)
  have "map_option (\<lambda>n. (ps @ qs) ! n) (map_of (tree_devices t) j) = path j" for j
  proof -
    have "map_option (\<lambda>n. ps ! n) (map_of (tree_devices t) j) = path j"
      using rep by (simp add: tree_rep_def)
    then show ?thesis using old [of j] by (cases "map_of (tree_devices t) j") (auto simp: nth_append)
  qed
  then have "tree_rep (ancestor_family fs) (path(i \<mapsto> anc)) (ps @ qs)
      (t1\<lparr>tree_devices := AList.update i n (tree_devices t1)\<rparr>)"
    using qs n old by (fastforce simp: tree_rep_def labelled_def go_map_simps)
  then show ?thesis using run n(1) Inr step path qs(2) by (auto simp: add_tree_device_def)
qed

lemma add_tree_devices_rep:
  assumes "tree_rep (ancestor_family fs) path ps t" "interned ps nodes"
    and "set ids \<subseteq> fst ` set devices"
    and "fold (add_tree_device fs devices) ids (t, nodes) = (t', nodes')"
  shows "\<exists>qs. tree_rep (ancestor_family fs)
       (\<lambda>i. if i \<in> set ids \<and> device_path fs devices i \<noteq> None then device_path fs devices i
            else path i) qs t'"
  using assms
proof (induction ids arbitrary: path ps t nodes)
  case Nil
  then show ?case by auto
next
  case (Cons i ids)
  obtain t1 nodes1 where one: "add_tree_device fs devices i (t, nodes) = (t1, nodes1)"
    by (metis prod.exhaust)
  let ?p = "case device_path fs devices i of None \<Rightarrow> path | Some p \<Rightarrow> path(i \<mapsto> p)"
  obtain qs where "tree_rep (ancestor_family fs) ?p (ps @ qs) t1" "interned (ps @ qs) nodes1"
    using add_tree_device_rep [OF Cons.prems(1,2) _ one] Cons.prems(3) by auto
  from Cons.IH [OF this] Cons.prems(3,4) one obtain rs where
    "tree_rep (ancestor_family fs) (\<lambda>j. if j \<in> set ids \<and> device_path fs devices j \<noteq> None
       then device_path fs devices j else ?p j) rs t'" by auto
  moreover have "(\<lambda>j. if j \<in> set ids \<and> device_path fs devices j \<noteq> None
       then device_path fs devices j else ?p j) =
     (\<lambda>j. if j \<in> set (i # ids) \<and> device_path fs devices j \<noteq> None
       then device_path fs devices j else path j)"
    by (rule ext) (auto split: option.splits)
  ultimately show ?case by auto
qed

theorem newPCITree_rep:
  "\<exists>ps. tree_rep (ancestor_family fs) (device_path fs devices) ps (newPCITree fs devices)"
proof -
  have "tree_rep (ancestor_family fs) (\<lambda>_. None) [] empty_tree" "interned [] []"
    by (simp_all add: tree_rep_def labelled_def empty_tree_def interned_def)
  moreover obtain t nodes where
    run: "fold (add_tree_device fs devices) (sortedDeviceIDs devices) (empty_tree, []) = (t, nodes)"
    by (metis prod.exhaust)
  ultimately obtain ps where "tree_rep (ancestor_family fs) (\<lambda>i. if i \<in> set (sortedDeviceIDs devices)
      \<and> device_path fs devices i \<noteq> None then device_path fs devices i else None) ps t"
    using add_tree_devices_rep [OF _ _ _ run] by auto
  moreover have "(\<lambda>i. if i \<in> set (sortedDeviceIDs devices)
      \<and> device_path fs devices i \<noteq> None then device_path fs devices i else None)
      = device_path fs devices"
    by (auto simp: device_path_def keys_iff_map_of split: option.splits)
  ultimately show ?thesis using run by (auto simp: newPCITree_def)
qed

section \<open>Climbing to the lowest common ancestor\<close>

lemma labelled_parent:
  assumes "labelled fam ps t" "a < length ps"
  shows "(nparent (tree_nodes t ! a) = None \<and> length (ps ! a) = 1) \<or>
     (\<exists>p. nparent (tree_nodes t ! a) = Some p \<and> p < length ps \<and> ps ! p = butlast (ps ! a)
        \<and> 1 < length (ps ! a))"
proof -
  have "node_labelled ps a (tree_nodes t ! a)" using assms by (simp add: labelled_def)
  with assms(2) show ?thesis by (auto simp: node_labelled_def split: option.splits)
qed

lemma labelled_depth:
  "labelled fam ps t \<Longrightarrow> a < length ps \<Longrightarrow> Suc (ndepth (tree_nodes t ! a)) = length (ps ! a)"
  by (simp add: labelled_def node_labelled_def)

lemma climb_above_labelled:
  assumes "labelled fam ps t" "a < length ps"
  shows "\<exists>b. climb_above (tree_nodes t) d a = Some b \<and> b < length ps
     \<and> ps ! b = take (Suc d) (ps ! a)"
  using assms(2)
proof (induction "length (ps ! a)" arbitrary: a rule: less_induct)
  case less
  have dep: "Suc (ndepth (tree_nodes t ! a)) = length (ps ! a)"
    using labelled_depth [OF assms(1) less.prems] .
  show ?case
  proof (cases "d < ndepth (tree_nodes t ! a)")
    case False
    with less.prems dep show ?thesis by (auto simp: climb_above.simps [of _ d a])
  next
    case True
    then obtain p where p: "nparent (tree_nodes t ! a) = Some p" "p < length ps"
      "ps ! p = butlast (ps ! a)"
      using labelled_parent [OF assms(1) less.prems] dep by auto
    then obtain b where "climb_above (tree_nodes t) d p = Some b" "b < length ps"
      "ps ! b = take (Suc d) (butlast (ps ! a))"
      using less.hyps [of p] True dep by fastforce
    moreover have "take (Suc d) (butlast (ps ! a)) = take (Suc d) (ps ! a)"
      using True dep by (auto simp: butlast_conv_take)
    ultimately show ?thesis using True p(1) by (auto simp: climb_above.simps [of _ d a])
  qed
qed

lemma climb_together_labelled:
  assumes "labelled fam ps t" "a < length ps" "b < length ps"
    and "length (ps ! a) = length (ps ! b)" "hd (ps ! a) = hd (ps ! b)"
  shows "\<exists>c. climb_together (tree_nodes t) a b = Some c \<and> c < length ps
     \<and> length (ps ! c) = lcp_len (ps ! a) (ps ! b)"
  using assms(2-5)
proof (induction "length (ps ! a)" arbitrary: a b rule: less_induct)
  case less
  show ?case
  proof (cases "a = b")
    case True
    with less.prems show ?thesis by (auto simp: climb_together.simps [of _ b b])
  next
    case False
    then have ne: "ps ! a \<noteq> ps ! b"
      using assms(1) less.prems by (simp add: labelled_def nth_eq_iff_index_eq)
    have "length (ps ! a) \<noteq> 1"
    proof
      assume "length (ps ! a) = 1"
      then obtain x y where "ps ! a = [x]" "ps ! b = [y]"
        using less.prems(3) by (metis One_nat_def length_0_conv length_Suc_conv)
      with ne less.prems(4) show False by simp
    qed
    then obtain p q where pq: "nparent (tree_nodes t ! a) = Some p" "p < length ps"
      "ps ! p = butlast (ps ! a)" "nparent (tree_nodes t ! b) = Some q" "q < length ps"
      "ps ! q = butlast (ps ! b)" "1 < length (ps ! a)"
      using labelled_parent [OF assms(1) less.prems(1)] labelled_parent [OF assms(1) less.prems(2)]
        less.prems(3) by auto
    then have "hd (butlast (ps ! a)) = hd (butlast (ps ! b))"
      using less.prems(3,4) by (cases "ps ! a"; cases "ps ! b") auto
    then obtain c where "climb_together (tree_nodes t) p q = Some c" "c < length ps"
      "length (ps ! c) = lcp_len (butlast (ps ! a)) (butlast (ps ! b))"
      using less.hyps [of p q] pq less.prems(3) by fastforce
    then show ?thesis using False pq lcp_len_butlast [OF less.prems(3) ne]
      by (auto simp: climb_together.simps [of _ a b])
  qed
qed

lemma labelled_root:
  assumes "labelled fam ps t" "a < length ps" "b < length ps"
  shows "nroot (tree_nodes t ! a) = nroot (tree_nodes t ! b) \<longleftrightarrow> hd (ps ! a) = hd (ps ! b)"
proof -
  have r: "nroot (tree_nodes t ! c) < length ps" "ps ! nroot (tree_nodes t ! c) = [hd (ps ! c)]"
    if "c < length ps" for c
    using that assms(1) by (auto simp: labelled_def node_labelled_def)
  have "distinct ps" using assms(1) by (simp add: labelled_def)
  then show ?thesis
    using r [OF assms(2)] r [OF assms(3)] by (metis list.inject nth_eq_iff_index_eq)
qed

lemma node_distance:
  assumes lab: "labelled fam ps t" and a: "a < length ps" and b: "b < length ps"
    and hd: "hd (ps ! a) = hd (ps ! b)"
  shows "\<exists>a' b' c. climb_above (tree_nodes t) (ndepth (tree_nodes t ! b)) a = Some a'
    \<and> climb_above (tree_nodes t) (ndepth (tree_nodes t ! a')) b = Some b'
    \<and> climb_together (tree_nodes t) a' b' = Some c
    \<and> Suc (ndepth (tree_nodes t ! c)) = lcp_len (ps ! a) (ps ! b)"
proof -
  let ?d = "\<lambda>n. ndepth (tree_nodes t ! n)"
  have dep: "n < length ps \<Longrightarrow> Suc (?d n) = length (ps ! n)" for n
    using labelled_depth [OF lab] .
  obtain a' where a': "climb_above (tree_nodes t) (?d b) a = Some a'" "a' < length ps"
    "ps ! a' = take (length (ps ! b)) (ps ! a)"
    using climb_above_labelled [OF lab a, of "?d b"] dep [OF b] by auto
  obtain b' where b': "climb_above (tree_nodes t) (?d a') b = Some b'" "b' < length ps"
    "ps ! b' = take (length (ps ! a')) (ps ! b)"
    using climb_above_labelled [OF lab b, of "?d a'"] dep [OF a'(2)] by auto
  have ne: "ps ! a \<noteq> []" "ps ! b \<noteq> []" using dep [OF a] dep [OF b] by auto
  have "length (ps ! a') = length (ps ! b')" using a'(3) b'(3) by simp
  moreover have "hd (ps ! a') = hd (ps ! b')" using a'(3) b'(3) hd ne by (simp add: hd_take)
  ultimately obtain c where c: "climb_together (tree_nodes t) a' b' = Some c" "c < length ps"
    "length (ps ! c) = lcp_len (ps ! a') (ps ! b')"
    using climb_together_labelled [OF lab a'(2) b'(2)] by auto
  have "lcp_len (ps ! a') (ps ! b') = lcp_len (ps ! a) (ps ! b)"
    using lcp_len_le [of "ps ! a" "ps ! b"] by (simp add: a'(3) b'(3) lcp_len_take lcp_len_take2)
  with a' b' c dep [OF c(2)] show ?thesis by metis
qed

theorem tree_distance_path:
  assumes rep: "tree_rep fam path ps t"
  shows "tree_distance t i j = Some (path_distance (path i) (path j))"
proof (cases "map_of (tree_devices t) i = None \<or> map_of (tree_devices t) j = None")
  case True
  then have "path i = None \<or> path j = None" using rep by (metis tree_rep_def option.map(1))
  with True show ?thesis
    by (auto simp: tree_distance_def path_distance_def split: option.splits)
next
  case False
  then obtain a b where ab: "map_of (tree_devices t) i = Some a" "map_of (tree_devices t) j = Some b"
    by auto
  then have p: "path i = Some (ps ! a)" "path j = Some (ps ! b)" "a < length ps" "b < length ps"
    using rep by (auto simp: tree_rep_def) (metis option.simps(9))+
  have lab: "labelled fam ps t" using rep by (simp add: tree_rep_def)
  show ?thesis
  proof (cases "hd (ps ! a) = hd (ps ! b)")
    case False
    then show ?thesis using ab p labelled_root [OF lab p(3,4)]
      by (simp add: tree_distance_def path_distance_def Let_def)
  next
    case True
    have "int (length (ps ! a)) = int (ndepth (tree_nodes t ! a)) + 1"
      "int (length (ps ! b)) = int (ndepth (tree_nodes t ! b)) + 1"
      using labelled_depth [OF lab p(3)] labelled_depth [OF lab p(4)] by linarith+
    with True ab p labelled_root [OF lab p(3,4)] node_distance [OF lab p(3,4) True]
    show ?thesis by (force simp: tree_distance_def path_distance_def Let_def)
  qed
qed

end
