(* ===== verification/PciBounds.thy ===== *)
theory PciBounds imports PciDistance begin

text \<open>
  \<open>cmd/rbln-device-plugin/pci_allocation_bounds.go\<close>: the knapsack over the PCI forest that
  bounds the cross-root pairs and the sum of the distances of any completion of a partial
  selection.  The per-node arrays \<open>forced\<close>, \<open>free\<close>, \<open>forcedSubtree\<close> and \<open>capacity\<close> hold
  counters that only grow from zero and are naturals here; costs are integers.

  \<open>pciSubtreeCosts\<close> follows child pointers, so it takes fuel; \<open>None\<close> is running out of it.
  One unit per node is enough, since a child has a larger index than its parent
  (\<open>pciSubtreeCosts_enough\<close> in theory \<open>SubtreeCosts\<close>).
\<close>

section \<open>Placement costs\<close>

record pciPlacementCost =
  cost_separateRoots :: int
  cost_totalDistance :: int
  cost_valid :: bool

definition zeroPlacementCost :: pciPlacementCost where
  "zeroPlacementCost = \<lparr>cost_separateRoots = 0, cost_totalDistance = 0, cost_valid = False\<rparr>"

definition placement_less :: "pciPlacementCost \<Rightarrow> pciPlacementCost \<Rightarrow> bool" where
  "placement_less a b \<longleftrightarrow> cost_valid a \<and>
     (\<not> cost_valid b \<or> cost_separateRoots a < cost_separateRoots b
      \<or> (cost_separateRoots a = cost_separateRoots b
          \<and> cost_totalDistance a < cost_totalDistance b))"

text \<open>\<open>int(^uint(0)>>1)\<close> is the largest 64-bit integer.\<close>

definition max_int64 :: int where "max_int64 = 2 ^ 63 - 1"

definition impossiblePCICost :: int where "impossiblePCICost = max_int64 div 4"

section \<open>pciSubtreeCosts\<close>

text \<open>The loops over \<open>before\<close> (here \<open>earlier\<close>) and \<open>count\<close> for one child.\<close>

definition merge_child ::
    "nat \<Rightarrow> nat \<Rightarrow> nat \<Rightarrow> nat \<Rightarrow> int list \<Rightarrow> int list \<Rightarrow> int list" where
  "merge_child rootCount limit usedCapacity childForced costs childCosts =
     fold (\<lambda>earlier nxt.
        if costs ! earlier = impossiblePCICost then nxt
        else fold (\<lambda>count nxt.
            if childCosts ! count = impossiblePCICost then nxt
            else (let cost = costs ! earlier + childCosts ! count
                             + int count * (int rootCount - int count)
                  in nxt[earlier + count := min (nxt ! (earlier + count)) cost]))
          [childForced ..< min (length childCosts) (Suc limit - earlier)] nxt)
       [0 ..< Suc usedCapacity] (replicate (Suc limit) impossiblePCICost)"

primrec pciSubtreeCosts ::
    "nat \<Rightarrow> pciTreeNode list \<Rightarrow> nat \<Rightarrow> nat \<Rightarrow> nat list \<Rightarrow> nat list \<Rightarrow> nat list \<Rightarrow> nat list \<Rightarrow>
     int list option" where
  "pciSubtreeCosts 0 nodes node rootCount forced free forcedSubtree capacity = None"
| "pciSubtreeCosts (Suc fuel) nodes node rootCount forced free forcedSubtree capacity =
     (let i = nindex (nodes ! node);
          limit = min (capacity ! i) rootCount;
          costs = map (\<lambda>count. if forced ! i \<le> count \<and> count \<le> forced ! i + free ! i
                               then 0 else impossiblePCICost) [0 ..< Suc limit];
          usedCapacity = min (forced ! i + free ! i) rootCount
      in map_option fst (foldl (\<lambda>st child. Option.bind st (\<lambda>(costs, usedCapacity).
           (let c = nindex (nodes ! child) in
            if capacity ! c = 0 then Some (costs, usedCapacity)
            else Option.bind
              (pciSubtreeCosts fuel nodes child rootCount forced free forcedSubtree capacity)
              (\<lambda>childCosts. Some
                (merge_child rootCount limit usedCapacity (forcedSubtree ! c) costs childCosts,
                 min limit (usedCapacity + capacity ! c))))))
         (Some (costs, usedCapacity)) (nchildren (nodes ! node))))"

section \<open>pciLowerBound\<close>

text \<open>
  \<open>count_endpoints\<close> is the loop that fills \<open>forced\<close> (and \<open>free\<close>) from device identifiers.
\<close>

definition count_endpoints :: "pciTree \<Rightarrow> string list \<Rightarrow> nat list" where
  "count_endpoints tree ids =
     fold (\<lambda>i arr. case map_of (tree_devices tree) i of
             None \<Rightarrow> arr
           | Some n \<Rightarrow> (let k = nindex (tree_nodes tree ! n) in arr[k := arr ! k + 1]))
       ids (replicate (length (tree_nodes tree)) 0)"

text \<open>The loop from the last node to the first: \<open>(forcedSubtree, capacity)\<close>.\<close>

definition accumulate_node ::
    "pciTree \<Rightarrow> nat list \<Rightarrow> nat list \<Rightarrow> nat \<Rightarrow> nat list \<times> nat list \<Rightarrow> nat list \<times> nat list" where
  "accumulate_node tree forced free i acc =
     (case acc of (forcedSubtree, capacity) \<Rightarrow>
       (let capacity = capacity[i := capacity ! i + (forced ! i + free ! i)] in
        case nparent (tree_nodes tree ! i) of
          None \<Rightarrow> (forcedSubtree, capacity)
        | Some p \<Rightarrow>
            (let q = nindex (tree_nodes tree ! p) in
             (forcedSubtree[q := forcedSubtree ! q + forcedSubtree ! i],
              capacity[q := capacity ! q + capacity ! i]))))"

definition subtree_counts :: "pciTree \<Rightarrow> nat list \<Rightarrow> nat list \<Rightarrow> nat list \<times> nat list" where
  "subtree_counts tree forced free =
     fold (accumulate_node tree forced free) (rev [0 ..< length (tree_nodes tree)])
       (forced, replicate (length (tree_nodes tree)) 0)"

text \<open>The costs of one root for every count of endpoints below it.\<close>

definition root_costs ::
    "pciTree \<Rightarrow> nat \<Rightarrow> nat list \<Rightarrow> nat list \<Rightarrow> nat list \<Rightarrow> nat list \<Rightarrow> nat \<Rightarrow> nat \<Rightarrow> nat \<Rightarrow>
     int list option" where
  "root_costs tree knownCount forced free forcedSubtree capacity totalCapacity totalForced root =
     (let r = nindex (tree_nodes tree ! root);
          minimum = max (int (forcedSubtree ! r))
                        (int knownCount - (int totalCapacity - int (capacity ! r)));
          maximum = min (int (capacity ! r))
                        (int knownCount - (int totalForced - int (forcedSubtree ! r)))
      in those (map (\<lambda>count.
           if int count < minimum \<or> int count > maximum then Some impossiblePCICost
           else map_option (\<lambda>costs. costs ! count)
             (pciSubtreeCosts (length (tree_nodes tree)) (tree_nodes tree) root count
                forced free forcedSubtree capacity))
         [0 ..< Suc (min (capacity ! r) knownCount)]))"

definition merge_root ::
    "nat \<Rightarrow> pciPlacementCost list \<Rightarrow> int list \<Rightarrow> pciPlacementCost list" where
  "merge_root knownCount forest rootCosts =
     fold (\<lambda>earlier nxt.
        let previous = forest ! earlier in
        if \<not> cost_valid previous then nxt
        else fold (\<lambda>count nxt.
            let cost = rootCosts ! count in
            if earlier + count > knownCount \<or> cost = impossiblePCICost then nxt
            else (let candidate =
                    \<lparr>cost_separateRoots = cost_separateRoots previous + int earlier * int count,
                     cost_totalDistance = cost_totalDistance previous + cost,
                     cost_valid = True\<rparr>
                  in if placement_less candidate (nxt ! (earlier + count))
                     then nxt[earlier + count := candidate] else nxt))
          [0 ..< length rootCosts] nxt)
       [0 ..< length forest] (replicate (Suc knownCount) zeroPlacementCost)"

definition pciLowerBound ::
    "pciTree \<Rightarrow> string list \<Rightarrow> string list \<Rightarrow> nat \<Rightarrow> pciPlacementCost option" where
  "pciLowerBound tree chosen_ids candidate_ids knownCount =
     (let forced = count_endpoints tree chosen_ids;
          free = count_endpoints tree candidate_ids;
          (forcedSubtree, capacity) = subtree_counts tree forced free;
          idx = (\<lambda>root. nindex (tree_nodes tree ! root));
          totalCapacity = sum_list (map (\<lambda>root. capacity ! idx root) (tree_roots tree));
          totalForced = sum_list (map (\<lambda>root. forcedSubtree ! idx root) (tree_roots tree));
          forest = (replicate (Suc knownCount) zeroPlacementCost)
                     [0 := zeroPlacementCost\<lparr>cost_valid := True\<rparr>]
      in map_option (\<lambda>forest. forest ! knownCount)
           (foldl (\<lambda>st root. Option.bind st (\<lambda>forest.
              if capacity ! idx root = 0 then Some forest
              else Option.bind
                (root_costs tree knownCount forced free forcedSubtree capacity
                   totalCapacity totalForced root)
                (\<lambda>rootCosts. Some (merge_root knownCount forest rootCosts))))
            (Some forest) (tree_roots tree)))"

end
