(* ===== verification/Allocator.thy ===== *)
theory Allocator imports PciBounds begin

text \<open>
  \<open>cmd/rbln-device-plugin/topology_allocator.go\<close>, from \<open>allocationDevice\<close> to \<open>lowerBound\<close>: the
  topology allocator and its branch-and-bound search.  Scores are integers.  The search state
  \<open>allocationSearch\<close> is passed explicitly; its read-only pointer to the allocator is the argument
  \<open>a\<close>.  A nil \<open>best\<close> is \<open>None\<close>; appending an empty selection to it would leave it nil, but with
  nothing chosen and nothing remaining there is one call and the answer is empty either way.  The outer \<open>option\<close> of the operations is a panic or no return of
  the tree routines they call.
\<close>

section \<open>Data\<close>

record allocationDevice =
  ad_id :: string
  ad_sid :: nat
  ad_numa :: int
  ad_hasPCI :: bool

record topologyAllocator =
  al_devices :: "allocationDevice list"
  al_byID :: "nat go_map"
  al_pairs :: "pciDistance list list"
  al_tree :: pciTree
  al_sidCount :: nat
  al_numaCount :: nat

record allocationScore =
  unknownNUMA :: int
  numaNodes :: int
  sidGroups :: int
  unknownPCI :: int
  separateRoots :: int
  maxDistance :: int
  totalDistance :: int

definition zeroScore :: allocationScore where
  "zeroScore = \<lparr>unknownNUMA = 0, numaNodes = 0, sidGroups = 0, unknownPCI = 0,
     separateRoots = 0, maxDistance = 0, totalDistance = 0\<rparr>"

definition score_values :: "'a allocationScore_scheme \<Rightarrow> int list" where
  "score_values s = [unknownNUMA s, numaNodes s, sidGroups s, unknownPCI s, separateRoots s,
     maxDistance s, totalDistance s]"

definition score_less :: "allocationScore \<Rightarrow> allocationScore \<Rightarrow> bool" where
  "score_less s other \<longleftrightarrow> slices_compare (score_values s) (score_values other) < 0"

section \<open>newTopologyAllocator\<close>

definition knownSID :: "string \<Rightarrow> bool" where
  "knownSID sid =
     (let sid = go_to_lower (trim_space sid)
      in if sid = [] \<or> sid = ''n/a'' \<or> sid = ''unknown'' then False
         else trim_set (trim_prefix sid ''0x'') ''0'' \<noteq> [])"

definition sid_key :: "string \<Rightarrow> npuDevice \<Rightarrow> string" where
  "sid_key i d =
     (if ParentPFBusID d \<noteq> [] then ''pf:'' @ ParentPFBusID d
      else if \<not> knownSID (SID (Info d)) then ''device:'' @ i
      else ''sid:'' @ trim_space (SID (Info d)))"

definition numa_value :: "npuDevice \<Rightarrow> int option" where
  "numa_value d =
     (case atoi (trim_space (PCINumaNode (Info d))) of
        Some v \<Rightarrow> if v \<ge> 0 then Some v else None
      | None \<Rightarrow> None)"

text \<open>\<open>if _, exists := m[k]; !exists { m[k] = len(m) }\<close>\<close>

definition intern_key :: "'k \<Rightarrow> ('k \<times> nat) list \<Rightarrow> ('k \<times> nat) list" where
  "intern_key k m = (case map_of m k of None \<Rightarrow> AList.update k (length m) m | Some _ \<Rightarrow> m)"

record allocator_build =
  ab_devices :: "allocationDevice list"
  ab_byID :: "nat go_map"
  ab_sids :: "nat go_map"
  ab_numas :: "(int \<times> nat) list"

definition add_allocator_device ::
    "npuDevice go_map \<Rightarrow> pciTree \<Rightarrow> string \<Rightarrow> allocator_build \<Rightarrow> allocator_build" where
  "add_allocator_device devices tree i b =
     (let d = device_at devices i;
          sidKey = sid_key i d;
          sids = intern_key sidKey (ab_sids b);
          (numas, numaIndex) =
            (case numa_value d of
               None \<Rightarrow> (ab_numas b, -1)
             | Some numa \<Rightarrow> (let numas = intern_key numa (ab_numas b)
                             in (numas, int (the (map_of numas numa)))))
      in \<lparr>ab_devices = ab_devices b @ [\<lparr>ad_id = i, ad_sid = the (map_of sids sidKey),
              ad_numa = numaIndex, ad_hasPCI = (map_of (tree_devices tree) i \<noteq> None)\<rparr>],
          ab_byID = AList.update i (length (ab_devices b)) (ab_byID b),
          ab_sids = sids, ab_numas = numas\<rparr>)"

definition newTopologyAllocator ::
    "filesystem \<Rightarrow> npuDevice go_map \<Rightarrow> topologyAllocator option" where
  "newTopologyAllocator fs devices =
     (let tree = newPCITree fs devices;
          b = fold (add_allocator_device devices tree) (sortedDeviceIDs devices)
                \<lparr>ab_devices = [], ab_byID = [], ab_sids = [], ab_numas = []\<rparr>
      in map_option (\<lambda>pairs. \<lparr>al_devices = ab_devices b, al_byID = ab_byID b, al_pairs = pairs,
            al_tree = tree, al_sidCount = length (ab_sids b), al_numaCount = length (ab_numas b)\<rparr>)
          (those (map (\<lambda>src. those (map (\<lambda>dst. tree_distance tree (ad_id src) (ad_id dst))
            (ab_devices b))) (ab_devices b))))"

section \<open>The search state and add\<close>

record allocationSearch =
  candidates :: "nat list"
  chosen :: "nat list"
  best :: "nat list option"
  sidCounts :: "int list"
  numaCounts :: "int list"
  score :: allocationScore
  bestScore :: allocationScore
  suffixSID :: "int list list"
  suffixKnownNUMA :: "int list"
  suffixKnownPCI :: "int list"
  minDistance :: int
  minSeparateRoots :: int

definition score_pair :: "pciDistance \<Rightarrow> allocationScore \<Rightarrow> allocationScore" where
  "score_pair pair sc =
     (let sc = (if pair_separateRoots pair then sc\<lparr>separateRoots := separateRoots sc + 1\<rparr> else sc)
      in if pair_known pair
         then sc\<lparr>maxDistance := max (maxDistance sc) (pair_hops pair),
                 totalDistance := totalDistance sc + pair_hops pair\<rparr>
         else sc)"

definition search_add ::
    "topologyAllocator \<Rightarrow> nat \<Rightarrow> allocationSearch \<Rightarrow> allocationSearch" where
  "search_add a index s =
     (let device = al_devices a ! index;
          sc = score s;
          sc = (if sidCounts s ! ad_sid device = 0 then sc\<lparr>sidGroups := sidGroups sc + 1\<rparr> else sc);
          sids = (sidCounts s)[ad_sid device := sidCounts s ! ad_sid device + 1];
          (sc, numas) =
            (if ad_numa device < 0 then (sc\<lparr>unknownNUMA := unknownNUMA sc + 1\<rparr>, numaCounts s)
             else (let k = nat (ad_numa device) in
               (if numaCounts s ! k = 0 then sc\<lparr>numaNodes := numaNodes sc + 1\<rparr> else sc,
                (numaCounts s)[k := numaCounts s ! k + 1])));
          sc = (if \<not> ad_hasPCI device then sc\<lparr>unknownPCI := unknownPCI sc + 1\<rparr> else sc);
          sc = fold (\<lambda>other sc. score_pair (al_pairs a ! index ! other) sc) (chosen s) sc
      in s\<lparr>sidCounts := sids, numaCounts := numas, score := sc, chosen := chosen s @ [index]\<rparr>)"

text \<open>The statements after the recursive call in \<open>search\<close>.\<close>

definition search_undo ::
    "topologyAllocator \<Rightarrow> nat \<Rightarrow> allocationScore \<Rightarrow> allocationSearch \<Rightarrow> allocationSearch" where
  "search_undo a index previous s =
     (let device = al_devices a ! index;
          sids = (sidCounts s)[ad_sid device := sidCounts s ! ad_sid device - 1];
          numas = (if ad_numa device \<ge> 0
                   then (numaCounts s)[nat (ad_numa device) :=
                          numaCounts s ! nat (ad_numa device) - 1]
                   else numaCounts s)
      in s\<lparr>chosen := butlast (chosen s), sidCounts := sids, numaCounts := numas,
           score := previous\<rparr>)"

section \<open>prepareBounds\<close>

definition suffix_step ::
    "topologyAllocator \<Rightarrow> nat \<Rightarrow> int list list \<times> int list \<times> int list \<Rightarrow>
     int list list \<times> int list \<times> int list" where
  "suffix_step a c acc =
     (case acc of (sids, numas, pcis) \<Rightarrow>
       (let device = al_devices a ! c; row = hd sids
        in (row[ad_sid device := row ! ad_sid device + 1] # sids,
            (if ad_numa device \<ge> 0 then hd numas + 1 else hd numas) # numas,
            (if ad_hasPCI device then hd pcis + 1 else hd pcis) # pcis)))"

definition pair_minima :: "topologyAllocator \<Rightarrow> int \<times> int" where
  "pair_minima a =
     fold (\<lambda>i acc. fold (\<lambda>j (minD, minS).
         let pair = al_pairs a ! i ! j
         in (if pair_known pair then min minD (pair_hops pair) else minD,
             if \<not> pair_separateRoots pair then 0 else minS))
       [0 ..< i] acc) [0 ..< length (al_devices a)] (max_int64, 1)"

definition prepareBounds :: "topologyAllocator \<Rightarrow> allocationSearch \<Rightarrow> allocationSearch" where
  "prepareBounds a s =
     (let (sids, numas, pcis) =
            foldr (suffix_step a) (candidates s) ([replicate (length (sidCounts s)) 0], [0], [0]);
          (minD, minS) = pair_minima a
      in s\<lparr>suffixSID := sids, suffixKnownNUMA := numas, suffixKnownPCI := pcis,
           minDistance := (if minD = max_int64 then 0 else minD), minSeparateRoots := minS\<rparr>)"

section \<open>lowerBound\<close>

text \<open>The loop over \<open>suffixSID[start]\<close>: \<open>(needNew, capacities)\<close>.\<close>

definition sid_capacities :: "allocationSearch \<Rightarrow> nat \<Rightarrow> nat \<Rightarrow> int \<times> int list" where
  "sid_capacities s start remaining =
     fold (\<lambda>(sid, capacity) (needNew, capacities).
         if sidCounts s ! sid > 0 then (needNew - capacity, capacities)
         else if capacity > 0 then (needNew, capacities @ [capacity])
         else (needNew, capacities))
       (enumerate 0 (suffixSID s ! start)) (int remaining, [])"

text \<open>The loop over the sorted capacities, from the largest: the number of new groups.\<close>

fun new_groups :: "int list \<Rightarrow> int \<Rightarrow> int" where
  "new_groups [] needNew = 0"
| "new_groups (c # cs) needNew = (if needNew > 0 then 1 + new_groups cs (needNew - c) else 0)"

text \<open>\<open>bound\<close> and \<open>cheap\<close> with the counts of known devices they use.\<close>

definition half_pairs :: "int \<Rightarrow> int" where
  "half_pairs k = k * (k - 1) div 2"

definition prefix_bound :: "allocationSearch \<Rightarrow> nat \<Rightarrow> nat \<Rightarrow> allocationScore" where
  "prefix_bound s start remaining =
     (let (needNew, capacities) = sid_capacities s start remaining;
          bound = score s;
          newPairs = int remaining * int (length (chosen s)) + half_pairs (int remaining)
      in bound\<lparr>sidGroups := sidGroups bound + new_groups (rev (sort capacities)) needNew,
               unknownNUMA := unknownNUMA bound
                 + max 0 (int remaining - suffixKnownNUMA s ! start),
               unknownPCI := unknownPCI bound
                 + max 0 (int remaining - suffixKnownPCI s ! start),
               separateRoots := separateRoots bound + newPairs * minSeparateRoots s\<rparr>)"

definition known_finally :: "allocationSearch \<Rightarrow> nat \<Rightarrow> nat \<Rightarrow> int" where
  "known_finally s start remaining =
     int (length (chosen s)) + int remaining - unknownPCI (prefix_bound s start remaining)"

definition cheap_bound :: "allocationSearch \<Rightarrow> nat \<Rightarrow> nat \<Rightarrow> allocationScore" where
  "cheap_bound s start remaining =
     (let bound = prefix_bound s start remaining;
          knownFinally = known_finally s start remaining;
          knownNow = int (length (chosen s)) - unknownPCI (score s);
          connectedNow = half_pairs knownNow - separateRoots (score s);
          connectedFinally = half_pairs knownFinally - separateRoots bound;
          cheap = bound\<lparr>totalDistance := totalDistance bound
                    + max 0 (connectedFinally - connectedNow) * minDistance s\<rparr>
      in if connectedFinally > 0
         then cheap\<lparr>maxDistance := max (maxDistance cheap) (minDistance s)\<rparr> else cheap)"

definition worst_distances :: "topologyAllocator \<Rightarrow> allocationSearch \<Rightarrow> nat \<Rightarrow> int list" where
  "worst_distances a s start =
     map (\<lambda>candidate. fold (\<lambda>other distance.
           max distance (pair_hops (al_pairs a ! candidate ! other))) (chosen s) 0)
       (drop start (candidates s))"

definition lowerBound ::
    "topologyAllocator \<Rightarrow> allocationSearch \<Rightarrow> nat \<Rightarrow> nat \<Rightarrow> allocationScore option" where
  "lowerBound a s start remaining =
     (let bound = prefix_bound s start remaining;
          knownFinally = known_finally s start remaining;
          cheap = cheap_bound s start remaining
      in if \<not> score_less cheap (bestScore s) then Some cheap
         else if slices_compare (take 4 (score_values bound)) (take 4 (score_values (bestScore s))) < 0
         then Some cheap
         else
          (let bound = bound\<lparr>maxDistance := max (maxDistance bound)
                 (sort (worst_distances a s start) ! (remaining - 1))\<rparr>
           in if \<not> score_less bound (bestScore s) then Some bound
              else Option.bind
                (pciLowerBound (al_tree a)
                   (map (\<lambda>i. ad_id (al_devices a ! i)) (chosen s))
                   (map (\<lambda>i. ad_id (al_devices a ! i)) (drop start (candidates s)))
                   (nat knownFinally))
                (\<lambda>pci.
                  (let bound = bound\<lparr>separateRoots := cost_separateRoots pci,
                                     totalDistance := cost_totalDistance pci\<rparr>
                   in Some (if half_pairs knownFinally > separateRoots bound
                            then bound\<lparr>maxDistance := max (maxDistance bound) (minDistance s)\<rparr>
                            else bound)))))"

section \<open>search\<close>

primrec search ::
    "topologyAllocator \<Rightarrow> nat \<Rightarrow> nat \<Rightarrow> allocationSearch \<Rightarrow> allocationSearch option" where
  "search a 0 start s =
     Some (if best s = None \<or> score_less (score s) (bestScore s)
           then s\<lparr>best := Some (chosen s), bestScore := score s\<rparr> else s)"
| "search a (Suc remaining) start s =
     (if length (candidates s) - start < Suc remaining then Some s
      else Option.bind
        (if best s \<noteq> None
         then map_option (\<lambda>bound. \<not> score_less bound (bestScore s)) (lowerBound a s start (Suc remaining))
         else Some False)
        (\<lambda>prune. if prune then Some s
          else foldl (\<lambda>st i. Option.bind st (\<lambda>s.
                 (let index = candidates s ! i; previous = score s in
                  map_option (search_undo a index previous)
                    (search a remaining (Suc i) (search_add a index s)))))
               (Some s) [start ..< Suc (length (candidates s)) - Suc remaining]))"

section \<open>SelectDevices\<close>

fun normalize_loop :: "string list \<Rightarrow> string list \<Rightarrow> string list" where
  "normalize_loop [] selected = selected"
| "normalize_loop (i # ids) selected =
     (if i \<in> set selected then normalize_loop ids selected
      else normalize_loop ids (selected @ [i]))"

text \<open>\<open>excluded\<close> holds the same identifiers as \<open>selected\<close> at every point of the loop.\<close>

definition normalizeMustInclude :: "string list \<Rightarrow> string list \<times> string set" where
  "normalizeMustInclude ids = (let selected = normalize_loop ids [] in (selected, set selected))"

definition initial_search :: "topologyAllocator \<Rightarrow> string list \<Rightarrow> allocationSearch" where
  "initial_search a selected =
     (let s = \<lparr>candidates = [], chosen = [], best = None,
               sidCounts = replicate (al_sidCount a) 0, numaCounts = replicate (al_numaCount a) 0,
               score = zeroScore, bestScore = zeroScore, suffixSID = [], suffixKnownNUMA = [],
               suffixKnownPCI = [], minDistance = 0, minSeparateRoots = 0\<rparr>
      in fold (\<lambda>i s. search_add a (case map_of (al_byID a) i of None \<Rightarrow> 0 | Some k \<Rightarrow> k) s)
           selected s)"

definition candidate_indices :: "topologyAllocator \<Rightarrow> string set \<Rightarrow> nat list" where
  "candidate_indices a excluded =
     filter (\<lambda>i. ad_id (al_devices a ! i) \<notin> excluded) [0 ..< length (al_devices a)]"

definition SelectDevices :: "topologyAllocator \<Rightarrow> string list \<Rightarrow> int \<Rightarrow> string list option" where
  "SelectDevices a mustIncludeDeviceIDs allocationSize =
     (let (selected, excluded) = normalizeMustInclude mustIncludeDeviceIDs;
          remaining = allocationSize - int (length selected)
      in if remaining \<le> 0 then Some selected
         else (let s = initial_search a selected;
                   s = s\<lparr>candidates := candidate_indices a excluded\<rparr>;
                   s = prepareBounds a s
               in map_option (\<lambda>s. map (\<lambda>i. ad_id (al_devices a ! i))
                      (case best s of None \<Rightarrow> [] | Some b \<Rightarrow> b))
                    (search a (nat remaining) 0 s)))"

end
