(* ===== verification/BranchBound.thy ===== *)
theory BranchBound imports Prelude begin

text \<open>
  Combinations in lexicographic order, the first minimum of a ranking over them, and the
  branch-and-bound skeleton of \<open>allocationSearch.search\<close> with its contract: a test that prunes
  only where no completion improves the best rank.  Inside the contract the skeleton computes the
  first minimum over all completions.
\<close>

section \<open>Combinations\<close>

fun combs :: "nat \<Rightarrow> 'a list \<Rightarrow> 'a list list" where
  "combs 0 xs = [[]]"
| "combs (Suc r) [] = []"
| "combs (Suc r) (x # xs) = map ((#) x) (combs r xs) @ combs (Suc r) xs"

lemma set_combs: "set (combs r xs) = {c. subseq c xs \<and> length c = r}"
proof (induction r xs rule: combs.induct)
  case (3 r x xs)
  have "subseq c (x # xs) \<and> length c = Suc r \<longleftrightarrow>
      (\<exists>c'. c = x # c' \<and> subseq c' xs \<and> length c' = r) \<or> subseq c xs \<and> length c = Suc r" for c
    by (cases c) (auto elim: list_emb.cases dest: subseq_Cons')
  with 3 show ?case by auto
qed auto

lemma combs_short: "length xs < r \<Longrightarrow> combs r xs = []"
  by (induction r xs rule: combs.induct) auto

lemma combs_nonempty: "r \<le> length xs \<Longrightarrow> combs r xs \<noteq> []"
  by (induction r xs rule: combs.induct) (auto simp: not_less_eq_eq)

lemma combs_Suc_concat:
  "combs (Suc r) xs =
     concat (map (\<lambda>i. map ((#) (xs ! i)) (combs r (drop (Suc i) xs))) [0 ..< length xs - r])"
proof (induction xs)
  case (Cons x xs)
  show ?case
  proof (cases "r \<le> length xs")
    case True
    then have "[0 ..< length (x # xs) - r] = 0 # map Suc [0 ..< length xs - r]"
      by (simp add: Suc_diff_le upt_conv_Cons map_Suc_upt del: upt_Suc)
    then show ?thesis by (simp add: Cons.IH comp_def)
  qed (simp add: combs_short)
qed simp

lemma combs_sorted: "c \<in> set (combs r xs) \<Longrightarrow> sorted xs \<Longrightarrow> sorted c"
  by (auto simp: set_combs subseq_conv_nths intro: sorted_nths)

lemma combs_distinct: "c \<in> set (combs r xs) \<Longrightarrow> distinct xs \<Longrightarrow> distinct c"
  by (auto simp: set_combs subseq_conv_nths intro: distinct_nthsI)

text \<open>On a strictly increasing list the enumeration order is the lexicographic order.\<close>

lemma combs_lex_ordered:
  fixes xs :: "'a::linorder list"
  assumes "sorted_wrt (<) xs"
  shows "sorted_wrt (<) (combs r xs)"
  using assms
proof (induction r xs rule: combs.induct)
  case (3 r x xs)
  have "x # c < d" if "d \<in> set (combs (Suc r) xs)" for c d
  proof -
    have "subseq d xs" "length d = Suc r" using that by (auto simp: set_combs)
    then obtain y d' where "d = y # d'" "y \<in> set xs"
      by (cases d) (auto dest: list_emb_set)
    with 3(3) show ?thesis by simp
  qed
  with 3 show ?case by (auto simp: sorted_wrt_append sorted_wrt_map)
qed auto

section \<open>First minimum\<close>

definition improve ::
    "('a \<Rightarrow> 's::linorder) \<Rightarrow> 'a \<Rightarrow> ('a \<times> 's) option \<Rightarrow> ('a \<times> 's) option" where
  "improve rank c b =
     (case b of
        None \<Rightarrow> Some (c, rank c)
      | Some (c', v) \<Rightarrow> if rank c < v then Some (c, rank c) else b)"

definition first_min :: "('a \<Rightarrow> 's::linorder) \<Rightarrow> 'a list \<Rightarrow> ('a \<times> 's) option" where
  "first_min rank cs = fold (improve rank) cs None"

lemma improve_Some: "improve rank d (Some (b, rank b)) =
    (if rank d < rank b then Some (d, rank d) else Some (b, rank b))"
  by (simp add: improve_def)

lemma fold_improve_unchanged:
  "(\<And>c. c \<in> set cs \<Longrightarrow> v \<le> rank c) \<Longrightarrow> fold (improve rank) cs (Some (b, v)) = Some (b, v)"
  by (induction cs) (auto simp: improve_def leD)

lemma fold_improve_Some:
  "fold (improve rank) cs (Some (b, rank b)) = Some (c, v) \<Longrightarrow>
     v = rank c \<and> (\<forall>d\<in>set (b # cs). v \<le> rank d) \<and>
     (\<exists>us ws. b # cs = us @ c # ws \<and> (\<forall>d\<in>set us. v < rank d))"
proof (induction cs arbitrary: b)
  case Nil
  then show ?case by (auto intro: exI [of _ "[]"])
next
  case (Cons d cs)
  show ?case
  proof (cases "rank d < rank b")
    case True
    with Cons.prems have "fold (improve rank) cs (Some (d, rank d)) = Some (c, v)"
      by (simp add: improve_Some)
    from Cons.IH [OF this] obtain us ws where "v = rank c" "\<forall>e\<in>set (d # cs). v \<le> rank e"
      "d # cs = us @ c # ws" "\<forall>e\<in>set us. v < rank e" by blast
    moreover have "v < rank b"
      using True \<open>\<forall>e\<in>set (d # cs). v \<le> rank e\<close> by (meson list.set_intros(1) le_less_trans)
    moreover have "b # d # cs = (b # us) @ c # ws" using \<open>d # cs = us @ c # ws\<close> by simp
    ultimately show ?thesis by (metis less_imp_le set_ConsD)
  next
    case False
    with Cons.prems have "fold (improve rank) cs (Some (b, rank b)) = Some (c, v)"
      by (simp add: improve_Some)
    from Cons.IH [OF this] obtain us ws where *: "v = rank c" "\<forall>e\<in>set (b # cs). v \<le> rank e"
      "b # cs = us @ c # ws" "\<forall>e\<in>set us. v < rank e" by blast
    have d: "rank b \<le> rank d" using False by simp
    moreover have "v \<le> rank b" using *(2) by simp
    ultimately have all: "\<forall>e\<in>set (b # d # cs). v \<le> rank e"
      using *(2) order_trans by auto
    show ?thesis
    proof (cases us)
      case Nil
      with * have "b # d # cs = [] @ c # d # cs" by simp
      then show ?thesis using *(1) all by (metis empty_iff empty_set)
    next
      case (Cons u us')
      with * have "b # d # cs = (b # d # us') @ c # ws" by simp
      moreover have "\<forall>e\<in>set (b # d # us'). v < rank e" using *(3,4) d Cons by fastforce
      ultimately show ?thesis using *(1) all by blast
    qed
  qed
qed

lemma first_min_nonempty: "cs \<noteq> [] \<Longrightarrow> first_min rank cs \<noteq> None"
proof -
  have "fold (improve rank) ds (Some b) \<noteq> None" for ds b
    by (induction ds arbitrary: b) (auto simp: improve_def split: prod.splits)
  then show "cs \<noteq> [] \<Longrightarrow> first_min rank cs \<noteq> None"
    by (cases cs) (auto simp: first_min_def improve_def)
qed

lemma first_min_Some:
  assumes "first_min rank cs = Some (c, v)"
  shows "v = rank c \<and> (\<forall>d\<in>set cs. v \<le> rank d) \<and>
    (\<exists>us ws. cs = us @ c # ws \<and> (\<forall>d\<in>set us. v < rank d))"
proof (cases cs)
  case Nil
  with assms show ?thesis by (simp add: first_min_def)
next
  case (Cons b bs)
  with assms have "fold (improve rank) bs (Some (b, rank b)) = Some (c, v)"
    by (simp add: first_min_def improve_def)
  from fold_improve_Some [OF this] Cons show ?thesis by blast
qed

section \<open>Branch and bound\<close>

primrec bounded_search ::
    "('a list \<Rightarrow> 's::linorder) \<Rightarrow> ('a list \<Rightarrow> 'a list \<Rightarrow> nat \<Rightarrow> 's \<Rightarrow> bool) \<Rightarrow> nat \<Rightarrow>
     'a list \<Rightarrow> 'a list \<Rightarrow> ('a list \<times> 's) option \<Rightarrow> ('a list \<times> 's) option" where
  "bounded_search rank prune 0 taken rest b = improve rank taken b"
| "bounded_search rank prune (Suc r) taken rest b =
     (if length rest < Suc r then b
      else if (case b of None \<Rightarrow> False | Some (_, v) \<Rightarrow> prune taken rest (Suc r) v) then b
      else fold (\<lambda>i b. bounded_search rank prune r (taken @ [rest ! i]) (drop (Suc i) rest) b)
             [0 ..< length rest - r] b)"

locale admissible_pruning =
  fixes rank :: "'a list \<Rightarrow> 's::linorder"
    and prune :: "'a list \<Rightarrow> 'a list \<Rightarrow> nat \<Rightarrow> 's \<Rightarrow> bool"
    and ok :: "'a list \<Rightarrow> 'a list \<Rightarrow> bool"
  assumes ok_step: "ok taken rest \<Longrightarrow> i < length rest \<Longrightarrow> ok (taken @ [rest ! i]) (drop (Suc i) rest)"
    and prune_sound: "ok taken rest \<Longrightarrow> prune taken rest r v \<Longrightarrow> 0 < r \<Longrightarrow>
      c \<in> set (combs r rest) \<Longrightarrow> v \<le> rank (taken @ c)"
begin

theorem bounded_search_exhaustive:
  assumes "ok taken rest"
  shows "bounded_search rank prune r taken rest b = fold (\<lambda>c. improve rank (taken @ c)) (combs r rest) b"
  using assms
proof (induction r arbitrary: taken rest b)
  case 0
  then show ?case by simp
next
  case (Suc r)
  consider (short) "length rest < Suc r"
    | (pruned) c v where "Suc r \<le> length rest" "b = Some (c, v)" "prune taken rest (Suc r) v"
    | (branch) "Suc r \<le> length rest"
      "\<not> (case b of None \<Rightarrow> False | Some (_, v) \<Rightarrow> prune taken rest (Suc r) v)"
    by (cases "length rest < Suc r"; cases b) (auto simp: not_less)
  then show ?case
  proof cases
    case short
    then show ?thesis by (simp add: combs_short)
  next
    case pruned
    have "fold (improve rank) (map ((@) taken) (combs (Suc r) rest)) (Some (c, v)) = Some (c, v)"
      using prune_sound [OF Suc.prems pruned(3)] by (intro fold_improve_unchanged) auto
    then show ?thesis using pruned by (simp add: fold_map comp_def)
  next
    case branch
    have "fold (\<lambda>i b. bounded_search rank prune r (taken @ [rest ! i]) (drop (Suc i) rest) b)
        is b = fold (\<lambda>c. improve rank (taken @ c))
          (concat (map (\<lambda>i. map ((#) (rest ! i)) (combs r (drop (Suc i) rest))) is)) b"
      if "set is \<subseteq> {..<length rest}" for "is" b
      using that Suc.IH [OF ok_step [OF Suc.prems]]
      by (induction "is" arbitrary: b) (auto simp: fold_map comp_def)
    from this [of "[0 ..< length rest - r]" b] branch show ?thesis
      by (simp add: combs_Suc_concat del: combs.simps) (simp add: atLeast0LessThan)
  qed
qed

corollary bounded_search_first_min:
  assumes "ok taken rest"
  shows "bounded_search rank prune r taken rest None = first_min rank (map ((@) taken) (combs r rest))"
  using bounded_search_exhaustive [OF assms] by (simp add: first_min_def fold_map comp_def)

end

end
