(* ===== verification/Scores.thy ===== *)
theory Scores imports Allocator BranchBound begin

text \<open>
  The score of a selection, defined on the selection as a whole, and the proof that the
  incremental bookkeeping of \<open>add\<close> and of the undo step in \<open>search\<close> keeps it.
\<close>

section \<open>Scores are linearly ordered\<close>

text \<open>\<open>allocationScore.less\<close> is the strict part of the lexicographic order on the fields.\<close>

instantiation allocationScore_ext :: (linorder) linorder
begin

definition less_eq_allocationScore_ext ::
    "'a allocationScore_scheme \<Rightarrow> 'a allocationScore_scheme \<Rightarrow> bool" where
  "less_eq_allocationScore_ext s t \<longleftrightarrow> score_values s < score_values t
     \<or> (score_values s = score_values t \<and> allocationScore.more s \<le> allocationScore.more t)"

definition less_allocationScore_ext ::
    "'a allocationScore_scheme \<Rightarrow> 'a allocationScore_scheme \<Rightarrow> bool" where
  "less_allocationScore_ext s t \<longleftrightarrow> s \<le> t \<and> \<not> t \<le> s"

instance
proof
  fix s t u :: "'a allocationScore_scheme"
  show "s < t \<longleftrightarrow> s \<le> t \<and> \<not> t \<le> s" by (rule less_allocationScore_ext_def)
  show "s \<le> s" by (simp add: less_eq_allocationScore_ext_def)
  show "s \<le> t \<Longrightarrow> t \<le> u \<Longrightarrow> s \<le> u"
    by (auto simp: less_eq_allocationScore_ext_def intro: less_trans)
  show "s \<le> t \<or> t \<le> s" by (auto simp: less_eq_allocationScore_ext_def)
  show "s \<le> t \<Longrightarrow> t \<le> s \<Longrightarrow> s = t"
    by (cases s; cases t) (auto simp: less_eq_allocationScore_ext_def score_values_def)
qed

end

lemma score_less_iff: "score_less s t \<longleftrightarrow> s < t"
proof -
  have "s < t \<longleftrightarrow> score_values s < score_values t" for s t :: allocationScore
    by (auto simp: less_allocationScore_ext_def less_eq_allocationScore_ext_def)
  then show ?thesis by (simp add: score_less_def slices_compare_less)
qed

lemma score_le_iff: "s \<le> t \<longleftrightarrow> score_values s \<le> score_values t" for s t :: allocationScore
  by (cases s; cases t) (auto simp: less_eq_allocationScore_ext_def score_values_def)

section \<open>Pairs of a list\<close>

text \<open>\<open>pairs_of xs\<close> lists every pair of positions, the later element first.\<close>

fun pairs_of :: "'a list \<Rightarrow> ('a \<times> 'a) list" where
  "pairs_of [] = []"
| "pairs_of (x # xs) = map (\<lambda>y. (y, x)) xs @ pairs_of xs"

lemma mset_pairs_of_snoc:
  "mset (pairs_of (xs @ [x])) = mset (pairs_of xs) + mset (map (Pair x) xs)"
  by (induction xs) auto

lemma set_pairs_of_snoc: "set (pairs_of (xs @ [x])) = set (pairs_of xs) \<union> Pair x ` set xs"
  by (induction xs) auto

lemma set_pairs_of: "set (pairs_of xs) = {(xs ! j, xs ! i) | i j. i < j \<and> j < length xs}"
proof (induction xs)
  case (Cons x xs)
  have "{((x # xs) ! j, (x # xs) ! i) | i j. i < j \<and> j < length (x # xs)} =
      (\<lambda>y. (y, x)) ` set xs \<union> {(xs ! j, xs ! i) | i j. i < j \<and> j < length xs}" (is "?l = ?r")
  proof
    show "?l \<subseteq> ?r"
    proof
      fix p assume "p \<in> ?l"
      then obtain i j where "p = ((x # xs) ! j, (x # xs) ! i)" "i < j" "j < length (x # xs)" by blast
      then show "p \<in> ?r" by (cases i; cases j) auto
    qed
    show "?r \<subseteq> ?l"
    proof
      fix p assume "p \<in> ?r"
      then consider k where "k < length xs" "p = (xs ! k, x)"
        | i j where "i < j" "j < length xs" "p = (xs ! j, xs ! i)" by (auto simp: in_set_conv_nth)
      then show "p \<in> ?l"
      proof cases
        case 1
        then show ?thesis by (intro CollectI exI [of _ 0] exI [of _ "Suc k"]) simp
      next
        case 2
        then show ?thesis by (intro CollectI exI [of _ "Suc i"] exI [of _ "Suc j"]) simp
      qed
    qed
  qed
  with Cons show ?case by auto
qed simp

lemma pairs_ofE:
  assumes "(x, y) \<in> set (pairs_of xs)"
  obtains i j where "x = xs ! j" "y = xs ! i" "i < j" "j < length xs"
proof -
  from assms have "\<exists>i j. (x, y) = (xs ! j, xs ! i) \<and> i < j \<and> j < length xs"
    by (simp only: set_pairs_of mem_Collect_eq)
  then show thesis using that by (elim exE conjE) simp
qed

lemma pairs_ofI: "i < j \<Longrightarrow> j < length xs \<Longrightarrow> (xs ! j, xs ! i) \<in> set (pairs_of xs)"
  unfolding set_pairs_of by blast

definition pair_sum :: "('a \<Rightarrow> 'a \<Rightarrow> int) \<Rightarrow> 'a list \<Rightarrow> int" where
  "pair_sum f xs = (\<Sum>(x, y)\<leftarrow>pairs_of xs. f x y)"

lemma pair_sum_Nil [simp]: "pair_sum f [] = 0"
  by (simp add: pair_sum_def)

lemma pair_sum_Cons: "pair_sum f (x # xs) = (\<Sum>y\<leftarrow>xs. f y x) + pair_sum f xs"
  by (simp add: pair_sum_def comp_def)

lemma pair_sum_snoc: "pair_sum f (xs @ [x]) = pair_sum f xs + (\<Sum>y\<leftarrow>xs. f x y)"
  by (induction xs) (auto simp: pair_sum_Cons)

lemma pair_sum_append:
  "pair_sum f (xs @ ys) = pair_sum f xs + pair_sum f ys + (\<Sum>x\<leftarrow>xs. \<Sum>y\<leftarrow>ys. f y x)"
  by (induction xs) (auto simp: pair_sum_Cons)

lemma pair_sum_nonneg: "(\<And>x y. 0 \<le> f x y) \<Longrightarrow> 0 \<le> pair_sum f xs"
  by (auto simp: pair_sum_def intro!: sum_list_nonneg)

lemma pair_sum_mono:
  assumes "\<And>x y. (x, y) \<in> set (pairs_of xs) \<Longrightarrow> f x y \<le> g x y"
  shows "pair_sum f xs \<le> pair_sum g xs"
  unfolding pair_sum_def using assms by (intro sum_list_mono) auto

lemma pair_sum_cong:
  assumes "\<And>x y. (x, y) \<in> set (pairs_of xs) \<Longrightarrow> f x y = g x y"
  shows "pair_sum f xs = pair_sum g xs"
  unfolding pair_sum_def using assms by (intro arg_cong [where f = sum_list] map_cong) auto

lemma pair_sum_add: "pair_sum (\<lambda>x y. f x y + g x y) xs = pair_sum f xs + pair_sum g xs"
  by (simp add: pair_sum_def split_def sum_list_addf)

lemma pair_sum_cmult: "pair_sum (\<lambda>x y. c * f x y) xs = c * pair_sum f xs"
  by (simp add: pair_sum_def split_def sum_list_const_mult)

lemma pair_sum_one: "2 * pair_sum (\<lambda>_ _. 1) xs = int (length xs) * (int (length xs) - 1)"
  by (induction xs) (auto simp: pair_sum_Cons sum_list_const_int algebra_simps)

lemma pair_sum_double:
  assumes sym: "\<And>x y. f x y = f y x"
  shows "2 * pair_sum f xs + (\<Sum>x\<leftarrow>xs. f x x) = (\<Sum>x\<leftarrow>xs. \<Sum>y\<leftarrow>xs. f x y)"
proof (induction xs)
  case (Cons a xs)
  have "(\<Sum>x\<leftarrow>xs. f x a + (\<Sum>y\<leftarrow>xs. f x y)) = (\<Sum>x\<leftarrow>xs. f x a) + (\<Sum>x\<leftarrow>xs. \<Sum>y\<leftarrow>xs. f x y)"
    by (rule sum_list_addf)
  moreover have "(\<Sum>y\<leftarrow>xs. f a y) = (\<Sum>x\<leftarrow>xs. f x a)"
    by (simp only: sym [of a])
  ultimately show ?case using Cons by (simp add: pair_sum_Cons)
qed simp

lemma pair_sum_perm:
  assumes "mset xs = mset ys" "\<And>x y. f x y = f y x"
  shows "pair_sum f xs = pair_sum f ys"
proof -
  have perm: "(\<Sum>x\<leftarrow>xs. g x) = (\<Sum>x\<leftarrow>ys. g x)" for g :: "'a \<Rightarrow> int"
    using assms(1) by (metis mset_map sum_mset_sum_list)
  have "2 * pair_sum f xs = 2 * pair_sum f ys"
    using pair_sum_double [of f xs] pair_sum_double [of f ys] assms(2) by (simp add: perm)
  then show ?thesis by simp
qed

section \<open>The score of a selection\<close>

abbreviation dev_of :: "topologyAllocator \<Rightarrow> nat \<Rightarrow> allocationDevice" where
  "dev_of a i \<equiv> al_devices a ! i"

definition pair_sep :: "pciDistance \<Rightarrow> int" where
  "pair_sep p = (if pair_separateRoots p then 1 else 0)"

definition pair_dist :: "pciDistance \<Rightarrow> int" where
  "pair_dist p = (if pair_known p then pair_hops p else 0)"

definition sep_of :: "topologyAllocator \<Rightarrow> nat \<Rightarrow> nat \<Rightarrow> int" where
  "sep_of a i j = pair_sep (al_pairs a ! i ! j)"

definition dist_of :: "topologyAllocator \<Rightarrow> nat \<Rightarrow> nat \<Rightarrow> int" where
  "dist_of a i j = pair_dist (al_pairs a ! i ! j)"

definition pair_max :: "('a \<Rightarrow> 'a \<Rightarrow> int) \<Rightarrow> 'a list \<Rightarrow> int" where
  "pair_max f xs = Max (insert 0 ((\<lambda>(x, y). f x y) ` set (pairs_of xs)))"

definition placement_score :: "topologyAllocator \<Rightarrow> nat list \<Rightarrow> allocationScore" where
  "placement_score a F =
     \<lparr>unknownNUMA = int (length (filter (\<lambda>i. ad_numa (dev_of a i) < 0) F)),
      numaNodes = int (card ((\<lambda>i. ad_numa (dev_of a i)) ` {i \<in> set F. 0 \<le> ad_numa (dev_of a i)})),
      sidGroups = int (card ((\<lambda>i. ad_sid (dev_of a i)) ` set F)),
      unknownPCI = int (length (filter (\<lambda>i. \<not> ad_hasPCI (dev_of a i)) F)),
      separateRoots = pair_sum (sep_of a) F,
      maxDistance = pair_max (dist_of a) F,
      totalDistance = pair_sum (dist_of a) F\<rparr>"

lemma pair_max_Nil [simp]: "pair_max f [] = 0"
  by (simp add: pair_max_def)

lemma pair_max_nonneg: "0 \<le> pair_max f xs"
  by (simp add: pair_max_def)

lemma pair_max_ge: "(x, y) \<in> set (pairs_of xs) \<Longrightarrow> f x y \<le> pair_max f xs"
  unfolding pair_max_def by (rule Max_ge) force+

lemma pair_max_snoc: "pair_max f (xs @ [x]) = fold (\<lambda>y m. max m (f x y)) xs (pair_max f xs)"
proof -
  have fold_max: "fold (\<lambda>y m. max m (g y)) ys m = Max (insert m (g ` set ys))" for g :: "'a \<Rightarrow> int" and ys m
  proof (induction ys arbitrary: m)
    case (Cons y ys)
    show ?case
    proof (cases "ys = []")
      case False
      then have "Max (insert (max m (g y)) (g ` set ys)) = max (max m (g y)) (Max (g ` set ys))"
        by (intro Max_insert) auto
      moreover have "Max (insert m (insert (g y) (g ` set ys))) = max m (max (g y) (Max (g ` set ys)))"
        using False by (subst Max_insert) auto
      ultimately show ?thesis using Cons by (simp add: max.assoc)
    qed simp
  qed simp
  have "pair_max f (xs @ [x]) = Max (insert 0 ((\<lambda>(x, y). f x y) ` set (pairs_of xs)) \<union> f x ` set xs)"
    by (simp add: pair_max_def set_pairs_of_snoc image_Un image_image)
  also have "\<dots> = Max (insert (pair_max f xs) (f x ` set xs))"
  proof (cases "xs = []")
    case False
    then have "Max (insert (pair_max f xs) (f x ` set xs)) = max (pair_max f xs) (Max (f x ` set xs))"
      by (intro Max_insert) auto
    with False show ?thesis by (simp only: pair_max_def) (subst Max_Un, auto)
  qed (simp add: pair_max_def)
  finally show ?thesis by (simp add: fold_max)
qed

lemma pair_max_prefix: "pair_max f xs \<le> pair_max f (xs @ ys)"
proof -
  have "set (pairs_of xs) \<subseteq> set (pairs_of (xs @ ys))"
    by (induction xs) auto
  then show ?thesis unfolding pair_max_def by (intro Max_mono) auto
qed

lemma pair_max_perm:
  assumes "set xs = set ys" "distinct xs" "distinct ys" "\<And>x y. f x y = f y x"
  shows "pair_max f xs = pair_max f ys"
proof -
  have half: "(\<lambda>(x, y). f x y) ` set (pairs_of xs) \<subseteq> (\<lambda>(x, y). f x y) ` set (pairs_of ys)"
    if "set xs = set ys" "distinct xs" "distinct ys" for xs ys
  proof
    fix v assume "v \<in> (\<lambda>(x, y). f x y) ` set (pairs_of xs)"
    then obtain x y where "(x, y) \<in> set (pairs_of xs)" "v = f x y" by auto
    then obtain i j where v: "v = f (xs ! j) (xs ! i)" "i < j" "j < length xs"
      by (elim pairs_ofE) simp
    have "xs ! i \<in> set ys" "xs ! j \<in> set ys"
      using v(2,3) nth_mem [of i xs] nth_mem [of j xs] that(1) by simp_all
    then obtain k l where kl: "k < length ys" "ys ! k = xs ! i" "l < length ys" "ys ! l = xs ! j"
      by (auto simp: in_set_conv_nth)
    have "k \<noteq> l"
    proof
      assume "k = l"
      then have "xs ! i = xs ! j" using kl by simp
      then show False using that(2) v(2,3) nth_eq_iff_index_eq [of xs i j] by simp
    qed
    then consider "k < l" | "l < k" by linarith
    then have "(ys ! l, ys ! k) \<in> set (pairs_of ys) \<or> (ys ! k, ys ! l) \<in> set (pairs_of ys)"
      using kl(1,3) by cases (simp_all add: pairs_ofI)
    moreover have "v = f (ys ! l) (ys ! k)" "v = f (ys ! k) (ys ! l)"
      using v(1) kl(2,4) assms(4) by simp_all
    ultimately show "v \<in> (\<lambda>(x, y). f x y) ` set (pairs_of ys)"
      by (metis (mono_tags, lifting) case_prod_conv image_eqI)
  qed
  have "(\<lambda>(x, y). f x y) ` set (pairs_of xs) = (\<lambda>(x, y). f x y) ` set (pairs_of ys)"
    using half [OF assms(1-3)] half [OF assms(1) [symmetric] assms(3,2)] by (rule subset_antisym)
  then show ?thesis by (simp only: pair_max_def)
qed

section \<open>add keeps the score of the chosen devices\<close>

definition sid_counts :: "topologyAllocator \<Rightarrow> nat list \<Rightarrow> int list" where
  "sid_counts a F = map (\<lambda>k. int (length (filter (\<lambda>i. ad_sid (dev_of a i) = k) F))) [0 ..< al_sidCount a]"

definition numa_counts :: "topologyAllocator \<Rightarrow> nat list \<Rightarrow> int list" where
  "numa_counts a F = map (\<lambda>k. int (length (filter (\<lambda>i. ad_numa (dev_of a i) = int k) F)))
     [0 ..< al_numaCount a]"

definition placed :: "topologyAllocator \<Rightarrow> nat list \<Rightarrow> allocationSearch \<Rightarrow> bool" where
  "placed a F s \<longleftrightarrow> chosen s = F \<and> score s = placement_score a F
     \<and> sidCounts s = sid_counts a F \<and> numaCounts s = numa_counts a F"

definition indices_ok :: "topologyAllocator \<Rightarrow> bool" where
  "indices_ok a \<longleftrightarrow> (\<forall>d\<in>set (al_devices a). ad_sid d < al_sidCount a \<and> ad_numa d < int (al_numaCount a))"

lemma fold_score_pair:
  "fold (\<lambda>other sc. score_pair (p other) sc) os sc =
     sc\<lparr>separateRoots := separateRoots sc + (\<Sum>x\<leftarrow>os. pair_sep (p x)),
        maxDistance := fold (\<lambda>x m. if pair_known (p x) then max m (pair_hops (p x)) else m) os (maxDistance sc),
        totalDistance := totalDistance sc + (\<Sum>x\<leftarrow>os. pair_dist (p x))\<rparr>"
  by (induction os arbitrary: sc) (auto simp: score_pair_def pair_sep_def pair_dist_def Let_def)

lemma fold_known_max:
  "0 \<le> m \<Longrightarrow> fold (\<lambda>x m. if pair_known (p x) then max m (pair_hops (p x)) else m) os m =
     fold (\<lambda>x m. max m (pair_dist (p x))) os m"
  by (induction os arbitrary: m) (auto simp: pair_dist_def)

lemma nth_sid_counts:
  "k < al_sidCount a \<Longrightarrow> sid_counts a F ! k = int (length (filter (\<lambda>i. ad_sid (dev_of a i) = k) F))"
  by (simp add: sid_counts_def)

lemma nth_numa_counts:
  "k < al_numaCount a \<Longrightarrow> numa_counts a F ! k = int (length (filter (\<lambda>i. ad_numa (dev_of a i) = int k) F))"
  by (simp add: numa_counts_def)

lemma sid_counts_snoc:
  "ad_sid (dev_of a i) < al_sidCount a \<Longrightarrow> sid_counts a (F @ [i]) =
     (sid_counts a F)[ad_sid (dev_of a i) := sid_counts a F ! ad_sid (dev_of a i) + 1]"
  by (rule nth_equalityI) (auto simp: sid_counts_def nth_list_update)

lemma numa_counts_snoc:
  "0 \<le> ad_numa (dev_of a i) \<Longrightarrow> ad_numa (dev_of a i) < int (al_numaCount a) \<Longrightarrow>
     numa_counts a (F @ [i]) = (numa_counts a F)[nat (ad_numa (dev_of a i)) :=
       numa_counts a F ! nat (ad_numa (dev_of a i)) + 1]"
  by (rule nth_equalityI) (auto simp: numa_counts_def nth_list_update)

lemma numa_counts_snoc_unknown:
  "ad_numa (dev_of a i) < 0 \<Longrightarrow> numa_counts a (F @ [i]) = numa_counts a F"
  by (simp add: numa_counts_def)

lemma sid_counts_zero:
  "k < al_sidCount a \<Longrightarrow> sid_counts a F ! k = 0 \<longleftrightarrow> k \<notin> (\<lambda>i. ad_sid (dev_of a i)) ` set F"
  by (auto simp: nth_sid_counts filter_empty_conv)

lemma sid_counts_pos:
  "k < al_sidCount a \<Longrightarrow> sid_counts a F ! k > 0 \<longleftrightarrow> k \<in> (\<lambda>i. ad_sid (dev_of a i)) ` set F"
  using sid_counts_zero [of k a F] by (auto simp: nth_sid_counts)

lemma numa_counts_zero:
  "k < al_numaCount a \<Longrightarrow> numa_counts a F ! k = 0 \<longleftrightarrow>
     int k \<notin> (\<lambda>i. ad_numa (dev_of a i)) ` {i \<in> set F. 0 \<le> ad_numa (dev_of a i)}"
  by (force simp: nth_numa_counts filter_empty_conv)

lemma card_image_snoc:
  "int (card (f ` set (F @ [i]))) = int (card (f ` set F)) + (if f i \<in> f ` set F then 0 else 1)"
  by (simp add: card_insert_if)

lemma card_numa_snoc:
  assumes "0 \<le> g i"
  shows "int (card (g ` {j \<in> set (F @ [i]). (0::int) \<le> g j})) =
    int (card (g ` {j \<in> set F. 0 \<le> g j})) + (if g i \<in> g ` {j \<in> set F. 0 \<le> g j} then 0 else 1)"
proof -
  have "{j \<in> set (F @ [i]). 0 \<le> g j} = insert i {j \<in> set F. 0 \<le> g j}" using assms by auto
  then show ?thesis by (simp add: card_insert_if)
qed

lemma placement_score_snoc:
  fixes a F i
  defines "d \<equiv> dev_of a i" and "sc \<equiv> placement_score a F"
  shows "placement_score a (F @ [i]) =
    \<lparr>unknownNUMA = unknownNUMA sc + (if ad_numa d < 0 then 1 else 0),
     numaNodes = numaNodes sc + (if 0 \<le> ad_numa d \<and> ad_numa d \<notin>
       (\<lambda>i. ad_numa (dev_of a i)) ` {i \<in> set F. 0 \<le> ad_numa (dev_of a i)} then 1 else 0),
     sidGroups = sidGroups sc + (if ad_sid d \<in> (\<lambda>i. ad_sid (dev_of a i)) ` set F then 0 else 1),
     unknownPCI = unknownPCI sc + (if ad_hasPCI d then 0 else 1),
     separateRoots = separateRoots sc + (\<Sum>j\<leftarrow>F. sep_of a i j),
     maxDistance = fold (\<lambda>j m. max m (dist_of a i j)) F (maxDistance sc),
     totalDistance = totalDistance sc + (\<Sum>j\<leftarrow>F. dist_of a i j)\<rparr>"
proof -
  have "numaNodes (placement_score a (F @ [i])) = numaNodes sc + (if 0 \<le> ad_numa d \<and> ad_numa d \<notin>
       (\<lambda>i. ad_numa (dev_of a i)) ` {i \<in> set F. 0 \<le> ad_numa (dev_of a i)} then 1 else 0)"
  proof (cases "0 \<le> ad_numa d")
    case True
    then show ?thesis
      using card_numa_snoc [of "\<lambda>i. ad_numa (dev_of a i)" i F]
      by (simp add: placement_score_def sc_def d_def)
  next
    case False
    then have "{j \<in> set (F @ [i]). 0 \<le> ad_numa (dev_of a j)} = {j \<in> set F. 0 \<le> ad_numa (dev_of a j)}"
      by (auto simp: d_def)
    with False show ?thesis by (simp add: placement_score_def sc_def)
  qed
  then show ?thesis
    using card_image_snoc [of "\<lambda>i. ad_sid (dev_of a i)" F i]
    by (simp add: placement_score_def sc_def d_def pair_sum_snoc pair_max_snoc)
qed

lemma score_nonneg:
  "0 \<le> maxDistance (placement_score a F)"
  by (simp add: placement_score_def pair_max_nonneg)

lemma placed_search_add:
  assumes ok: "indices_ok a" and i: "i < length (al_devices a)" and s: "placed a F s"
  shows "placed a (F @ [i]) (search_add a i s)"
proof -
  let ?d = "dev_of a i"
  have d: "ad_sid ?d < al_sidCount a" "ad_numa ?d < int (al_numaCount a)"
    using ok i by (auto simp: indices_ok_def)
  have nat: "nat (ad_numa ?d) < al_numaCount a" "int (nat (ad_numa ?d)) = ad_numa ?d"
    if "0 \<le> ad_numa ?d" using that d(2) by linarith+
  show ?thesis
  proof (cases "0 \<le> ad_numa ?d")
    case True
    then show ?thesis
      using s sid_counts_snoc [of a i F, OF d(1)] numa_counts_snoc [OF True d(2), of F]
        sid_counts_zero [OF d(1), of F] numa_counts_zero [OF nat(1) [OF True], of F]
      by (simp add: placed_def search_add_def Let_def fold_score_pair fold_known_max score_nonneg
          placement_score_snoc nat sep_of_def dist_of_def)
  next
    case False
    then show ?thesis
      using s sid_counts_snoc [of a i F, OF d(1)] numa_counts_snoc_unknown [of a i F]
        sid_counts_zero [OF d(1), of F]
      by (simp add: placed_def search_add_def Let_def fold_score_pair fold_known_max score_nonneg
          placement_score_snoc sep_of_def dist_of_def)
  qed
qed

lemma list_update_undo: "xs[i := xs[i := xs ! i + 1] ! i - (1::int)] = xs"
  by (cases "i < length xs") (auto simp: list_update_beyond)

text \<open>Undoing the bookkeeping of one device after any number of best updates in between.\<close>

lemma search_undo_add:
  "search_undo a i (score s) ((search_add a i s)\<lparr>best := b, bestScore := v\<rparr>)
     = s\<lparr>best := b, bestScore := v\<rparr>"
  by (cases s) (simp add: search_undo_def search_add_def Let_def list_update_undo)

end
