(* ===== verification/SearchRefine.thy ===== *)
theory SearchRefine imports Scores begin

text \<open>
  \<open>allocationSearch.search\<close> is the branch-and-bound skeleton of theory \<open>BranchBound\<close>, with
  \<open>placement_score\<close> as the rank and \<open>lowerBound\<close> as the pruning test: the mutable counters, the
  undo step and the suffix arrays disappear.
\<close>

section \<open>What prepareBounds computes\<close>

definition known_numa :: "topologyAllocator \<Rightarrow> nat list \<Rightarrow> int" where
  "known_numa a F = int (length (filter (\<lambda>i. 0 \<le> ad_numa (dev_of a i)) F))"

definition known_pci :: "topologyAllocator \<Rightarrow> nat list \<Rightarrow> int" where
  "known_pci a F = int (length (filter (\<lambda>i. ad_hasPCI (dev_of a i)) F))"

definition prepared :: "topologyAllocator \<Rightarrow> allocationSearch \<Rightarrow> bool" where
  "prepared a s \<longleftrightarrow>
     (\<forall>k\<le>length (candidates s). suffixSID s ! k = sid_counts a (drop k (candidates s))
        \<and> suffixKnownNUMA s ! k = known_numa a (drop k (candidates s))
        \<and> suffixKnownPCI s ! k = known_pci a (drop k (candidates s)))
     \<and> minDistance s = (if fst (pair_minima a) = max_int64 then 0 else fst (pair_minima a))
     \<and> minSeparateRoots s = snd (pair_minima a)"

lemma sid_counts_Cons:
  "ad_sid (dev_of a i) < al_sidCount a \<Longrightarrow> sid_counts a (i # F) =
     (sid_counts a F)[ad_sid (dev_of a i) := sid_counts a F ! ad_sid (dev_of a i) + 1]"
  by (rule nth_equalityI) (auto simp: sid_counts_def nth_list_update)

lemma sid_counts_Nil: "sid_counts a [] = replicate (al_sidCount a) 0"
  by (simp add: sid_counts_def map_replicate_trivial map_replicate_const)

definition suffix_map :: "(nat list \<Rightarrow> 'b) \<Rightarrow> nat list \<Rightarrow> 'b list" where
  "suffix_map f cs = map (\<lambda>k. f (drop k cs)) [0 ..< Suc (length cs)]"

lemma suffix_map_simps:
  "suffix_map f [] = [f []]" "suffix_map f (c # cs) = f (c # cs) # suffix_map f cs"
  "hd (suffix_map f cs) = f cs"
proof -
  have "[0 ..< Suc (length (c # cs))] = 0 # map Suc [0 ..< Suc (length cs)]"
    by (simp add: upt_conv_Cons map_Suc_upt del: upt_Suc)
  then show "suffix_map f (c # cs) = f (c # cs) # suffix_map f cs"
    by (simp add: suffix_map_def comp_def del: upt_Suc)
  show "hd (suffix_map f cs) = f cs"
    by (simp add: suffix_map_def upt_conv_Cons del: upt_Suc)
qed (simp add: suffix_map_def)

lemma nth_suffix_map: "k \<le> length cs \<Longrightarrow> suffix_map f cs ! k = f (drop k cs)"
  by (simp add: suffix_map_def del: upt_Suc)

lemma suffix_arrays:
  assumes "indices_ok a" "set cs \<subseteq> {..<length (al_devices a)}"
  shows "foldr (suffix_step a) cs ([replicate (al_sidCount a) 0], [0], [0]) =
    (suffix_map (sid_counts a) cs, suffix_map (known_numa a) cs, suffix_map (known_pci a) cs)"
  using assms(2)
proof (induction cs)
  case Nil
  then show ?case by (simp add: suffix_map_simps sid_counts_Nil known_numa_def known_pci_def)
next
  case (Cons c cs)
  have "ad_sid (dev_of a c) < al_sidCount a" using assms(1) Cons.prems by (simp add: indices_ok_def)
  with Cons show ?case
    by (simp add: suffix_step_def Let_def suffix_map_simps sid_counts_Cons known_numa_def
        known_pci_def)
qed

lemma prepareBounds_prepared:
  assumes "indices_ok a" "set (candidates s) \<subseteq> {..<length (al_devices a)}"
    and "length (sidCounts s) = al_sidCount a"
  shows "prepared a (prepareBounds a s)"
  using suffix_arrays [OF assms(1,2)] assms(3)
  by (auto simp: prepareBounds_def prepared_def split_def Let_def nth_suffix_map)

lemma prepareBounds_frame:
  "candidates (prepareBounds a s) = candidates s" "chosen (prepareBounds a s) = chosen s"
  "best (prepareBounds a s) = best s" "sidCounts (prepareBounds a s) = sidCounts s"
  "numaCounts (prepareBounds a s) = numaCounts s" "score (prepareBounds a s) = score s"
  "bestScore (prepareBounds a s) = bestScore s"
  by (simp_all add: prepareBounds_def split_def Let_def)

section \<open>lowerBound depends on the selection and the remaining candidates only\<close>

definition prune_state ::
    "topologyAllocator \<Rightarrow> nat list \<Rightarrow> nat list \<Rightarrow> allocationScore \<Rightarrow> allocationSearch" where
  "prune_state a taken rest v =
     prepareBounds a \<lparr>candidates = rest, chosen = taken, best = None,
       sidCounts = sid_counts a taken, numaCounts = numa_counts a taken,
       score = placement_score a taken, bestScore = v, suffixSID = [], suffixKnownNUMA = [],
       suffixKnownPCI = [], minDistance = 0, minSeparateRoots = 0\<rparr>"

definition prunes ::
    "topologyAllocator \<Rightarrow> nat list \<Rightarrow> nat list \<Rightarrow> nat \<Rightarrow> allocationScore \<Rightarrow> bool" where
  "prunes a taken rest r v \<longleftrightarrow>
     (case lowerBound a (prune_state a taken rest v) 0 r of
        None \<Rightarrow> False | Some b \<Rightarrow> \<not> score_less b v)"

definition selection_ok :: "topologyAllocator \<Rightarrow> nat list \<Rightarrow> nat list \<Rightarrow> bool" where
  "selection_ok a taken rest \<longleftrightarrow> indices_ok a \<and> distinct (taken @ rest)
     \<and> set (taken @ rest) \<subseteq> {..<length (al_devices a)}"

lemma selection_ok_step:
  assumes "selection_ok a taken rest" "i < length rest"
  shows "selection_ok a (taken @ [rest ! i]) (drop (Suc i) rest)"
proof -
  have "rest = take i rest @ rest ! i # drop (Suc i) rest" using assms(2) by (rule list_split_at)
  then have "set rest = set (take i rest) \<union> insert (rest ! i) (set (drop (Suc i) rest))"
    "distinct (take i rest @ rest ! i # drop (Suc i) rest) = distinct rest"
    by (metis list.simps(15) set_append, simp)
  with assms show ?thesis by (auto simp: selection_ok_def)
qed

lemma lowerBound_state:
  assumes ok: "selection_ok a taken (drop start (candidates s))" and s: "placed a taken s"
    and prep: "prepared a s" and start: "start \<le> length (candidates s)"
    and cs: "set (candidates s) \<subseteq> {..<length (al_devices a)}"
  shows "lowerBound a s start r =
    lowerBound a (prune_state a taken (drop start (candidates s)) (bestScore s)) 0 r"
proof -
  let ?t = "prune_state a taken (drop start (candidates s)) (bestScore s)"
  have t: "prepared a ?t" unfolding prune_state_def
    using ok by (intro prepareBounds_prepared) (auto simp: selection_ok_def sid_counts_def)
  have frame: "candidates ?t = drop start (candidates s)" "chosen ?t = chosen s"
    "score ?t = score s" "sidCounts ?t = sidCounts s" "bestScore ?t = bestScore s"
    using s by (simp_all add: prune_state_def prepareBounds_frame placed_def)
  have arrays: "suffixSID ?t ! 0 = suffixSID s ! start"
    "suffixKnownNUMA ?t ! 0 = suffixKnownNUMA s ! start"
    "suffixKnownPCI ?t ! 0 = suffixKnownPCI s ! start"
    "minDistance ?t = minDistance s" "minSeparateRoots ?t = minSeparateRoots s"
    using t prep start by (auto simp: prepared_def frame(1))
  show ?thesis
    by (simp only: lowerBound_def prefix_bound_def known_finally_def cheap_bound_def
        worst_distances_def sid_capacities_def frame arrays drop_0)
qed

section \<open>search refines the skeleton\<close>

definition best_pair :: "nat list option \<Rightarrow> allocationScore \<Rightarrow> (nat list \<times> allocationScore) option" where
  "best_pair b v = map_option (\<lambda>x. (x, v)) b"

lemma search_add_frame:
  "candidates (search_add a i s) = candidates s" "best (search_add a i s) = best s"
  "bestScore (search_add a i s) = bestScore s" "prepared a (search_add a i s) = prepared a s"
  by (simp_all add: search_add_def Let_def split_def prepared_def)

lemma best_update_frame:
  "placed a F (s\<lparr>best := b, bestScore := v\<rparr>) = placed a F s"
  "prepared a (s\<lparr>best := b, bestScore := v\<rparr>) = prepared a s"
  by (simp_all add: placed_def prepared_def)

definition bound_total :: "topologyAllocator \<Rightarrow> bool" where
  "bound_total a \<longleftrightarrow> (\<forall>taken rest v r. selection_ok a taken rest \<longrightarrow> 0 < r \<longrightarrow> r \<le> length rest \<longrightarrow>
     lowerBound a (prune_state a taken rest v) 0 r \<noteq> None)"

text \<open>One run of the loop over candidates, given the result for every recursive call.\<close>

lemma search_loop:
  assumes rec: "\<And>i t. i \<in> set ids \<Longrightarrow> placed a F t \<Longrightarrow> candidates t = cs \<Longrightarrow> prepared a t \<Longrightarrow>
      \<exists>b v. search a r (Suc i) (search_add a (cs ! i) t)
          = Some ((search_add a (cs ! i) t)\<lparr>best := b, bestScore := v\<rparr>)
        \<and> best_pair b v = step i (best_pair (best t) (bestScore t))"
    and s: "placed a F s" "candidates s = cs" "prepared a s"
  shows "\<exists>b v. foldl (\<lambda>st i. Option.bind st (\<lambda>s.
                 (let index = candidates s ! i; previous = score s in
                  map_option (search_undo a index previous)
                    (search a r (Suc i) (search_add a index s))))) (Some s) ids
      = Some (s\<lparr>best := b, bestScore := v\<rparr>)
    \<and> best_pair b v = fold step ids (best_pair (best s) (bestScore s))"
  using assms
proof (induction ids arbitrary: s)
  case Nil
  then show ?case by (intro exI [of _ "best s"] exI [of _ "bestScore s"]) simp
next
  case (Cons i ids)
  from Cons.prems(1) [of i s] Cons.prems(2-4) obtain b v where
    bv: "search a r (Suc i) (search_add a (cs ! i) s)
        = Some ((search_add a (cs ! i) s)\<lparr>best := b, bestScore := v\<rparr>)"
      "best_pair b v = step i (best_pair (best s) (bestScore s))" by auto
  let ?s = "s\<lparr>best := b, bestScore := v\<rparr>"
  have "\<exists>b' v'. foldl (\<lambda>st i. Option.bind st (\<lambda>s.
                 (let index = candidates s ! i; previous = score s in
                  map_option (search_undo a index previous)
                    (search a r (Suc i) (search_add a index s))))) (Some ?s) ids
      = Some (?s\<lparr>best := b', bestScore := v'\<rparr>)
    \<and> best_pair b' v' = fold step ids (best_pair (best ?s) (bestScore ?s))"
    using Cons.prems by (intro Cons.IH) (auto simp: best_update_frame)
  with bv Cons.prems(3) show ?case by (simp add: Let_def search_undo_add)
qed

theorem search_refines_bounded_search:
  assumes total: "bound_total a"
  shows "selection_ok a F (drop start (candidates s)) \<Longrightarrow> placed a F s \<Longrightarrow> prepared a s \<Longrightarrow>
     start \<le> length (candidates s) \<Longrightarrow> set (candidates s) \<subseteq> {..<length (al_devices a)} \<Longrightarrow>
     \<exists>b v. search a r start s = Some (s\<lparr>best := b, bestScore := v\<rparr>)
       \<and> best_pair b v = bounded_search (placement_score a) (prunes a) r F
           (drop start (candidates s)) (best_pair (best s) (bestScore s))"
proof (induction r arbitrary: F start s)
  case 0
  then have "score s = placement_score a F" "chosen s = F" by (auto simp: placed_def)
  then show ?case
    by (cases "best s") (force simp: best_pair_def improve_def score_less_iff)+
next
  case (Suc r)
  let ?cs = "candidates s" and ?rest = "drop start (candidates s)"
  show ?case
  proof (cases "length ?rest < Suc r")
    case True
    then show ?thesis by (intro exI [of _ "best s"] exI [of _ "bestScore s"]) simp
  next
    case False
    then have "lowerBound a (prune_state a F ?rest (bestScore s)) 0 (Suc r) \<noteq> None"
      using total Suc.prems(1) by (simp add: bound_total_def)
    then obtain lb where lb: "lowerBound a s start (Suc r) = Some lb"
      "lowerBound a (prune_state a F ?rest (bestScore s)) 0 (Suc r) = Some lb"
      using lowerBound_state [OF Suc.prems] by auto
    let ?prune = "best s \<noteq> None \<and> \<not> score_less lb (bestScore s)"
    show ?thesis
    proof (cases ?prune)
      case True
      with False lb show ?thesis
        by (intro exI [of _ "best s"] exI [of _ "bestScore s"])
          (auto simp: best_pair_def prunes_def)
    next
      case noprune: False
      define step where "step = (\<lambda>i. bounded_search (placement_score a) (prunes a) r
        (F @ [?cs ! i]) (drop (Suc i) ?cs))"
      have ok_i: "selection_ok a (F @ [?cs ! i]) (drop (Suc i) ?cs) \<and> ?cs ! i < length (al_devices a)"
        if "start \<le> i" "i < length ?cs" for i
        using selection_ok_step [OF Suc.prems(1), of "i - start"] that
        by (auto simp: selection_ok_def)
      have rec: "\<exists>b v. search a r (Suc i) (search_add a (?cs ! i) t)
            = Some ((search_add a (?cs ! i) t)\<lparr>best := b, bestScore := v\<rparr>)
          \<and> best_pair b v = step i (best_pair (best t) (bestScore t))"
        if "i \<in> set [start ..< length ?cs - r]" "placed a F t" "candidates t = ?cs" "prepared a t"
        for i t
      proof -
        have i: "start \<le> i" "i < length ?cs" using that(1) by auto
        show ?thesis
          using Suc.IH [of "F @ [?cs ! i]" "Suc i" "search_add a (?cs ! i) t"]
            ok_i [OF i] that i(2) Suc.prems(1,5)
          by (simp add: search_add_frame placed_search_add step_def selection_ok_def)
      qed
      have "\<exists>b v. foldl (\<lambda>st i. Option.bind st (\<lambda>s.
                 (let index = candidates s ! i; previous = score s in
                  map_option (search_undo a index previous)
                    (search a r (Suc i) (search_add a index s))))) (Some s)
               [start ..< length ?cs - r] = Some (s\<lparr>best := b, bestScore := v\<rparr>)
          \<and> best_pair b v = fold step [start ..< length ?cs - r] (best_pair (best s) (bestScore s))"
        by (rule search_loop [OF _ Suc.prems(2) refl Suc.prems(3)]) (rule rec)
      then obtain b v where
        bv: "foldl (\<lambda>st i. Option.bind st (\<lambda>s.
                 (let index = candidates s ! i; previous = score s in
                  map_option (search_undo a index previous)
                    (search a r (Suc i) (search_add a index s))))) (Some s)
               [start ..< length ?cs - r] = Some (s\<lparr>best := b, bestScore := v\<rparr>)"
          "best_pair b v = fold step [start ..< length ?cs - r] (best_pair (best s) (bestScore s))"
        by (elim exE conjE) (rule that)
      have "[start ..< length ?cs - r] = map (\<lambda>i. start + i) [0 ..< length ?rest - r]"
        using False Suc.prems(4) by (intro nth_equalityI) auto
      then have "fold step [start ..< length ?cs - r] acc =
          fold (\<lambda>i. bounded_search (placement_score a) (prunes a) r (F @ [?rest ! i])
            (drop (Suc i) ?rest)) [0 ..< length ?rest - r] acc" for acc
        using Suc.prems(4)
        by (simp only: fold_map, intro fold_cong) (auto simp: step_def add.commute)
      moreover have "prunes a F ?rest (Suc r) (bestScore s) \<longleftrightarrow> \<not> score_less lb (bestScore s)"
        using lb(2) by (simp add: prunes_def)
      ultimately show ?thesis
        using bv False noprune lb(1)
        by (intro exI [of _ b] exI [of _ v], cases "best s")
          (simp_all add: best_pair_def)
    qed
  qed
qed

end
