(* ===== verification/ForestCounts.thy ===== *)
theory ForestCounts imports Scores begin

text \<open>
  Counting endpoints in a forest of chains.  A node is the chain of sysfs paths from its root, so
  the forest is a prefix-closed set \<open>S\<close> of non-empty lists.  For a list \<open>P\<close> of endpoints,
  \<open>below P q\<close> endpoints lie in the subtree of \<open>q\<close> and \<open>spread S P q k\<close> is the cost that
  \<open>pci_allocation_bounds.go\<close> gives that subtree: an edge above \<open>c\<close> of the \<open>k\<close> endpoints is crossed
  by \<open>c * (k - c)\<close> pairs.  The lemmas of the last section turn pair sums into such products.
\<close>

section \<open>Chains\<close>

definition chain_forest :: "'a list set \<Rightarrow> bool" where
  "chain_forest S \<longleftrightarrow> finite S \<and> [] \<notin> S \<and> (\<forall>q\<in>S. 1 < length q \<longrightarrow> butlast q \<in> S)"

definition kids :: "'a list set \<Rightarrow> 'a list \<Rightarrow> 'a list set" where
  "kids S q = {c \<in> S. 1 < length c \<and> butlast c = q}"

definition below :: "'a list list \<Rightarrow> 'a list \<Rightarrow> nat" where
  "below P q = length (filter (prefix q) P)"

definition located :: "'a list list \<Rightarrow> 'a list \<Rightarrow> nat" where
  "located P q = length (filter ((=) q) P)"

definition spread :: "'a list set \<Rightarrow> 'a list list \<Rightarrow> 'a list \<Rightarrow> int \<Rightarrow> int" where
  "spread S P q k =
     (\<Sum>m\<in>{m \<in> S. strict_prefix q m}. int (below P m) * (k - int (below P m)))"

lemma chain_forest_take:
  assumes "chain_forest S" "p \<in> S" "0 < k"
  shows "take k p \<in> S"
proof (cases "k \<le> length p")
  case True
  then show ?thesis using assms(3)
  proof (induction "length p - k" arbitrary: k)
    case (Suc d)
    then have "take (Suc k) p \<in> S" by (intro Suc.hyps) auto
    moreover have "butlast (take (Suc k) p) = take k p"
      using Suc.hyps(2) by (simp add: butlast_take)
    moreover have "1 < length (take (Suc k) p)" using Suc.hyps(2) Suc.prems by auto
    ultimately show ?case using assms(1) by (metis chain_forest_def)
  qed (use assms(2) in simp)
qed (use assms(2) in simp)

lemma finite_kids: "chain_forest S \<Longrightarrow> finite (kids S q)"
  by (simp add: chain_forest_def kids_def)

lemma kids_prefix:
  assumes "chain_forest S" "p \<in> S" "q \<in> S"
  shows "{c \<in> kids S q. prefix c p} =
    (if strict_prefix q p then {take (Suc (length q)) p} else {})"
proof -
  have q: "0 < length q" using assms(1,3) by (auto simp: chain_forest_def)
  have "c = take (Suc (length q)) p \<and> strict_prefix q p" if "c \<in> kids S q" "prefix c p" for c
  proof
    from that(1) have c: "butlast c = q" "1 < length c" by (auto simp: kids_def)
    then have "length c = Suc (length q)" by (metis One_nat_def Suc_pred length_butlast
          less_nat_zero_code not_gr_zero)
    with that(2) show "c = take (Suc (length q)) p" by (metis prefix_def append_eq_conv_conj)
    from c have "strict_prefix q c"
      by (metis length_butlast less_imp_neq diff_less less_trans prefixeq_butlast
          strict_prefixI zero_less_one)
    with that(2) show "strict_prefix q p" by (metis prefix_order.less_le_trans)
  qed
  moreover have "take (Suc (length q)) p \<in> kids S q \<and> prefix (take (Suc (length q)) p) p"
    if "strict_prefix q p"
  proof -
    have "prefix q p" "q \<noteq> p" using that by (simp_all add: strict_prefix_def)
    then obtain r where r: "p = q @ r" "r \<noteq> []" by (cases rule: prefixE) auto
    then have "butlast (take (Suc (length q)) p) = q" "1 < length (take (Suc (length q)) p)"
      using q by (cases r; simp add: butlast_append)+
    then show ?thesis using chain_forest_take [OF assms(1,2)] by (simp add: kids_def take_is_prefix)
  qed
  ultimately show ?thesis by auto
qed

lemma kids_indicator:
  assumes "chain_forest S" "p \<in> S" "q \<in> S"
  shows "(\<Sum>c\<in>kids S q. if prefix c p then x else 0) = (if strict_prefix q p then x else (0::'b::comm_monoid_add))"
proof -
  have "(\<Sum>c\<in>kids S q. if prefix c p then x else 0) = (\<Sum>c\<in>{c \<in> kids S q. prefix c p}. x)"
    using finite_kids [OF assms(1)] by (simp add: sum.inter_filter)
  then show ?thesis by (simp add: kids_prefix [OF assms])
qed

section \<open>Recursion over the children\<close>

lemma sum_strict_below:
  assumes S: "chain_forest S" and q: "q \<in> S"
  shows "(\<Sum>m\<in>{m \<in> S. strict_prefix q m}. f m) =
    (\<Sum>c\<in>kids S q. f c + (\<Sum>m\<in>{m \<in> S. strict_prefix c m}. (f m :: int)))"
proof -
  have fin: "finite S" using S by (simp add: chain_forest_def)
  have "(\<Sum>m\<in>{m \<in> S. strict_prefix q m}. f m) = (\<Sum>m\<in>S. if strict_prefix q m then f m else 0)"
    using fin by (simp add: sum.inter_filter)
  also have "\<dots> = (\<Sum>m\<in>S. \<Sum>c\<in>kids S q. if prefix c m then f m else 0)"
    by (intro sum.cong refl) (simp add: kids_indicator [OF S _ q])
  also have "\<dots> = (\<Sum>c\<in>kids S q. \<Sum>m\<in>S. if prefix c m then f m else 0)"
    by (rule sum.swap)
  also have "\<dots> = (\<Sum>c\<in>kids S q. f c + (\<Sum>m\<in>{m \<in> S. strict_prefix c m}. f m))"
  proof (rule sum.cong [OF refl])
    fix c assume c: "c \<in> kids S q"
    have "{m \<in> S. prefix c m} = insert c {m \<in> S. strict_prefix c m}"
      using c by (auto simp: kids_def strict_prefix_def)
    then show "(\<Sum>m\<in>S. if prefix c m then f m else 0) = f c + (\<Sum>m\<in>{m \<in> S. strict_prefix c m}. f m)"
      using fin by (simp add: sum.inter_filter [symmetric])
  qed
  finally show ?thesis .
qed

lemma spread_kids:
  assumes "chain_forest S" "q \<in> S"
  shows "spread S P q k =
    (\<Sum>c\<in>kids S q. int (below P c) * (k - int (below P c)) + spread S P c k)"
  unfolding spread_def by (rule sum_strict_below [OF assms])

lemma below_kids:
  assumes "chain_forest S" "set P \<subseteq> S" "q \<in> S"
  shows "below P q = located P q + (\<Sum>c\<in>kids S q. below P c)"
  using assms(2)
proof (induction P)
  case Nil
  then show ?case by (simp add: below_def located_def)
next
  case (Cons p P)
  have "(\<Sum>c\<in>kids S q. if prefix c p then 1 else 0) = (if strict_prefix q p then 1 else (0::nat))"
    by (rule kids_indicator [OF assms(1) _ assms(3)]) (use Cons.prems in simp)
  moreover have "below (p # P) c = (if prefix c p then 1 else 0) + below P c" for c
    by (simp add: below_def)
  moreover have "located (p # P) q = (if q = p then 1 else 0) + located P q"
    by (simp add: located_def)
  ultimately show ?case
    using Cons by (simp add: sum.distrib) (auto simp: strict_prefix_def)
qed

lemma below_mono: "prefix q p \<Longrightarrow> below P p \<le> below P q"
  unfolding below_def using prefix_order.trans
  by (induction P) (auto intro: le_SucI)

lemma below_append: "below (P @ Q) q = below P q + below Q q"
  by (simp add: below_def)

lemma located_append: "located (P @ Q) q = located P q + located Q q"
  by (simp add: located_def)

lemma below_subseq: "subseq P Q \<Longrightarrow> below P q \<le> below Q q"
  unfolding below_def by (metis subseq_filter list_emb_length)

lemma located_subseq: "subseq P Q \<Longrightarrow> located P q \<le> located Q q"
  unfolding located_def by (metis subseq_filter list_emb_length)

lemma spread_nonneg:
  assumes "int (below P q) \<le> k"
  shows "0 \<le> spread S P q k"
  unfolding spread_def
proof (rule sum_nonneg)
  fix m assume "m \<in> {m \<in> S. strict_prefix q m}"
  then have "below P m \<le> below P q" by (intro below_mono) (auto simp: strict_prefix_def)
  with assms show "0 \<le> int (below P m) * (k - int (below P m))" by simp
qed

section \<open>Pair sums as products\<close>

lemma pair_sum_split:
  assumes "\<And>x. A x \<Longrightarrow> B x"
  shows "pair_sum (\<lambda>x y. if B x \<and> B y \<and> A x \<noteq> A y then 1 else 0) P
    = int (length (filter A P)) * (int (length (filter B P)) - int (length (filter A P)))"
proof (induction P)
  case Nil
  then show ?case by (simp add: pair_sum_def)
next
  case (Cons x P)
  have "(\<Sum>y\<leftarrow>P. if B y \<and> B x \<and> A y \<noteq> A x then (1::int) else 0) =
      (if B x then (if A x then int (length (filter B P)) - int (length (filter A P))
        else int (length (filter A P))) else 0)"
    using assms by (induction P) auto
  with Cons show ?case using assms by (auto simp: pair_sum_Cons algebra_simps)
qed

lemma pair_sum_both:
  "pair_sum (\<lambda>x y. if A x \<and> A y then 1 else 0) P =
     int (length (filter A P)) * (int (length (filter A P)) - 1) div 2"
proof -
  have "2 * pair_sum (\<lambda>x y. if A x \<and> A y then 1 else 0) P =
      int (length (filter A P)) * (int (length (filter A P)) - 1)"
  proof (induction P)
    case (Cons x P)
    have "(\<Sum>y\<leftarrow>P. if A y \<and> A x then (1::int) else 0) = (if A x then int (length (filter A P)) else 0)"
      by (induction P) auto
    with Cons show ?case by (auto simp: pair_sum_Cons algebra_simps)
  qed (simp add: pair_sum_def)
  then show ?thesis by linarith
qed

lemma pair_sum_zero: "pair_sum (\<lambda>_ _. 0) P = 0"
  by (induction P) (simp_all add: pair_sum_Cons)

lemma pair_sum_sum:
  "finite M \<Longrightarrow> pair_sum (\<lambda>x y. \<Sum>m\<in>M. f m x y) P = (\<Sum>m\<in>M. pair_sum (f m) P)"
  by (induction M rule: finite_induct) (simp_all add: pair_sum_add pair_sum_zero)

end
