(* ===== verification/ForestPairs.thy ===== *)
theory ForestPairs imports ForestCounts begin

text \<open>
  The two pair sums of a placement, the cross-root pairs and the hops within the roots, written
  over the subtree counts of theory \<open>ForestCounts\<close>.
\<close>

section \<open>Hops within a root\<close>

definition path_hops :: "'a list \<Rightarrow> 'a list \<Rightarrow> int" where
  "path_hops p q = (if hd p = hd q then int (length p) + int (length q) - 2 * int (lcp_len p q) else 0)"

definition forest_roots :: "'a list set \<Rightarrow> 'a list set" where
  "forest_roots S = {m \<in> S. length m = 1}"

lemma chain_forest_nonempty: "chain_forest S \<Longrightarrow> p \<in> S \<Longrightarrow> p \<noteq> []"
  by (auto simp: chain_forest_def)

lemma prefix_hd: "m \<noteq> [] \<Longrightarrow> prefix m p \<Longrightarrow> hd p = hd m"
  by (auto simp: prefix_def)

lemma prefix_single: "prefix [h] p \<longleftrightarrow> p \<noteq> [] \<and> hd p = h"
  by (cases p) auto

lemma prefix_iff_lcp: "prefix m p \<Longrightarrow> prefix m q \<longleftrightarrow> length m \<le> lcp_len p q"
proof (induction m arbitrary: p q)
  case (Cons x m)
  then show ?case by (cases p; cases q) auto
qed simp

lemma prefixes_beyond:
  assumes "chain_forest S" "p \<in> S"
  shows "card {m \<in> S. prefix m p \<and> \<not> prefix m q} = length p - lcp_len p q"
proof -
  have "{m \<in> S. prefix m p \<and> \<not> prefix m q} = (\<lambda>k. take k p) ` {lcp_len p q <.. length p}"
  proof (intro equalityI subsetI)
    fix m assume m: "m \<in> {m \<in> S. prefix m p \<and> \<not> prefix m q}"
    then have "m = take (length m) p" by (auto simp: prefix_def)
    moreover have "lcp_len p q < length m" "length m \<le> length p"
      using m prefix_iff_lcp [of m p q] prefix_length_le [of m p] by auto
    ultimately show "m \<in> (\<lambda>k. take k p) ` {lcp_len p q <.. length p}" by auto
  next
    fix m assume "m \<in> (\<lambda>k. take k p) ` {lcp_len p q <.. length p}"
    then obtain k where k: "m = take k p" "lcp_len p q < k" "k \<le> length p" by auto
    then have "\<not> prefix m q" using prefix_iff_lcp [of m p q] by (simp add: take_is_prefix)
    with k chain_forest_take [OF assms] show "m \<in> {m \<in> S. prefix m p \<and> \<not> prefix m q}"
      by (auto simp: take_is_prefix)
  qed
  moreover have "inj_on (\<lambda>k. take k p) {lcp_len p q <.. length p}"
  proof (rule inj_onI)
    fix j k assume jk: "j \<in> {lcp_len p q <.. length p}" "k \<in> {lcp_len p q <.. length p}"
      "take j p = take k p"
    then have "length (take j p) = length (take k p)" by simp
    with jk(1,2) show "j = k" by simp
  qed
  ultimately show ?thesis by (simp add: card_image)
qed

lemma path_hops_sum:
  assumes S: "chain_forest S" and pq: "p \<in> S" "q \<in> S"
  shows "path_hops p q = (\<Sum>m\<in>S. if hd p = hd m \<and> hd q = hd m \<and> prefix m p \<noteq> prefix m q then 1 else 0)"
proof (cases "hd p = hd q")
  case False
  then have "\<not> (hd p = hd m \<and> hd q = hd m)" for m by auto
  then have "(\<Sum>m\<in>S. if hd p = hd m \<and> hd q = hd m \<and> prefix m p \<noteq> prefix m q then 1 else 0) = (0::int)"
    by (intro sum.neutral) auto
  with False show ?thesis by (simp add: path_hops_def)
next
  case True
  let ?A = "{m \<in> S. prefix m p \<and> \<not> prefix m q}" and ?B = "{m \<in> S. prefix m q \<and> \<not> prefix m p}"
  have fin: "finite S" using S by (simp add: chain_forest_def)
  have hd: "prefix m r \<Longrightarrow> m \<in> S \<Longrightarrow> hd r = hd m" for m r
    using chain_forest_nonempty [OF S] prefix_hd by blast
  have "hd p = hd m \<and> hd q = hd m \<and> prefix m p \<noteq> prefix m q \<longleftrightarrow> m \<in> ?A \<union> ?B" if "m \<in> S" for m
    using that hd [of m p] hd [of m q] True by auto
  then have "(\<Sum>m\<in>S. if hd p = hd m \<and> hd q = hd m \<and> prefix m p \<noteq> prefix m q then 1 else 0)
      = (\<Sum>m\<in>S. if m \<in> ?A \<union> ?B then 1 else (0::int))"
    by (intro sum.cong refl) simp
  also have "\<dots> = int (card (?A \<union> ?B))"
  proof -
    have "S \<inter> {m. m \<in> ?A \<union> ?B} = ?A \<union> ?B" by blast
    then show ?thesis by (simp only: sum.If_cases [OF fin]) simp
  qed
  also have "card (?A \<union> ?B) = card ?A + card ?B" using fin by (intro card_Un_disjoint) auto
  finally show ?thesis
    using True prefixes_beyond [OF S pq(1), of q] prefixes_beyond [OF S pq(2), of p]
      lcp_len_le [of p q]
    by (simp add: path_hops_def lcp_len_sym [of q p] of_nat_diff)
qed

lemma below_root: "[] \<notin> set P \<Longrightarrow> below P [h] = length (filter (\<lambda>p. hd p = h) P)"
  unfolding below_def
  by (intro arg_cong [where f = length] filter_cong refl) (auto simp: prefix_single)

lemma pair_sum_hops:
  assumes S: "chain_forest S" and P: "set P \<subseteq> S"
  shows "pair_sum path_hops P =
    (\<Sum>m\<in>S. int (below P m) * (int (below P [hd m]) - int (below P m)))"
proof -
  have ne: "[] \<notin> set P" using S P by (auto simp: chain_forest_def)
  have "pair_sum path_hops P = pair_sum (\<lambda>p q. \<Sum>m\<in>S.
      if hd p = hd m \<and> hd q = hd m \<and> prefix m p \<noteq> prefix m q then 1 else 0) P"
    using P by (intro pair_sum_cong path_hops_sum [OF S]) (auto elim!: pairs_ofE)
  also have "\<dots> = (\<Sum>m\<in>S. pair_sum (\<lambda>p q.
      if hd p = hd m \<and> hd q = hd m \<and> prefix m p \<noteq> prefix m q then 1 else 0) P)"
    using S by (intro pair_sum_sum) (simp add: chain_forest_def)
  also have "\<dots> = (\<Sum>m\<in>S. int (below P m) * (int (below P [hd m]) - int (below P m)))"
  proof (rule sum.cong [OF refl])
    fix m assume "m \<in> S"
    then have "prefix m x \<Longrightarrow> hd x = hd m" for x
      using chain_forest_nonempty [OF S] prefix_hd by blast
    from pair_sum_split [of "prefix m" "\<lambda>x. hd x = hd m" P, OF this] show "pair_sum (\<lambda>p q. if hd p = hd m \<and> hd q = hd m \<and> prefix m p \<noteq> prefix m q then 1 else 0) P
        = int (below P m) * (int (below P [hd m]) - int (below P m))"
      unfolding below_root [OF ne] below_def [of P m] by simp
  qed
  finally show ?thesis .
qed

lemma pair_sum_hops_roots:
  assumes S: "chain_forest S" and P: "set P \<subseteq> S"
  shows "pair_sum path_hops P = (\<Sum>r\<in>forest_roots S. spread S P r (int (below P r)))"
proof -
  let ?f = "\<lambda>m. int (below P m) * (int (below P [hd m]) - int (below P m))"
  have fin: "finite S" using S by (simp add: chain_forest_def)
  have root: "[hd m] \<in> forest_roots S" if "m \<in> S" for m
  proof -
    have "take 1 m = [hd m]" using chain_forest_nonempty [OF S that] by (cases m) auto
    then show ?thesis using chain_forest_take [OF S that, of 1] by (simp add: forest_roots_def)
  qed
  have "(\<Sum>m\<in>S. ?f m) = (\<Sum>r\<in>forest_roots S. \<Sum>m\<in>{m \<in> S. [hd m] = r}. ?f m)"
    using fin root by (intro sum.group [symmetric]) (auto simp: forest_roots_def)
  also have "\<dots> = (\<Sum>r\<in>forest_roots S. spread S P r (int (below P r)))"
  proof (rule sum.cong [OF refl])
    fix r assume r: "r \<in> forest_roots S"
    then obtain h where h: "r = [h]" by (auto simp: forest_roots_def length_Suc_conv)
    have "{m \<in> S. [hd m] = r} = insert r {m \<in> S. strict_prefix r m}"
      using r h chain_forest_nonempty [OF S]
      by (auto simp: forest_roots_def strict_prefix_def prefix_single)
    then have "(\<Sum>m\<in>{m \<in> S. [hd m] = r}. ?f m) = ?f r + (\<Sum>m\<in>{m \<in> S. strict_prefix r m}. ?f m)"
      using fin by simp
    also have "?f r = 0" using h by simp
    also have "(\<Sum>m\<in>{m \<in> S. strict_prefix r m}. ?f m) = spread S P r (int (below P r))"
      unfolding spread_def using h by (intro sum.cong refl) (auto simp: strict_prefix_def prefix_single)
    finally show "(\<Sum>m\<in>{m \<in> S. [hd m] = r}. ?f m) = spread S P r (int (below P r))" by simp
  qed
  finally show ?thesis by (simp add: pair_sum_hops [OF assms])
qed

section \<open>Pairs across roots\<close>

definition path_cross :: "'a list \<Rightarrow> 'a list \<Rightarrow> int" where
  "path_cross p q = (if hd p \<noteq> hd q then 1 else 0)"

definition cross_in :: "'a set \<Rightarrow> 'a list list \<Rightarrow> int" where
  "cross_in H P = pair_sum (\<lambda>p q. if hd p \<in> H \<and> hd q \<in> H \<and> hd p \<noteq> hd q then 1 else 0) P"

definition count_in :: "'a set \<Rightarrow> 'a list list \<Rightarrow> nat" where
  "count_in H P = length (filter (\<lambda>p. hd p \<in> H) P)"

lemma count_in_insert:
  assumes "h \<notin> H" "[] \<notin> set P"
  shows "count_in (insert h H) P = count_in H P + below P [h]"
  using assms(2) unfolding count_in_def below_root [OF assms(2)]
  by (induction P) (use assms(1) in auto)

lemma cross_in_insert:
  assumes "h \<notin> H" "[] \<notin> set P"
  shows "cross_in (insert h H) P = cross_in H P + int (count_in H P) * int (below P [h])"
proof -
  have "cross_in (insert h H) P = pair_sum (\<lambda>p q.
      (if hd p \<in> H \<and> hd q \<in> H \<and> hd p \<noteq> hd q then 1 else 0)
      + (if hd p \<in> insert h H \<and> hd q \<in> insert h H \<and> (hd p = h) \<noteq> (hd q = h) then 1 else 0)) P"
    unfolding cross_in_def using assms(1) by (intro pair_sum_cong) auto
  also have "\<dots> = cross_in H P + int (below P [h]) * (int (count_in (insert h H) P) - int (below P [h]))"
    using pair_sum_split [of "\<lambda>p. hd p = h" "\<lambda>p. hd p \<in> insert h H" P]
    by (simp add: pair_sum_add cross_in_def count_in_def below_root [OF assms(2)])
  finally show ?thesis by (simp add: count_in_insert [OF assms])
qed

lemma cross_in_all: "\<forall>p\<in>set P. hd p \<in> H \<Longrightarrow> cross_in H P = pair_sum path_cross P"
  unfolding cross_in_def path_cross_def by (intro pair_sum_cong) (auto elim!: pairs_ofE)

lemma count_in_all: "\<forall>p\<in>set P. hd p \<in> H \<Longrightarrow> count_in H P = length P"
  by (simp add: count_in_def)

lemma cross_in_empty [simp]: "cross_in {} P = 0" "count_in {} P = 0"
  by (simp_all add: cross_in_def count_in_def pair_sum_zero)

end
