(* ===== verification/SubtreeCosts.thy ===== *)
theory SubtreeCosts imports ForestPairs begin

text \<open>
  The dynamic program of \<open>pciSubtreeCosts\<close> against the subtree costs of theory \<open>ForestCounts\<close>:
  on the forest that \<open>newPCITree\<close> builds, one unit of fuel per node is enough, and the entry for
  the number of endpoints a completion has below a node is at most the cost of that completion.
\<close>

section \<open>Folds that lower an entry\<close>

lemma fold_reaches:
  assumes "x \<in> set xs" "I s"
    and "\<And>y s. y \<in> set xs \<Longrightarrow> I s \<Longrightarrow> I (g y s)"
    and "\<And>s. I s \<Longrightarrow> Q (g x s)"
    and "\<And>y s. y \<in> set xs \<Longrightarrow> I s \<Longrightarrow> Q s \<Longrightarrow> Q (g y s)"
  shows "Q (fold g xs s)"
proof -
  obtain us ws where xs: "xs = us @ x # ws" using assms(1) by (meson split_list)
  have I: "I s \<Longrightarrow> I (fold g ys s)" if "set ys \<subseteq> set xs" for ys s
    using that by (induction ys arbitrary: s) (auto intro: assms(3))
  have Q: "I s \<Longrightarrow> Q s \<Longrightarrow> Q (fold g ys s)" if "set ys \<subseteq> set xs" for ys s
    using that by (induction ys arbitrary: s) (auto intro: assms(3,5))
  have sub: "set us \<subseteq> set xs" "set ws \<subseteq> set xs" using xs by auto
  have "I (fold g us s)" using I [OF sub(1) assms(2)] .
  then have "I (g x (fold g us s))" "Q (g x (fold g us s))" using assms(1,3,4) by auto
  then show ?thesis using Q [OF sub(2)] xs by simp
qed

lemma fold_keeps:
  assumes "I s" "\<And>y s. y \<in> set xs \<Longrightarrow> I s \<Longrightarrow> I (g y s)"
  shows "I (fold g xs s)"
  using assms by (induction xs arbitrary: s) auto

lemma min_update:
  assumes "nxt ! k \<le> (v::int)"
  shows "nxt[i := min (nxt ! i) w] ! k \<le> v"
  using assms by (cases "i < length nxt") (auto simp: nth_list_update list_update_beyond)

lemma length_merge_child: "length (merge_child K limit used cf costs cc) = Suc limit"
  unfolding merge_child_def
  by (rule fold_keeps [where I = "\<lambda>nxt. length nxt = Suc limit"], simp)
    (auto intro!: fold_keeps [where I = "\<lambda>nxt. length nxt = Suc limit"] simp: Let_def)

lemma merge_child_le:
  assumes e: "e \<le> used" "costs ! e \<noteq> impossiblePCICost"
    and c: "cf \<le> c" "c < length cc" "e + c \<le> limit" "cc ! c \<noteq> impossiblePCICost"
  shows "merge_child K limit used cf costs cc ! (e + c)
    \<le> costs ! e + cc ! c + int c * (int K - int c)"
proof -
  let ?I = "\<lambda>nxt. length nxt = Suc limit"
  let ?Q = "\<lambda>nxt. nxt ! (e + c) \<le> costs ! e + cc ! c + int c * (int K - int c)"
  let ?g = "\<lambda>e count nxt. if cc ! count = impossiblePCICost then nxt
      else nxt[e + count := min (nxt ! (e + count))
             (costs ! e + cc ! count + int count * (int K - int count))]"
  have step: "?I nxt \<Longrightarrow> ?I (?g e' c' nxt)" "?Q nxt \<Longrightarrow> ?Q (?g e' c' nxt)" for e' c' nxt
    by (simp_all add: min_update)
  have in_range: "c \<in> set [cf ..< min (length cc) (Suc limit - e)]" using c by auto
  have "?Q (fold (?g e) [cf ..< min (length cc) (Suc limit - e)] nxt)" if "?I nxt" for nxt
  proof (rule fold_reaches [where I = ?I and g = "?g e", OF in_range that])
    fix s :: "int list" assume "?I s"
    then show "?Q (?g e c s)" using c(3,4) by simp
  qed (use step in auto)
  moreover have "?I (fold (?g e') [cf ..< min (length cc) (Suc limit - e')] nxt)"
    if "?I nxt" for e' nxt
    by (rule fold_keeps [where I = ?I and g = "?g e'", OF that]) (rule step)
  moreover have "?Q (fold (?g e') [cf ..< min (length cc) (Suc limit - e')] nxt)"
    if "?Q nxt" for e' nxt
    by (rule fold_keeps [where I = ?Q and g = "?g e'", OF that]) (rule step)
  ultimately have steps:
    "?I nxt \<Longrightarrow> ?Q (fold (?g e) [cf ..< min (length cc) (Suc limit - e)] nxt)"
    "?I nxt \<Longrightarrow> ?I (fold (?g e') [cf ..< min (length cc) (Suc limit - e')] nxt)"
    "?Q nxt \<Longrightarrow> ?Q (fold (?g e') [cf ..< min (length cc) (Suc limit - e')] nxt)" for e' nxt
    by blast+
  have "e \<in> set [0 ..< Suc used]" using e(1) by auto
  then show ?thesis
    unfolding merge_child_def Let_def
  proof (rule fold_reaches [where I = ?I and x = e and Q = ?Q], goal_cases)
    case (3 s)
    then show ?case using e(2) steps(1) [of s] by simp
  next
    case (2 y s)
    then show ?case using steps(2) [of s y] by simp
  next
    case (4 y s)
    then show ?case using steps(3) [of s y] by simp
  qed simp
qed

section \<open>The labelled forest\<close>

lemma labelled_chain_forest:
  assumes "labelled fam ps t"
  shows "chain_forest (set ps)"
proof -
  have "ps ! n \<noteq> []" if "n < length ps" for n
    using labelled_depth [OF assms that] by auto
  then have "[] \<notin> set ps" by (metis in_set_conv_nth)
  with labels_butlast [OF assms] show ?thesis by (simp add: chain_forest_def)
qed

lemma labelled_node:
  "labelled fam ps t \<Longrightarrow> n < length ps \<Longrightarrow> node_labelled ps n (tree_nodes t ! n)"
  by (simp add: labelled_def)

lemma labelled_index: "labelled fam ps t \<Longrightarrow> n < length ps \<Longrightarrow> nindex (tree_nodes t ! n) = n"
  by (simp add: labelled_def node_labelled_def)

lemma labelled_length: "labelled fam ps t \<Longrightarrow> length (tree_nodes t) = length ps"
  by (simp add: labelled_def)

lemma labelled_distinct: "labelled fam ps t \<Longrightarrow> distinct ps"
  by (simp add: labelled_def)

lemma labelled_children:
  assumes "labelled fam ps t" "n < length ps"
  shows "nchildren (tree_nodes t ! n) =
    filter (\<lambda>m. 1 < length (ps ! m) \<and> butlast (ps ! m) = ps ! n) [0..<length ps]"
  using labelled_node [OF assms] by (simp add: node_labelled_def)

lemma labelled_child_larger:
  assumes "labelled fam ps t" "n < length ps" "m \<in> set (nchildren (tree_nodes t ! n))"
  shows "n < m" "m < length ps" "nparent (tree_nodes t ! m) = Some n"
proof -
  have m: "m < length ps" "1 < length (ps ! m)" "butlast (ps ! m) = ps ! n"
    using assms(3) by (auto simp: labelled_children [OF assms(1,2)])
  then obtain k where k: "nparent (tree_nodes t ! m) = Some k" "k < m" "ps ! k = ps ! n"
    using labelled_node [OF assms(1) m(1)] by (auto simp: node_labelled_def split: option.splits)
  then have "k = n" using labelled_distinct [OF assms(1)] m(1) assms(2)
    by (metis less_trans nth_eq_iff_index_eq)
  with k m show "n < m" "m < length ps" "nparent (tree_nodes t ! m) = Some n" by auto
qed

lemma sum_children:
  fixes f :: "string list \<Rightarrow> 'b::comm_monoid_add"
  assumes "labelled fam ps t" "n < length ps"
  shows "(\<Sum>m\<leftarrow>nchildren (tree_nodes t ! n). f (ps ! m)) = (\<Sum>c\<in>kids (set ps) (ps ! n). f c)"
proof -
  let ?cs = "nchildren (tree_nodes t ! n)"
  have d: "distinct ps" using labelled_distinct [OF assms(1)] .
  have set: "set (map ((!) ps) ?cs) = kids (set ps) (ps ! n)"
    unfolding labelled_children [OF assms] kids_def by (force simp: in_set_conv_nth)
  have "distinct (map ((!) ps) ?cs)"
    unfolding labelled_children [OF assms] distinct_map
    using d by (auto simp: inj_on_def nth_eq_iff_index_eq)
  from sum_list_distinct_conv_sum_set [OF this, of f] show ?thesis
    unfolding set by (simp add: comp_def)
qed

lemma labelled_roots:
  assumes "labelled fam ps t"
  shows "set (tree_roots t) \<subseteq> {..<length ps}" "distinct (tree_roots t)"
    "(!) ps ` set (tree_roots t) = forest_roots (set ps)"
    "\<And>r. r \<in> set (tree_roots t) \<Longrightarrow> ps ! r = [hd (ps ! r)]"
proof -
  have roots: "tree_roots t = filter (\<lambda>n. length (ps ! n) = 1) [0..<length ps]"
    using assms by (simp add: labelled_def)
  then show "set (tree_roots t) \<subseteq> {..<length ps}" "distinct (tree_roots t)" by auto
  show "(!) ps ` set (tree_roots t) = forest_roots (set ps)"
    unfolding roots forest_roots_def by (force simp: in_set_conv_nth)
  show "\<And>r. r \<in> set (tree_roots t) \<Longrightarrow> ps ! r = [hd (ps ! r)]"
    unfolding roots by (auto simp: length_Suc_conv)
qed

lemma sum_roots:
  fixes f :: "string list \<Rightarrow> 'b::comm_monoid_add"
  assumes "labelled fam ps t"
  shows "(\<Sum>r\<leftarrow>tree_roots t. f (ps ! r)) = (\<Sum>r\<in>forest_roots (set ps). f r)"
proof -
  note roots = labelled_roots [OF assms]
  have "distinct (map ((!) ps) (tree_roots t))"
    unfolding distinct_map using roots(1,2) labelled_distinct [OF assms]
    by (auto intro: inj_on_nth)
  from sum_list_distinct_conv_sum_set [OF this, of f] show ?thesis
    using roots(3) by (simp add: comp_def)
qed

section \<open>One node\<close>

text \<open>The loop over the children, over any results \<open>sub\<close> of the recursive calls.\<close>

definition child_step ::
    "pciTreeNode list \<Rightarrow> (nat \<Rightarrow> int list option) \<Rightarrow> nat \<Rightarrow> nat \<Rightarrow> nat list \<Rightarrow> nat list \<Rightarrow>
     (int list \<times> nat) option \<Rightarrow> nat \<Rightarrow> (int list \<times> nat) option" where
  "child_step nodes sub K limit fs cap st child = Option.bind st (\<lambda>(costs, usedCapacity).
     (let c = nindex (nodes ! child) in
      if cap ! c = 0 then Some (costs, usedCapacity)
      else Option.bind (sub child) (\<lambda>childCosts.
        Some (merge_child K limit usedCapacity (fs ! c) costs childCosts,
              min limit (usedCapacity + cap ! c)))))"

lemma pciSubtreeCosts_Suc:
  "pciSubtreeCosts (Suc fuel) nodes node K forced free fs cap =
     (let i = nindex (nodes ! node); limit = min (cap ! i) K;
          costs = map (\<lambda>count. if forced ! i \<le> count \<and> count \<le> forced ! i + free ! i
                               then 0 else impossiblePCICost) [0 ..< Suc limit]
      in map_option fst (foldl (child_step nodes
           (\<lambda>child. pciSubtreeCosts fuel nodes child K forced free fs cap) K limit fs cap)
         (Some (costs, min (forced ! i + free ! i) K)) (nchildren (nodes ! node))))"
  by (simp only: pciSubtreeCosts.simps child_step_def [abs_def] Let_def)

declare pciSubtreeCosts.simps(2) [simp del]

lemma child_step_simps:
  "child_step nodes sub K limit fs cap None c = None"
  "cap ! nindex (nodes ! c) = 0 \<Longrightarrow> child_step nodes sub K limit fs cap (Some st) c = Some st"
  "cap ! nindex (nodes ! c) \<noteq> 0 \<Longrightarrow> sub c = None \<Longrightarrow>
     child_step nodes sub K limit fs cap (Some st) c = None"
  "cap ! nindex (nodes ! c) \<noteq> 0 \<Longrightarrow> sub c = Some cc \<Longrightarrow>
     child_step nodes sub K limit fs cap (Some (costs, used)) c =
       Some (merge_child K limit used (fs ! nindex (nodes ! c)) costs cc,
             min limit (used + cap ! nindex (nodes ! c)))"
  by (simp_all add: child_step_def Let_def split: prod.split)

lemma child_steps_None: "foldl (child_step nodes sub K limit fs cap) None cs = None"
  by (induction cs) (simp_all add: child_step_simps)

text \<open>One step does nothing, fails, or merges the costs of the child.\<close>

lemma child_step_cases:
  obtains (skip) "cap ! nindex (nodes ! c) = 0"
      "child_step nodes sub K limit fs cap (Some (costs, used)) c = Some (costs, used)"
  | (fail) "sub c = None" "child_step nodes sub K limit fs cap (Some (costs, used)) c = None"
  | (merge) cc where "cap ! nindex (nodes ! c) \<noteq> 0" "sub c = Some cc"
      "child_step nodes sub K limit fs cap (Some (costs, used)) c =
        Some (merge_child K limit used (fs ! nindex (nodes ! c)) costs cc,
              min limit (used + cap ! nindex (nodes ! c)))"
  by (cases "cap ! nindex (nodes ! c) = 0"; cases "sub c") (auto simp: child_step_simps)

lemma child_steps_total:
  assumes "\<And>c. c \<in> set cs \<Longrightarrow> sub c \<noteq> None"
  shows "foldl (child_step nodes sub K limit fs cap) (Some st) cs \<noteq> None"
  using assms
proof (induction cs arbitrary: st)
  case (Cons c cs)
  obtain costs used where st: "st = (costs, used)" by force
  show ?case
    using Cons.prems [of c] Cons.IH [OF Cons.prems]
    by (cases rule: child_step_cases [of cap nodes c sub K limit fs costs used]) (auto simp: st)
qed simp

lemma child_steps_length:
  assumes "foldl (child_step nodes sub K limit fs cap) (Some (costs, used)) cs = Some (costs', used')"
    and "length costs = Suc limit"
  shows "length costs' = Suc limit"
  using assms
proof (induction cs arbitrary: costs used)
  case (Cons c cs)
  from Cons show ?case
    by (cases rule: child_step_cases [of cap nodes c sub K limit fs costs used])
      (auto simp: child_steps_None length_merge_child)
qed simp

text \<open>What one edge and the subtree below it cost a completion with \<open>b c\<close> endpoints below \<open>c\<close>.\<close>

definition edge_cost :: "nat \<Rightarrow> (nat \<Rightarrow> nat) \<Rightarrow> (nat \<Rightarrow> int) \<Rightarrow> nat \<Rightarrow> int" where
  "edge_cost K b w c = int (b c) * (int K - int (b c)) + w c"

definition child_ok ::
    "pciTreeNode list \<Rightarrow> (nat \<Rightarrow> int list option) \<Rightarrow> nat \<Rightarrow> nat list \<Rightarrow> nat list \<Rightarrow>
     (nat \<Rightarrow> nat) \<Rightarrow> (nat \<Rightarrow> int) \<Rightarrow> nat \<Rightarrow> bool" where
  "child_ok nodes sub K fs cap b w c \<longleftrightarrow>
     nindex (nodes ! c) = c \<and> fs ! c \<le> b c \<and> b c \<le> cap ! c \<and> b c \<le> K \<and> 0 \<le> w c
     \<and> (w c < impossiblePCICost \<longrightarrow>
          (\<exists>cc. sub c = Some cc \<and> length cc = Suc (min (cap ! c) K) \<and> cc ! b c \<le> w c))"

lemma edge_cost_bounds:
  "child_ok nodes sub K fs cap b w c \<Longrightarrow> 0 \<le> edge_cost K b w c \<and> w c \<le> edge_cost K b w c"
  by (simp add: child_ok_def edge_cost_def)

lemma child_steps_le:
  assumes "\<And>c. c \<in> set cs \<Longrightarrow> child_ok nodes sub K fs cap b w c"
    and "length costs = Suc limit" "s + sum_list (map b cs) \<le> limit" "s \<le> used"
    and "costs ! s \<le> v" "0 \<le> v" "v + sum_list (map (edge_cost K b w) cs) < impossiblePCICost"
  shows "\<exists>costs' used'. foldl (child_step nodes sub K limit fs cap) (Some (costs, used)) cs = Some (costs', used')
      \<and> costs' ! (s + sum_list (map b cs)) \<le> v + sum_list (map (edge_cost K b w) cs)"
  using assms
proof (induction cs arbitrary: costs s used v)
  case (Cons c cs)
  have ok: "child_ok nodes sub K fs cap b w c" using Cons.prems(1) by simp
  note bounds = edge_cost_bounds [OF ok]
  have rest: "0 \<le> sum_list (map (edge_cost K b w) cs)"
    by (intro sum_list_map_int_nonneg) (meson Cons.prems(1) edge_cost_bounds list.set_intros(2))
  have small: "v < impossiblePCICost" "w c < impossiblePCICost"
    using Cons.prems(6,7) rest bounds by simp_all
  have c: "nindex (nodes ! c) = c" "fs ! c \<le> b c" "b c \<le> cap ! c" "b c \<le> K"
    using ok by (auto simp: child_ok_def)
  obtain cc where cc: "sub c = Some cc" "length cc = Suc (min (cap ! c) K)" "cc ! b c \<le> w c"
    using ok small(2) by (auto simp: child_ok_def)
  have total: "v + edge_cost K b w c + sum_list (map (edge_cost K b w) cs) < impossiblePCICost"
    "0 \<le> v + edge_cost K b w c" using Cons.prems(6,7) bounds by simp_all
  show ?case
  proof (cases rule: child_step_cases [of cap nodes c sub K limit fs costs used])
    case skip
    then have "b c = 0" using c by simp
    have "costs ! s \<le> v + edge_cost K b w c" using Cons.prems(5) bounds by simp
    from Cons.IH [OF Cons.prems(1,2) _ Cons.prems(4) this total(2,1)] Cons.prems(3) skip(2) \<open>b c = 0\<close>
    show ?thesis by (simp add: add.assoc)
  next
    case fail
    then show ?thesis using cc(1) by simp
  next
    case (merge cc')
    let ?costs = "merge_child K limit used (fs ! c) costs cc"
    have "costs ! s \<noteq> impossiblePCICost" "cc ! b c \<noteq> impossiblePCICost"
      using Cons.prems(5) cc(3) small by simp_all
    moreover have "b c < length cc" "s + b c \<le> limit" using c cc(2) Cons.prems(3) by simp_all
    ultimately have "?costs ! (s + b c) \<le> costs ! s + cc ! b c + int (b c) * (int K - int (b c))"
      using Cons.prems(4) c(2) by (intro merge_child_le)
    then have le: "?costs ! (s + b c) \<le> v + edge_cost K b w c"
      using Cons.prems(5) cc(3) by (simp add: edge_cost_def)
    have used: "s + b c \<le> min limit (used + cap ! c)" using Cons.prems(3,4) c(3) by simp
    have lim: "s + b c + sum_list (map b cs) \<le> limit" using Cons.prems(3) by simp
    from Cons.IH [OF Cons.prems(1) length_merge_child lim used le total(2,1)] merge cc(1) c(1)
    show ?thesis by (simp add: add.assoc)
  qed
qed simp

section \<open>Fuel\<close>

text \<open>One unit of fuel per node is enough, since a child has a larger index than its parent.\<close>

lemma pciSubtreeCosts_enough:
  assumes "labelled fam ps t"
  shows "n < length ps \<Longrightarrow> length ps - n \<le> fuel \<Longrightarrow>
    pciSubtreeCosts fuel (tree_nodes t) n K forced free fs cap \<noteq> None"
proof (induction fuel arbitrary: n)
  case (Suc fuel)
  have "pciSubtreeCosts fuel (tree_nodes t) c K forced free fs cap \<noteq> None"
    if "c \<in> set (nchildren (tree_nodes t ! n))" for c
    using labelled_child_larger [OF assms Suc.prems(1) that] Suc.prems(2) by (intro Suc.IH) auto
  from child_steps_total [OF this] show ?case
    by (simp add: pciSubtreeCosts_Suc Let_def del: upt_Suc)
qed simp

lemma length_pciSubtreeCosts:
  assumes "pciSubtreeCosts fuel nodes n K forced free fs cap = Some costs"
  shows "length costs = Suc (min (cap ! nindex (nodes ! n)) K)"
proof (cases fuel)
  case (Suc f)
  with assms obtain used where "foldl (child_step nodes
      (\<lambda>child. pciSubtreeCosts f nodes child K forced free fs cap) K
      (min (cap ! nindex (nodes ! n)) K) fs cap)
      (Some (map (\<lambda>count. if forced ! nindex (nodes ! n) \<le> count
            \<and> count \<le> forced ! nindex (nodes ! n) + free ! nindex (nodes ! n)
          then 0 else impossiblePCICost) [0 ..< Suc (min (cap ! nindex (nodes ! n)) K)],
        min (forced ! nindex (nodes ! n) + free ! nindex (nodes ! n)) K))
      (nchildren (nodes ! n)) = Some (costs, used)"
    by (auto simp: pciSubtreeCosts_Suc Let_def simp del: upt_Suc)
  then show ?thesis by (rule child_steps_length) simp
qed (use assms in simp)

section \<open>Admissibility of the subtree costs\<close>

text \<open>The arrays hold the endpoint counts of the chosen paths \<open>Fo\<close> and the candidates \<open>Fr\<close>.\<close>

definition endpoint_arrays ::
    "string list list \<Rightarrow> string list list \<Rightarrow> string list list \<Rightarrow> nat list \<Rightarrow> nat list \<Rightarrow> nat list \<Rightarrow>
     nat list \<Rightarrow> bool" where
  "endpoint_arrays ps Fo Fr forced free fs cap \<longleftrightarrow>
     (\<forall>n<length ps. forced ! n = located Fo (ps ! n) \<and> free ! n = located Fr (ps ! n)
        \<and> fs ! n = below Fo (ps ! n) \<and> cap ! n = below (Fo @ Fr) (ps ! n))"

text \<open>A completion takes every chosen path and some of the candidates.\<close>

definition completion :: "'a list list \<Rightarrow> 'a list list \<Rightarrow> 'a list list \<Rightarrow> bool" where
  "completion Fo Fr P \<longleftrightarrow> (\<exists>C. P = Fo @ C \<and> subseq C Fr)"

lemma completion_counts:
  assumes "completion Fo Fr P"
  shows "below Fo q \<le> below P q" "below P q \<le> below (Fo @ Fr) q"
    "located Fo q \<le> located P q" "located P q \<le> located Fo q + located Fr q"
  using assms below_subseq located_subseq
  by (auto simp: completion_def below_append located_append)

lemma subseq_subset: "subseq C Fr \<Longrightarrow> set C \<subseteq> set Fr"
  by (auto elim!: list_emb_set)

lemma completion_set: "completion Fo Fr P \<Longrightarrow> set (Fo @ Fr) \<subseteq> S \<Longrightarrow> set P \<subseteq> S"
  using subseq_subset by (fastforce simp: completion_def)

lemma edge_cost_spread:
  assumes "labelled fam ps t" "n < length ps"
  shows "sum_list (map (edge_cost K (\<lambda>c. below P (ps ! c)) (\<lambda>c. spread (set ps) P (ps ! c) (int K)))
      (nchildren (tree_nodes t ! n))) = spread (set ps) P (ps ! n) (int K)"
  unfolding spread_kids [OF labelled_chain_forest [OF assms(1)] nth_mem [OF assms(2)]] edge_cost_def
  by (rule sum_children [OF assms, of "\<lambda>q. int (below P q) * (int K - int (below P q))
      + spread (set ps) P q (int K)"])

lemma below_children:
  assumes "labelled fam ps t" "n < length ps" "set P \<subseteq> set ps"
  shows "below P (ps ! n) =
    located P (ps ! n) + sum_list (map (\<lambda>c. below P (ps ! c)) (nchildren (tree_nodes t ! n)))"
  unfolding sum_children [OF assms(1,2), of "below P"]
  by (rule below_kids [OF labelled_chain_forest [OF assms(1)] assms(3) nth_mem [OF assms(2)]])

lemma pciSubtreeCosts_le:
  assumes lab: "labelled fam ps t" and arr: "endpoint_arrays ps Fo Fr forced free fs cap"
    and P: "completion Fo Fr P" "set (Fo @ Fr) \<subseteq> set ps"
  shows "n < length ps \<Longrightarrow> length ps - n \<le> fuel \<Longrightarrow> below P (ps ! n) \<le> K \<Longrightarrow>
    spread (set ps) P (ps ! n) (int K) < impossiblePCICost \<Longrightarrow>
    \<exists>costs. pciSubtreeCosts fuel (tree_nodes t) n K forced free fs cap = Some costs
      \<and> length costs = Suc (min (cap ! n) K)
      \<and> costs ! below P (ps ! n) \<le> spread (set ps) P (ps ! n) (int K)"
proof (induction fuel arbitrary: n)
  case (Suc fuel)
  let ?cs = "nchildren (tree_nodes t ! n)" and ?b = "\<lambda>c. below P (ps ! c)"
  let ?w = "\<lambda>c. spread (set ps) P (ps ! c) (int K)"
  let ?sub = "\<lambda>c. pciSubtreeCosts fuel (tree_nodes t) c K forced free fs cap"
  let ?limit = "min (cap ! n) K"
  let ?costs = "map (\<lambda>count. if forced ! n \<le> count \<and> count \<le> forced ! n + free ! n
      then 0 else impossiblePCICost) [0 ..< Suc ?limit]"
  have n: "nindex (tree_nodes t ! n) = n" using labelled_index [OF lab Suc.prems(1)] .
  have split: "below P (ps ! n) = located P (ps ! n) + sum_list (map ?b ?cs)"
    by (rule below_children [OF lab Suc.prems(1) completion_set [OF P]])
  have arrays: "forced ! n = located Fo (ps ! n)" "free ! n = located Fr (ps ! n)"
    "cap ! n = below (Fo @ Fr) (ps ! n)" using arr Suc.prems(1) by (auto simp: endpoint_arrays_def)
  note counts = completion_counts [OF P(1)]
  have ok: "child_ok (tree_nodes t) ?sub K fs cap ?b ?w c" if c: "c \<in> set ?cs" for c
  proof -
    note larger = labelled_child_larger [OF lab Suc.prems(1) c]
    have "?b c \<le> sum_list (map ?b ?cs)" using c by (intro member_le_sum_list) auto
    then have bK: "?b c \<le> K" using split Suc.prems(3) by simp
    then have "0 \<le> ?w c" by (intro spread_nonneg) simp
    with bK Suc.IH [of c] larger Suc.prems(2) counts [of "ps ! c"] arr labelled_index [OF lab, of c]
    show ?thesis by (auto simp: child_ok_def endpoint_arrays_def)
  qed
  have limit: "located P (ps ! n) + sum_list (map ?b ?cs) \<le> ?limit"
    using split counts(2) [of "ps ! n"] arrays(3) Suc.prems(3) by simp
  have own: "located P (ps ! n) \<le> min (forced ! n + free ! n) K" "?costs ! located P (ps ! n) \<le> 0"
  proof -
    have le: "located P (ps ! n) \<le> ?limit" using limit by linarith
    then show "located P (ps ! n) \<le> min (forced ! n + free ! n) K"
      using counts(4) [of "ps ! n"] arrays(1,2) by simp
    show "?costs ! located P (ps ! n) \<le> 0"
      using counts(3,4) [of "ps ! n"] arrays(1,2) le by (subst nth_map) (auto simp del: upt_Suc)
  qed
  have small: "0 + sum_list (map (edge_cost K ?b ?w) ?cs) < impossiblePCICost"
    using Suc.prems(4) by (simp only: edge_cost_spread [OF lab Suc.prems(1)] add_0)
  from child_steps_le [where costs = ?costs and nodes = "tree_nodes t" and sub = ?sub and K = K
      and fs = fs and cap = cap and b = ?b and w = ?w and v = 0, OF ok _ limit own _ small]
  obtain costs used where run: "foldl (child_step (tree_nodes t) ?sub K ?limit fs cap)
      (Some (?costs, min (forced ! n + free ! n) K)) ?cs = Some (costs, used)"
      "costs ! (located P (ps ! n) + sum_list (map ?b ?cs)) \<le> 0 + sum_list (map (edge_cost K ?b ?w) ?cs)"
    by (auto simp del: upt_Suc)
  then have some: "pciSubtreeCosts (Suc fuel) (tree_nodes t) n K forced free fs cap = Some costs"
    by (simp add: pciSubtreeCosts_Suc Let_def n del: upt_Suc)
  moreover have "costs ! below P (ps ! n) \<le> spread (set ps) P (ps ! n) (int K)"
    using run(2) by (simp only: split edge_cost_spread [OF lab Suc.prems(1)] add_0)
  ultimately show ?case using length_pciSubtreeCosts [OF some] n by simp
qed simp

end
