(* ===== verification/PlacementBound.thy ===== *)
theory PlacementBound imports SubtreeCosts begin

text \<open>
  \<open>pciLowerBound\<close> is total and admissible: for every completion of the chosen devices with the
  given number of usable paths, it is at most the completion's cross-root pairs and total hops,
  in this order.
\<close>

section \<open>The endpoint arrays\<close>

definition paths_of :: "(string \<Rightarrow> 'a option) \<Rightarrow> string list \<Rightarrow> 'a list" where
  "paths_of path ids = List.map_filter path ids"

lemma paths_of_simps [simp]:
  "paths_of path [] = []"
  "paths_of path (i # ids) = (case path i of None \<Rightarrow> paths_of path ids | Some p \<Rightarrow> p # paths_of path ids)"
  "paths_of path (ids @ ids') = paths_of path ids @ paths_of path ids'"
  by (simp_all add: paths_of_def map_filter_simps map_filter_def split: option.splits)

lemma subseq_paths_of: "subseq ids ids' \<Longrightarrow> subseq (paths_of path ids) (paths_of path ids')"
  by (induction rule: list_emb.induct) (auto split: option.splits)

lemma tree_rep_path:
  assumes "tree_rep fam path ps t"
  shows "map_of (tree_devices t) i = None \<and> path i = None
    \<or> (\<exists>n<length ps. map_of (tree_devices t) i = Some n \<and> path i = Some (ps ! n))"
proof (cases "map_of (tree_devices t) i")
  case None
  with assms show ?thesis by (metis tree_rep_def option.map(1))
next
  case (Some n)
  with assms show ?thesis by (metis tree_rep_def option.map(2))
qed

lemma paths_of_labels:
  assumes "tree_rep fam path ps t"
  shows "set (paths_of path ids) \<subseteq> set ps"
proof (induction ids)
  case (Cons i ids)
  then show ?case using tree_rep_path [OF assms, of i] by auto
qed simp

lemma count_endpoints_located:
  assumes rep: "tree_rep fam path ps t" and n: "n < length ps"
  shows "count_endpoints t ids ! n = located (paths_of path ids) (ps ! n)"
proof -
  have lab: "labelled fam ps t" using rep by (simp add: tree_rep_def)
  let ?f = "\<lambda>i arr. case map_of (tree_devices t) i of None \<Rightarrow> arr
    | Some n \<Rightarrow> (let k = nindex (tree_nodes t ! n) in arr[k := arr ! k + 1])"
  have "length (fold ?f ids arr) = length ps \<and>
      fold ?f ids arr ! n = arr ! n + located (paths_of path ids) (ps ! n)"
    if "length arr = length ps" for arr :: "nat list"
    using that
  proof (induction ids arbitrary: arr)
    case Nil
    then show ?case by (simp add: located_def)
  next
    case (Cons i ids)
    show ?case
    proof (cases "map_of (tree_devices t) i")
      case None
      then have "path i = None" using tree_rep_path [OF rep, of i] by auto
      with None Cons show ?thesis by simp
    next
      case (Some m)
      then have m: "m < length ps" "path i = Some (ps ! m)" using tree_rep_path [OF rep, of i] by auto
      have "ps ! n = ps ! m \<longleftrightarrow> n = m"
        using labelled_distinct [OF lab] m(1) n by (simp add: nth_eq_iff_index_eq)
      then show ?thesis
        using Cons.IH [of "arr[m := arr ! m + 1]"] Cons.prems Some m n labelled_index [OF lab m(1)]
        by (auto simp: Let_def located_def nth_list_update)
    qed
  qed
  from this [of "replicate (length ps) 0"] show ?thesis
    using n labelled_length [OF lab] by (simp add: count_endpoints_def)
qed

lemma length_count_endpoints:
  "length (count_endpoints t ids) = length (tree_nodes t)"
proof -
  have "length (fold (\<lambda>i arr. case map_of (tree_devices t) i of None \<Rightarrow> arr
    | Some n \<Rightarrow> (let k = nindex (tree_nodes t ! n) in arr[k := arr ! k + (1::nat)])) ids arr) = length arr"
    for arr
    by (rule fold_keeps [where I = "\<lambda>a. length a = length arr"]) (auto split: option.splits simp: Let_def)
  then show ?thesis by (simp add: count_endpoints_def)
qed

text \<open>
  The loop from the last node down: after the nodes from \<open>k\<close> on, an entry holds its own endpoints
  and those below its children from \<open>k\<close> on.
\<close>

definition late_children :: "pciTree \<Rightarrow> nat \<Rightarrow> nat \<Rightarrow> nat list" where
  "late_children t k n = filter ((\<le>) k) (nchildren (tree_nodes t ! n))"

definition accumulated ::
    "pciTree \<Rightarrow> string list list \<Rightarrow> string list list \<Rightarrow> string list list \<Rightarrow> nat \<Rightarrow>
     nat list \<times> nat list \<Rightarrow> bool" where
  "accumulated t ps Fo Fr k acc \<longleftrightarrow>
     length (fst acc) = length ps \<and> length (snd acc) = length ps \<and>
     (\<forall>n<length ps.
        fst acc ! n = located Fo (ps ! n) + (\<Sum>m\<leftarrow>late_children t k n. below Fo (ps ! m))
        \<and> snd acc ! n = (if k \<le> n then located (Fo @ Fr) (ps ! n) else 0)
             + (\<Sum>m\<leftarrow>late_children t k n. below (Fo @ Fr) (ps ! m)))"

lemma late_children_Suc:
  assumes lab: "labelled fam ps t" and n: "n < length ps" and k: "k < length ps"
  shows "(\<Sum>m\<leftarrow>late_children t k n. f m) = (\<Sum>m\<leftarrow>late_children t (Suc k) n. f m)
    + (if nparent (tree_nodes t ! k) = Some n then f k else (0::nat))"
proof -
  let ?cs = "nchildren (tree_nodes t ! n)"
  have "distinct ?cs" unfolding labelled_children [OF lab n] by simp
  moreover have "k \<in> set ?cs \<longleftrightarrow> nparent (tree_nodes t ! k) = Some n"
    using labelled_child_larger(3) [OF lab n, of k] labelled_node [OF lab k] k
    by (auto simp: labelled_children [OF lab n] node_labelled_def)
  moreover have "distinct xs \<Longrightarrow> (\<Sum>m\<leftarrow>filter ((\<le>) k) xs. f m) =
      (\<Sum>m\<leftarrow>filter ((\<le>) (Suc k)) xs. f m) + (if k \<in> set xs then f k else 0)" for xs
  proof (induction xs)
    case (Cons x xs)
    then show ?case by (cases "x = k") (auto simp: Suc_le_eq order_le_less)
  qed simp
  ultimately show ?thesis by (simp add: late_children_def)
qed

lemma late_children_all:
  assumes lab: "labelled fam ps t" and n: "n < length ps" and "k \<le> Suc n"
  shows "late_children t k n = nchildren (tree_nodes t ! n)"
  using labelled_child_larger(1) [OF lab n, THEN Suc_leI] assms(3)
  by (auto simp: late_children_def filter_id_conv intro: order_trans)

lemma accumulate_node_step:
  assumes rep: "tree_rep fam path ps t" and k: "k < length ps"
    and sub: "set Fo \<subseteq> set ps" "set Fr \<subseteq> set ps"
    and own: "\<And>n. n < length ps \<Longrightarrow> forced ! n = located Fo (ps ! n) \<and> free ! n = located Fr (ps ! n)"
    and acc: "accumulated t ps Fo Fr (Suc k) acc"
  shows "accumulated t ps Fo Fr k (accumulate_node t forced free k acc)"
proof -
  have lab: "labelled fam ps t" using rep by (simp add: tree_rep_def)
  obtain fs cap where fc: "acc = (fs, cap)" by force
  have len: "length fs = length ps" "length cap = length ps" using acc by (auto simp: accumulated_def fc)
  have at: "fs ! n = located Fo (ps ! n) + (\<Sum>m\<leftarrow>late_children t (Suc k) n. below Fo (ps ! m))"
    "cap ! n = (if Suc k \<le> n then located (Fo @ Fr) (ps ! n) else 0)
       + (\<Sum>m\<leftarrow>late_children t (Suc k) n. below (Fo @ Fr) (ps ! m))" if "n < length ps" for n
    using acc that by (auto simp: accumulated_def fc)
  have all: "late_children t (Suc k) k = nchildren (tree_nodes t ! k)"
    by (rule late_children_all [OF lab k]) simp
  have fsk: "fs ! k = below Fo (ps ! k)"
    using at(1) [OF k] below_children [OF lab k sub(1)] by (simp add: all)
  have capk: "cap ! k + (forced ! k + free ! k) = below (Fo @ Fr) (ps ! k)"
    using at(2) [OF k] below_children [OF lab k, of "Fo @ Fr"] sub own [OF k]
    by (simp add: all located_append)
  let ?cap = "cap[k := below (Fo @ Fr) (ps ! k)]"
  have run: "accumulate_node t forced free k acc = (case nparent (tree_nodes t ! k) of
      None \<Rightarrow> (fs, ?cap)
    | Some p \<Rightarrow> (fs[p := fs ! p + below Fo (ps ! k)], ?cap[p := ?cap ! p + below (Fo @ Fr) (ps ! k)]))"
    using labelled_parent [OF lab k] k len labelled_index [OF lab]
    by (auto simp: accumulate_node_def fc capk fsk Let_def split: option.splits)
  show ?thesis
  proof (cases "nparent (tree_nodes t ! k)")
    case None
    then show ?thesis
      using run at len k late_children_Suc [OF lab _ k] capk own [OF k]
      by (auto simp: accumulated_def nth_list_update located_append)
  next
    case (Some p)
    then have p: "p < k" "p < length ps" using labelled_node [OF lab k] k by (auto simp: node_labelled_def)
    show ?thesis
      using run at len k p Some late_children_Suc [OF lab _ k] capk own [OF k]
      by (auto simp: accumulated_def nth_list_update located_append)
  qed
qed

lemma subtree_counts_arrays:
  assumes rep: "tree_rep fam path ps t"
    and "subtree_counts t (count_endpoints t chosen_ids) (count_endpoints t candidate_ids) = (fs, cap)"
  shows "endpoint_arrays ps (paths_of path chosen_ids) (paths_of path candidate_ids)
    (count_endpoints t chosen_ids) (count_endpoints t candidate_ids) fs cap"
proof -
  let ?Fo = "paths_of path chosen_ids" and ?Fr = "paths_of path candidate_ids"
  let ?forced = "count_endpoints t chosen_ids" and ?free = "count_endpoints t candidate_ids"
  have lab: "labelled fam ps t" using rep by (simp add: tree_rep_def)
  have own: "?forced ! n = located ?Fo (ps ! n) \<and> ?free ! n = located ?Fr (ps ! n)"
    if "n < length ps" for n using count_endpoints_located [OF rep that] by simp
  note sub = paths_of_labels [OF rep]
  have none: "late_children t (length ps) n = []" if "n < length ps" for n
    using labelled_child_larger(2) [OF lab that] by (auto simp: late_children_def filter_empty_conv not_le)
  have start: "accumulated t ps ?Fo ?Fr (length ps) (?forced, replicate (length ps) 0)"
    using own none labelled_length [OF lab] by (simp add: accumulated_def length_count_endpoints)
  have "accumulated t ps ?Fo ?Fr (length ps - j)
      (fold (accumulate_node t ?forced ?free) (rev [length ps - j ..< length ps]) (?forced, replicate (length ps) 0))"
    if "j \<le> length ps" for j
    using that
  proof (induction j)
    case 0
    then show ?case using start by simp
  next
    case (Suc j)
    let ?k = "length ps - Suc j"
    have k: "?k < length ps" "Suc ?k = length ps - j" using Suc.prems by auto
    then have "rev [?k ..< length ps] = rev [length ps - j ..< length ps] @ [?k]"
      by (simp add: upt_conv_Cons)
    with accumulate_node_step [OF rep k(1) sub sub own, folded k(2)] Suc k(2) show ?case by simp
  qed
  from this [of "length ps"] have "accumulated t ps ?Fo ?Fr 0 (fs, cap)"
    using assms(2) labelled_length [OF lab] by (simp add: subtree_counts_def)
  then show ?thesis
    using own below_children [OF lab _ sub, of _ chosen_ids]
      below_children [OF lab, of _ "?Fo @ ?Fr"] sub
    by (auto simp: accumulated_def endpoint_arrays_def late_children_all [OF lab])
qed

section \<open>Merging the roots\<close>

definition placement_le :: "pciPlacementCost \<Rightarrow> int \<Rightarrow> int \<Rightarrow> bool" where
  "placement_le p sep tot \<longleftrightarrow> cost_valid p \<and>
     (cost_separateRoots p < sep \<or> cost_separateRoots p = sep \<and> cost_totalDistance p \<le> tot)"

definition root_update ::
    "pciPlacementCost \<Rightarrow> nat \<Rightarrow> nat \<Rightarrow> int list \<Rightarrow> nat \<Rightarrow> pciPlacementCost list \<Rightarrow>
     pciPlacementCost list" where
  "root_update previous K e rts n nxt =
     (let cost = rts ! n in
      if e + n > K \<or> cost = impossiblePCICost then nxt
      else (let candidate = \<lparr>cost_separateRoots = cost_separateRoots previous + int e * int n,
                cost_totalDistance = cost_totalDistance previous + cost, cost_valid = True\<rparr>
            in if placement_less candidate (nxt ! (e + n)) then nxt[e + n := candidate] else nxt))"

lemma merge_root_root_update:
  "merge_root K forest rootCosts =
     fold (\<lambda>e nxt. if \<not> cost_valid (forest ! e) then nxt
        else fold (root_update (forest ! e) K e rootCosts) [0 ..< length rootCosts] nxt)
       [0 ..< length forest] (replicate (Suc K) zeroPlacementCost)"
  by (simp only: merge_root_def root_update_def [abs_def] Let_def)

lemma root_update_length: "length (root_update previous K e rootCosts n nxt) = length nxt"
  by (simp add: root_update_def Let_def)

lemma root_update_keeps:
  assumes "placement_le (nxt ! k) sep tot"
  shows "placement_le (root_update previous K e rootCosts n nxt ! k) sep tot"
  using assms
  by (cases "e + n < length nxt"; cases "k = e + n")
    (auto simp: root_update_def Let_def placement_le_def placement_less_def list_update_beyond)

lemma root_update_reaches:
  assumes "placement_le previous sep tot" "rootCosts ! c \<le> w" "rootCosts ! c \<noteq> impossiblePCICost"
    and "e + c \<le> K" "length nxt = Suc K"
  shows "placement_le (root_update previous K e rootCosts c nxt ! (e + c)) (sep + int e * int c) (tot + w)"
  using assms by (auto simp: root_update_def Let_def placement_le_def placement_less_def)

lemma merge_root_le:
  assumes e: "e < length forest" "placement_le (forest ! e) sep tot"
    and c: "c < length rootCosts" "rootCosts ! c \<le> w" "rootCosts ! c \<noteq> impossiblePCICost" "e + c \<le> K"
  shows "placement_le (merge_root K forest rootCosts ! (e + c)) (sep + int e * int c) (tot + w)"
proof -
  let ?I = "\<lambda>nxt. length nxt = Suc K"
  let ?Q = "\<lambda>nxt. placement_le (nxt ! (e + c)) (sep + int e * int c) (tot + w)"
  let ?loop = "\<lambda>e'. fold (root_update (forest ! e') K e' rootCosts) [0 ..< length rootCosts]"
  have inner: "?I nxt \<Longrightarrow> ?I (?loop e' nxt)" "?Q nxt \<Longrightarrow> ?Q (?loop e' nxt)" for e' nxt
    by (rule fold_keeps [where I = ?I]; simp add: root_update_length)
      (rule fold_keeps [where I = ?Q]; simp add: root_update_keeps)
  have c_in: "c \<in> set [0 ..< length rootCosts]" using c(1) by simp
  have hit: "?Q (?loop e nxt)" if "?I nxt" for nxt
    by (rule fold_reaches [where I = ?I and Q = ?Q, OF c_in that])
      (simp_all add: root_update_length root_update_keeps root_update_reaches [OF e(2) c(2-4)])
  have "e \<in> set [0 ..< length forest]" using e(1) by simp
  then show ?thesis
    unfolding merge_root_root_update
  proof (rule fold_reaches [where I = ?I and Q = ?Q], goal_cases)
    case (3 s)
    then show ?case using e(2) hit by (simp add: placement_le_def)
  qed (simp_all add: inner)
qed

lemma length_merge_root: "length (merge_root K forest rootCosts) = Suc K"
  unfolding merge_root_root_update
  by (rule fold_keeps [where I = "\<lambda>nxt. length nxt = Suc K"], simp)
    (auto intro!: fold_keeps [where I = "\<lambda>nxt. length nxt = Suc K"] simp: root_update_length)

section \<open>The costs of one root\<close>

lemma those_map:
  "(\<And>x. x \<in> set xs \<Longrightarrow> f x \<noteq> None) \<Longrightarrow> those (map f xs) = Some (map (\<lambda>x. the (f x)) xs)"
  by (induction xs) (auto split: option.splits)

definition root_entry ::
    "pciTree \<Rightarrow> nat \<Rightarrow> nat list \<Rightarrow> nat list \<Rightarrow> nat list \<Rightarrow> nat list \<Rightarrow> nat \<Rightarrow> nat \<Rightarrow> nat \<Rightarrow> nat \<Rightarrow>
     int option" where
  "root_entry t K forced free fs cap totalCapacity totalForced root n =
     (let r = nindex (tree_nodes t ! root);
          minimum = max (int (fs ! r)) (int K - (int totalCapacity - int (cap ! r)));
          maximum = min (int (cap ! r)) (int K - (int totalForced - int (fs ! r)))
      in if int n < minimum \<or> int n > maximum then Some impossiblePCICost
         else map_option (\<lambda>costs. costs ! n)
           (pciSubtreeCosts (length (tree_nodes t)) (tree_nodes t) root n forced free fs cap))"

lemma root_costs_entries:
  "root_costs t K forced free fs cap totC totF root =
     those (map (root_entry t K forced free fs cap totC totF root)
       [0 ..< Suc (min (cap ! nindex (tree_nodes t ! root)) K)])"
  by (simp only: root_costs_def root_entry_def [abs_def] Let_def)

lemma root_entry_total:
  assumes "labelled fam ps t" "root < length ps"
  shows "root_entry t K forced free fs cap totC totF root n \<noteq> None"
proof -
  have "pciSubtreeCosts (length (tree_nodes t)) (tree_nodes t) root n forced free fs cap \<noteq> None"
    using labelled_length [OF assms(1)] by (intro pciSubtreeCosts_enough [OF assms]) simp
  then show ?thesis by (auto simp: root_entry_def Let_def)
qed

lemma root_costs_map:
  assumes "labelled fam ps t" "root < length ps"
  shows "root_costs t K forced free fs cap totC totF root = Some (map
    (\<lambda>n. the (root_entry t K forced free fs cap totC totF root n)) [0 ..< Suc (min (cap ! root) K)])"
  unfolding root_costs_entries labelled_index [OF assms]
  by (rule those_map) (rule root_entry_total [OF assms])

lemma sum_list_diff_le:
  assumes "r \<in> set rs" "\<And>x. x \<in> set rs \<Longrightarrow> f x \<le> (g x :: nat)"
  shows "int (sum_list (map f rs)) - int (f r) \<le> int (sum_list (map g rs)) - int (g r)"
proof -
  obtain us ws where rs: "rs = us @ r # ws" using assms(1) by (meson split_list)
  have "sum_list (map f us) \<le> sum_list (map g us)" "sum_list (map f ws) \<le> sum_list (map g ws)"
    using assms(2) rs by (auto intro!: sum_list_mono)
  then show ?thesis unfolding rs by simp
qed

lemma sum_roots_below:
  assumes "labelled fam ps t" "set P \<subseteq> set ps"
  shows "sum_list (map (\<lambda>r. below P (ps ! r)) (tree_roots t)) = length P"
proof -
  note S = labelled_chain_forest [OF assms(1)]
  have root: "forest_roots (set ps) \<inter> {r. prefix r p} = {[hd p]}" if p: "p \<in> set ps" for p
  proof
    show "forest_roots (set ps) \<inter> {r. prefix r p} \<subseteq> {[hd p]}"
      by (auto simp: forest_roots_def length_Suc_conv prefix_single)
    have "take 1 p = [hd p]" "prefix [hd p] p"
      using chain_forest_nonempty [OF S p] by (cases p; simp)+
    then show "{[hd p]} \<subseteq> forest_roots (set ps) \<inter> {r. prefix r p}"
      using chain_forest_take [OF S p, of 1] by (simp add: forest_roots_def)
  qed
  have fin: "finite (forest_roots (set ps))" by (simp add: forest_roots_def)
  from assms(2) have "(\<Sum>r\<in>forest_roots (set ps). below P r) = length P"
  proof (induction P)
    case (Cons p P)
    have "(\<Sum>r\<in>forest_roots (set ps). if prefix r p then 1 else 0) = (1::nat)"
      using root [of p] Cons.prems by (simp add: sum.If_cases [OF fin])
    moreover have "below (p # P) r = (if prefix r p then 1 else 0) + below P r" for r
      by (simp add: below_def)
    ultimately show ?case using Cons by (simp add: sum.distrib)
  qed (simp add: below_def)
  then show ?thesis using sum_roots [OF assms(1), of "below P"] by simp
qed

lemma root_costs_le:
  assumes lab: "labelled fam ps t" and arr: "endpoint_arrays ps Fo Fr forced free fs cap"
    and P: "completion Fo Fr P" "set (Fo @ Fr) \<subseteq> set ps"
    and root: "root \<in> set (tree_roots t)"
    and totC: "totC = sum_list (map (\<lambda>r. cap ! r) (tree_roots t))"
    and totF: "totF = sum_list (map (\<lambda>r. fs ! r) (tree_roots t))"
    and small: "spread (set ps) P (ps ! root) (int (below P (ps ! root))) < impossiblePCICost"
  shows "\<exists>rc. root_costs t (length P) forced free fs cap totC totF root = Some rc
    \<and> below P (ps ! root) < length rc
    \<and> rc ! below P (ps ! root) \<le> spread (set ps) P (ps ! root) (int (below P (ps ! root)))"
proof -
  let ?n = "below P (ps ! root)" and ?K = "length P"
  have r: "root < length ps" using root labelled_roots(1) [OF lab] by auto
  note counts = completion_counts [OF P(1)] and sumP = sum_roots_below [OF lab completion_set [OF P]]
  have arrays: "fs ! q = below Fo (ps ! q)" "cap ! q = below (Fo @ Fr) (ps ! q)"
    if "q \<in> set (tree_roots t)" for q
    using arr labelled_roots(1) [OF lab] that by (auto simp: endpoint_arrays_def)
  have "?n \<le> ?K" by (simp add: below_def)
  moreover have "int ?K - int ?n \<le> int totC - int (cap ! root)"
    unfolding totC sumP [symmetric]
    by (rule sum_list_diff_le [OF root]) (simp add: arrays counts)
  moreover have "int totF - int (fs ! root) \<le> int ?K - int ?n"
    unfolding totF sumP [symmetric]
    by (rule sum_list_diff_le [OF root]) (simp add: arrays counts)
  moreover have "fs ! root \<le> ?n" "?n \<le> cap ! root"
    using arrays [OF root] counts [of "ps ! root"] by simp_all
  ultimately have entry: "root_entry t ?K forced free fs cap totC totF root ?n =
      map_option (\<lambda>costs. costs ! ?n)
        (pciSubtreeCosts (length (tree_nodes t)) (tree_nodes t) root ?n forced free fs cap)"
    and n: "?n < Suc (min (cap ! root) ?K)"
    by (auto simp: root_entry_def Let_def labelled_index [OF lab r] less_max_iff_disj
        min_less_iff_disj)
  obtain costs where "pciSubtreeCosts (length (tree_nodes t)) (tree_nodes t) root ?n forced free fs cap
      = Some costs" "costs ! ?n \<le> spread (set ps) P (ps ! root) (int ?n)"
    using pciSubtreeCosts_le [OF lab arr P r _ _ small, of "length (tree_nodes t)"]
      labelled_length [OF lab] by auto
  with entry n show ?thesis by (simp add: root_costs_map [OF lab r] del: upt_Suc)
qed

section \<open>pciLowerBound\<close>

definition root_step ::
    "pciTree \<Rightarrow> nat \<Rightarrow> nat list \<Rightarrow> nat list \<Rightarrow> nat list \<Rightarrow> nat list \<Rightarrow> nat \<Rightarrow> nat \<Rightarrow>
     pciPlacementCost list option \<Rightarrow> nat \<Rightarrow> pciPlacementCost list option" where
  "root_step t K forced free fs cap totC totF st root = Option.bind st (\<lambda>forest.
     if cap ! nindex (tree_nodes t ! root) = 0 then Some forest
     else Option.bind (root_costs t K forced free fs cap totC totF root)
       (\<lambda>rootCosts. Some (merge_root K forest rootCosts)))"

lemma pciLowerBound_root_steps:
  "pciLowerBound t chosen_ids candidate_ids K =
     (let forced = count_endpoints t chosen_ids; free = count_endpoints t candidate_ids;
          (fs, cap) = subtree_counts t forced free;
          totC = sum_list (map (\<lambda>root. cap ! nindex (tree_nodes t ! root)) (tree_roots t));
          totF = sum_list (map (\<lambda>root. fs ! nindex (tree_nodes t ! root)) (tree_roots t))
      in map_option (\<lambda>forest. forest ! K)
           (foldl (root_step t K forced free fs cap totC totF)
             (Some ((replicate (Suc K) zeroPlacementCost) [0 := zeroPlacementCost\<lparr>cost_valid := True\<rparr>]))
             (tree_roots t)))"
  by (simp only: pciLowerBound_def root_step_def [abs_def] Let_def)

lemma root_steps_total:
  assumes "labelled fam ps t" "set rs \<subseteq> {..<length ps}"
  shows "foldl (root_step t K forced free fs cap totC totF) (Some forest) rs \<noteq> None"
  using assms(2)
proof (induction rs arbitrary: forest)
  case (Cons r rs)
  then show ?case by (simp add: root_step_def root_costs_map [OF assms(1)])
qed simp

lemma root_steps_le:
  assumes lab: "labelled fam ps t" and P: "set P \<subseteq> set ps" and K: "K = length P"
    and costs: "\<And>r. r \<in> set rs \<Longrightarrow> below P (ps ! r) \<le> cap ! r \<and>
      spread (set ps) P (ps ! r) (int (below P (ps ! r))) < impossiblePCICost \<and>
      (\<exists>rc. root_costs t K forced free fs cap totC totF r = Some rc \<and> below P (ps ! r) < length rc
        \<and> rc ! below P (ps ! r) \<le> spread (set ps) P (ps ! r) (int (below P (ps ! r))))"
    and rs: "set rs \<subseteq> set (tree_roots t)" "distinct rs" "\<And>r. r \<in> set rs \<Longrightarrow> hd (ps ! r) \<notin> H"
    and forest: "length forest = Suc K" "placement_le (forest ! count_in H P) (cross_in H P) tot"
  shows "\<exists>forest'. foldl (root_step t K forced free fs cap totC totF) (Some forest) rs = Some forest'
    \<and> placement_le (forest' ! count_in (H \<union> (\<lambda>r. hd (ps ! r)) ` set rs) P)
        (cross_in (H \<union> (\<lambda>r. hd (ps ! r)) ` set rs) P)
        (tot + (\<Sum>r\<leftarrow>rs. spread (set ps) P (ps ! r) (int (below P (ps ! r)))))"
  using costs rs forest
proof (induction rs arbitrary: H forest tot)
  case (Cons r rs)
  note S = labelled_chain_forest [OF lab]
  let ?n = "below P (ps ! r)" and ?w = "spread (set ps) P (ps ! r) (int (below P (ps ! r)))"
  let ?h = "hd (ps ! r)"
  have ne: "[] \<notin> set P" using S P by (auto simp: chain_forest_def)
  have r: "r < length ps" "ps ! r = [?h]"
    using Cons.prems(2) labelled_roots(1,4) [OF lab, of] by (auto simp: subset_iff)
  have h: "?h \<notin> H" using Cons.prems(4) by simp
  have counts: "count_in (insert ?h H) P = count_in H P + ?n"
    "cross_in (insert ?h H) P = cross_in H P + int (count_in H P) * int ?n"
    using count_in_insert [OF h ne] cross_in_insert [OF h ne] r(2) by simp_all
  have heads: "hd (ps ! q) \<notin> insert ?h H" if "q \<in> set rs" for q
  proof -
    have "q \<noteq> r" "q < length ps" "ps ! q = [hd (ps ! q)]"
      using that Cons.prems(2,3) labelled_roots(1,4) [OF lab] by auto
    then have "hd (ps ! q) \<noteq> ?h"
      using r labelled_distinct [OF lab] by (metis nth_eq_iff_index_eq)
    with Cons.prems(4) that show ?thesis by auto
  qed
  have next_step: "\<exists>forest'. root_step t K forced free fs cap totC totF (Some forest) r = Some forest'
    \<and> length forest' = Suc K
    \<and> placement_le (forest' ! count_in (insert ?h H) P) (cross_in (insert ?h H) P) (tot + ?w)"
  proof (cases "cap ! r = 0")
    case True
    then have "?n = 0" using Cons.prems(1) [of r] by simp
    moreover have "0 \<le> ?w" by (rule spread_nonneg) simp
    ultimately show ?thesis
      using True Cons.prems(5,6) counts labelled_index [OF lab r(1)]
      by (auto simp: root_step_def placement_le_def)
  next
    case False
    obtain rc where rc: "root_costs t K forced free fs cap totC totF r = Some rc" "?n < length rc"
      "rc ! ?n \<le> ?w" "?w < impossiblePCICost" using Cons.prems(1) [of r] by auto
    have e: "count_in H P < length forest" using Cons.prems(5) by (simp add: K count_in_def le_imp_less_Suc)
    have "count_in (insert ?h H) P \<le> K" by (simp add: K count_in_def)
    then have "placement_le (merge_root K forest rc ! (count_in H P + ?n))
        (cross_in H P + int (count_in H P) * int ?n) (tot + ?w)"
      using rc counts by (intro merge_root_le [OF e Cons.prems(6)]) auto
    with False rc(1) counts labelled_index [OF lab r(1)] show ?thesis
      by (simp add: root_step_def length_merge_root)
  qed
  then obtain forest' where f: "root_step t K forced free fs cap totC totF (Some forest) r = Some forest'"
    "length forest' = Suc K"
    "placement_le (forest' ! count_in (insert ?h H) P) (cross_in (insert ?h H) P) (tot + ?w)" by blast
  from Cons.IH [OF Cons.prems(1) _ _ heads f(2,3)] Cons.prems(2,3) f(1)
  show ?case by (simp add: add.assoc)
qed simp

lemma pciLowerBound_total:
  assumes "tree_rep fam path ps t"
  shows "pciLowerBound t chosen_ids candidate_ids K \<noteq> None"
proof -
  have lab: "labelled fam ps t" using assms by (simp add: tree_rep_def)
  show ?thesis
    using root_steps_total [OF lab labelled_roots(1) [OF lab]]
    by (simp add: pciLowerBound_root_steps Let_def split: prod.split del: replicate_Suc)
qed

text \<open>
  A completion of the chosen devices with \<open>K\<close> usable paths whose total distance is below the
  sentinel: the bound is valid and not above the completion.
\<close>

lemma pciLowerBound_admissible:
  assumes rep: "tree_rep fam path ps t"
    and P: "P = paths_of path (chosen_ids @ C)" "subseq C candidate_ids"
    and small: "pair_sum path_hops P < impossiblePCICost"
  shows "\<exists>pci. pciLowerBound t chosen_ids candidate_ids (length P) = Some pci
    \<and> placement_le pci (pair_sum path_cross P) (pair_sum path_hops P)"
proof -
  have lab: "labelled fam ps t" using rep by (simp add: tree_rep_def)
  note S = labelled_chain_forest [OF lab]
  let ?Fo = "paths_of path chosen_ids" and ?Fr = "paths_of path candidate_ids" and ?K = "length P"
  let ?forced = "count_endpoints t chosen_ids" and ?free = "count_endpoints t candidate_ids"
  obtain fs cap where fc: "subtree_counts t ?forced ?free = (fs, cap)" by force
  note arr = subtree_counts_arrays [OF rep fc]
  have compl: "completion ?Fo ?Fr P" "set (?Fo @ ?Fr) \<subseteq> set ps"
    using P subseq_paths_of paths_of_labels [OF rep] by (auto simp: completion_def)
  have PS: "set P \<subseteq> set ps" by (rule completion_set [OF compl])
  let ?w = "\<lambda>r. spread (set ps) P (ps ! r) (int (below P (ps ! r)))"
  have hops: "pair_sum path_hops P = (\<Sum>r\<leftarrow>tree_roots t. ?w r)"
    using pair_sum_hops_roots [OF S PS]
      sum_roots [OF lab, of "\<lambda>q. spread (set ps) P q (int (below P q))"] by simp
  have nonneg: "0 \<le> ?w r" for r by (rule spread_nonneg) simp
  have w_small: "?w r < impossiblePCICost" if "r \<in> set (tree_roots t)" for r
  proof -
    have "?w r \<le> (\<Sum>r\<leftarrow>tree_roots t. ?w r)"
      using split_list [OF that] nonneg
      by (auto simp: add.commute intro!: sum_list_map_int_nonneg add_increasing2 add_nonneg_nonneg)
    with small show ?thesis by (simp add: hops)
  qed
  let ?totC = "sum_list (map (\<lambda>r. cap ! r) (tree_roots t))"
  let ?totF = "sum_list (map (\<lambda>r. fs ! r) (tree_roots t))"
  have costs: "below P (ps ! r) \<le> cap ! r \<and> ?w r < impossiblePCICost \<and>
      (\<exists>rc. root_costs t ?K ?forced ?free fs cap ?totC ?totF r = Some rc
        \<and> below P (ps ! r) < length rc \<and> rc ! below P (ps ! r) \<le> ?w r)"
    if r: "r \<in> set (tree_roots t)" for r
    using root_costs_le [OF lab arr compl r refl refl w_small [OF r]] w_small [OF r]
      completion_counts(2) [OF compl(1)] arr labelled_roots(1) [OF lab] r
    by (auto simp: endpoint_arrays_def)
  let ?start = "(replicate (Suc ?K) zeroPlacementCost) [0 := zeroPlacementCost\<lparr>cost_valid := True\<rparr>]"
  have start: "length ?start = Suc ?K" "placement_le (?start ! count_in {} P) (cross_in {} P) 0"
    by (simp_all add: placement_le_def zeroPlacementCost_def)
  have heads: "\<forall>p\<in>set P. hd p \<in> {} \<union> (\<lambda>r. hd (ps ! r)) ` set (tree_roots t)"
  proof
    fix p assume "p \<in> set P"
    then have p: "p \<in> set ps" using PS by auto
    have "take 1 p = [hd p]" using chain_forest_nonempty [OF S p] by (cases p) simp_all
    then have "[hd p] \<in> forest_roots (set ps)"
      using chain_forest_take [OF S p, of 1] by (simp add: forest_roots_def)
    then obtain r where "r \<in> set (tree_roots t)" "ps ! r = [hd p]"
      unfolding labelled_roots(3) [OF lab, symmetric] by auto
    then show "hd p \<in> {} \<union> (\<lambda>r. hd (ps ! r)) ` set (tree_roots t)" by force
  qed
  have "hd (ps ! r) \<notin> {}" for r by simp
  from root_steps_le [where rs = "tree_roots t", OF lab PS refl costs subset_refl
      labelled_roots(2) [OF lab] this start]
  obtain forest where "foldl (root_step t ?K ?forced ?free fs cap ?totC ?totF) (Some ?start)
      (tree_roots t) = Some forest"
    "placement_le (forest ! ?K) (pair_sum path_cross P) (pair_sum path_hops P)"
    unfolding count_in_all [OF heads] cross_in_all [OF heads] add_0 hops [symmetric] by blast
  moreover have "map (\<lambda>r. cap ! nindex (tree_nodes t ! r)) (tree_roots t) = map (\<lambda>r. cap ! r) (tree_roots t)"
    "map (\<lambda>r. fs ! nindex (tree_nodes t ! r)) (tree_roots t) = map (\<lambda>r. fs ! r) (tree_roots t)"
    using labelled_roots(1) [OF lab] labelled_index [OF lab] by auto
  ultimately show ?thesis
    by (simp only: pciLowerBound_root_steps Let_def fc prod.case) simp
qed

end
