(* ===== verification/AllocatorBuild.thy ===== *)
theory AllocatorBuild imports Scores begin

text \<open>
  What \<open>newTopologyAllocator\<close> builds: it always returns, lists the devices in the order of their
  identifiers, and replaces SID groups, NUMA nodes and PCI paths by numbers without merging or
  splitting any of them.
\<close>

section \<open>Interning keys\<close>

definition intern_ok :: "('k \<times> nat) list \<Rightarrow> bool" where
  "intern_ok m \<longleftrightarrow> (\<forall>k v. map_of m k = Some v \<longrightarrow> v < length m)
     \<and> (\<forall>k k' v. map_of m k = Some v \<longrightarrow> map_of m k' = Some v \<longrightarrow> k = k')"

lemma length_update_new: "map_of m k = None \<Longrightarrow> length (AList.update k v m) = Suc (length m)"
  by (induction m) (auto split: if_splits)

lemma intern_key_ok:
  assumes "intern_ok m"
  shows "intern_ok (intern_key k m)" "\<exists>v. map_of (intern_key k m) k = Some v \<and> v < length (intern_key k m)"
    "map_of m k' = Some v' \<Longrightarrow> map_of (intern_key k m) k' = Some v'"
proof -
  show "intern_ok (intern_key k m)"
  proof (cases "map_of m k")
    case None
    have "v < Suc (length m)" if "map_of m k' = Some v" for k' v
      using assms that unfolding intern_ok_def by (metis less_SucI)
    moreover have "v \<noteq> length m" if "map_of m k' = Some v" for k' v
      using assms that unfolding intern_ok_def by (metis less_irrefl)
    ultimately show ?thesis
      using None assms unfolding intern_ok_def
      by (auto simp: intern_key_def map_of_AList_update length_update_new)
  qed (use assms in \<open>simp add: intern_key_def\<close>)
  show "\<exists>v. map_of (intern_key k m) k = Some v \<and> v < length (intern_key k m)"
    using assms unfolding intern_ok_def
    by (auto simp: intern_key_def map_of_AList_update length_update_new split: option.split)
  show "map_of m k' = Some v' \<Longrightarrow> map_of (intern_key k m) k' = Some v'"
    by (auto simp: intern_key_def map_of_AList_update split: option.split)
qed

lemma intern_key_obtain:
  assumes "intern_ok m"
  obtains v where "map_of (intern_key k m) k = Some v"
  using intern_key_ok(2) [OF assms] by blast

section \<open>The loop over the devices\<close>

definition device_built ::
    "npuDevice go_map \<Rightarrow> pciTree \<Rightarrow> nat go_map \<Rightarrow> (int \<times> nat) list \<Rightarrow> allocationDevice \<Rightarrow> bool" where
  "device_built devices tree sids numas d \<longleftrightarrow>
     map_of sids (sid_key (ad_id d) (device_at devices (ad_id d))) = Some (ad_sid d)
     \<and> (case numa_value (device_at devices (ad_id d)) of
          None \<Rightarrow> ad_numa d = -1
        | Some v \<Rightarrow> \<exists>k. map_of numas v = Some k \<and> ad_numa d = int k)
     \<and> (ad_hasPCI d \<longleftrightarrow> map_of (tree_devices tree) (ad_id d) \<noteq> None)"

definition build_ok :: "npuDevice go_map \<Rightarrow> pciTree \<Rightarrow> string list \<Rightarrow> allocator_build \<Rightarrow> bool" where
  "build_ok devices tree ids b \<longleftrightarrow>
     map ad_id (ab_devices b) = ids \<and> intern_ok (ab_sids b) \<and> intern_ok (ab_numas b)
     \<and> (\<forall>k<length ids. map_of (ab_byID b) (ids ! k) = Some k)
     \<and> (\<forall>d\<in>set (ab_devices b). device_built devices tree (ab_sids b) (ab_numas b) d)"

lemma device_built_mono:
  assumes "device_built devices tree sids numas d"
    and "\<And>k v. map_of sids k = Some v \<Longrightarrow> map_of sids' k = Some v"
    and "\<And>k v. map_of numas k = Some v \<Longrightarrow> map_of numas' k = Some v"
  shows "device_built devices tree sids' numas' d"
  using assms by (auto simp: device_built_def split: option.splits)

lemma add_allocator_device_ok:
  assumes b: "build_ok devices tree ids b" and new: "i \<notin> set ids"
  shows "build_ok devices tree (ids @ [i]) (add_allocator_device devices tree i b)"
proof -
  let ?d = "device_at devices i"
  let ?sids = "intern_key (sid_key i ?d) (ab_sids b)"
  let ?numas = "case numa_value ?d of None \<Rightarrow> ab_numas b | Some v \<Rightarrow> intern_key v (ab_numas b)"
  have ok: "intern_ok (ab_sids b)" "intern_ok (ab_numas b)" "map ad_id (ab_devices b) = ids"
    using b by (auto simp: build_ok_def)
  obtain s where s: "map_of ?sids (sid_key i ?d) = Some s" by (rule intern_key_obtain [OF ok(1)])
  have numas_ok: "intern_ok ?numas" using ok(2) intern_key_ok(1) by (auto split: option.split)
  have keep: "map_of ?numas v = Some k" if "map_of (ab_numas b) v = Some k" for v k
    using intern_key_ok(3) [OF ok(2) that] that by (auto split: option.split)
  have old: "device_built devices tree ?sids ?numas d" if "d \<in> set (ab_devices b)" for d
    by (rule device_built_mono [of devices tree "ab_sids b" "ab_numas b"])
      (use b that intern_key_ok(3) [OF ok(1)] keep in \<open>auto simp: build_ok_def\<close>)
  have byID: "map_of (AList.update i (length (ab_devices b)) (ab_byID b)) ((ids @ [i]) ! k) = Some k"
    if "k < length (ids @ [i])" for k
  proof (cases "k < length ids")
    case True
    then have "ids ! k \<noteq> i" using new nth_mem by metis
    with True b show ?thesis by (simp add: build_ok_def map_of_AList_update nth_append)
  next
    case False
    then have "k = length ids" using that by simp
    with ok(3) show ?thesis by (auto simp: map_of_AList_update)
  qed
  show ?thesis
  proof (cases "numa_value ?d")
    case None
    then show ?thesis
      using ok s old byID intern_key_ok(1) [OF ok(1)] numas_ok
      by (auto simp: build_ok_def add_allocator_device_def Let_def device_built_def)
  next
    case (Some v)
    obtain k where "map_of (intern_key v (ab_numas b)) v = Some k" by (rule intern_key_obtain [OF ok(2)])
    with Some show ?thesis
      using ok s old byID intern_key_ok(1) [OF ok(1)] numas_ok
      by (auto simp: build_ok_def add_allocator_device_def Let_def device_built_def)
  qed
qed

lemma add_allocator_devices_ok:
  "build_ok devices tree ids b \<Longrightarrow> distinct (ids @ ids') \<Longrightarrow>
     build_ok devices tree (ids @ ids') (fold (add_allocator_device devices tree) ids' b)"
proof (induction ids' arbitrary: ids b)
  case (Cons i ids')
  then have "build_ok devices tree (ids @ [i]) (add_allocator_device devices tree i b)"
    by (intro add_allocator_device_ok) auto
  from Cons.IH [OF this] Cons.prems(2) show ?case by simp
qed simp

section \<open>newTopologyAllocator\<close>

definition id_at :: "topologyAllocator \<Rightarrow> nat \<Rightarrow> string" where
  "id_at a k = ad_id (al_devices a ! k)"

text \<open>The specification of the allocator of an inventory.\<close>

definition allocator_for :: "filesystem \<Rightarrow> npuDevice go_map \<Rightarrow> topologyAllocator \<Rightarrow> bool" where
  "allocator_for fs devices a \<longleftrightarrow>
     map ad_id (al_devices a) = sortedDeviceIDs devices
     \<and> al_tree a = newPCITree fs devices
     \<and> (\<forall>k<length (al_devices a). map_of (al_byID a) (id_at a k) = Some k)
     \<and> indices_ok a
     \<and> (\<forall>i<length (al_devices a). \<forall>j<length (al_devices a).
          ad_sid (dev_of a i) = ad_sid (dev_of a j) \<longleftrightarrow>
            sid_key (id_at a i) (device_at devices (id_at a i))
              = sid_key (id_at a j) (device_at devices (id_at a j)))
     \<and> (\<forall>i<length (al_devices a).
          ad_numa (dev_of a i) < 0 \<longleftrightarrow> numa_value (device_at devices (id_at a i)) = None)
     \<and> (\<forall>i<length (al_devices a). \<forall>j<length (al_devices a).
          0 \<le> ad_numa (dev_of a i) \<longrightarrow>
            (ad_numa (dev_of a i) = ad_numa (dev_of a j) \<longleftrightarrow>
             numa_value (device_at devices (id_at a i)) = numa_value (device_at devices (id_at a j))))
     \<and> (\<forall>i<length (al_devices a). ad_hasPCI (dev_of a i) \<longleftrightarrow> device_path fs devices (id_at a i) \<noteq> None)
     \<and> (\<forall>i<length (al_devices a). \<forall>j<length (al_devices a).
          al_pairs a ! i ! j = path_distance (device_path fs devices (id_at a i))
                                 (device_path fs devices (id_at a j)))"

lemma those_map_Some:
  "(\<And>x. x \<in> set xs \<Longrightarrow> f x = Some (g x)) \<Longrightarrow> those (map f xs) = Some (map g xs)"
  by (induction xs) auto

lemma build_ok_sid:
  assumes "build_ok devices tree ids b" "d \<in> set (ab_devices b)" "e \<in> set (ab_devices b)"
  shows "ad_sid d < length (ab_sids b)"
    "ad_sid d = ad_sid e \<longleftrightarrow> sid_key (ad_id d) (device_at devices (ad_id d))
       = sid_key (ad_id e) (device_at devices (ad_id e))"
proof -
  have bound: "v < length (ab_sids b)" "map_of (ab_sids b) k' = Some v \<longrightarrow> k = k'"
    if "map_of (ab_sids b) k = Some v" for k k' v
    using assms(1) that by (auto simp: build_ok_def intern_ok_def)
  have sid: "map_of (ab_sids b) (sid_key (ad_id x) (device_at devices (ad_id x))) = Some (ad_sid x)"
    if "x \<in> set (ab_devices b)" for x
    using assms(1) that by (simp add: build_ok_def device_built_def)
  show "ad_sid d < length (ab_sids b)" by (rule bound(1) [OF sid [OF assms(2)]])
  show "ad_sid d = ad_sid e \<longleftrightarrow> sid_key (ad_id d) (device_at devices (ad_id d))
       = sid_key (ad_id e) (device_at devices (ad_id e))"
    using sid [OF assms(2)] sid [OF assms(3)] bound(2) by auto
qed

lemma build_ok_numa:
  assumes b: "build_ok devices tree ids b" and d: "d \<in> set (ab_devices b)"
  shows "ad_numa d < int (length (ab_numas b))"
    "ad_numa d < 0 \<longleftrightarrow> numa_value (device_at devices (ad_id d)) = None"
    "e \<in> set (ab_devices b) \<Longrightarrow> 0 \<le> ad_numa d \<Longrightarrow> ad_numa d = ad_numa e \<longleftrightarrow>
       numa_value (device_at devices (ad_id d)) = numa_value (device_at devices (ad_id e))"
proof -
  have bound: "v < length (ab_numas b)" "map_of (ab_numas b) k' = Some v \<longrightarrow> k = k'"
    if "map_of (ab_numas b) k = Some v" for k k' v
    using b that by (auto simp: build_ok_def intern_ok_def)
  have built: "device_built devices tree (ab_sids b) (ab_numas b) x" if "x \<in> set (ab_devices b)" for x
    using b that by (simp add: build_ok_def)
  show "ad_numa d < int (length (ab_numas b))"
    "ad_numa d < 0 \<longleftrightarrow> numa_value (device_at devices (ad_id d)) = None"
    using built [OF d] bound(1) by (auto simp: device_built_def split: option.splits)
  assume e: "e \<in> set (ab_devices b)" and "0 \<le> ad_numa d"
  with built [OF d] built [OF e] bound(2) show "ad_numa d = ad_numa e \<longleftrightarrow>
       numa_value (device_at devices (ad_id d)) = numa_value (device_at devices (ad_id e))"
    by (auto simp: device_built_def split: option.splits)
qed

lemma newTopologyAllocator_for:
  assumes "go_map_ok devices"
  shows "\<exists>a. newTopologyAllocator fs devices = Some a \<and> allocator_for fs devices a"
proof -
  let ?tree = "newPCITree fs devices" and ?ids = "sortedDeviceIDs devices"
  let ?start = "\<lparr>ab_devices = [], ab_byID = [], ab_sids = [], ab_numas = []\<rparr>"
  define b where "b = fold (add_allocator_device devices ?tree) ?ids ?start"
  obtain ps where rep: "tree_rep (ancestor_family fs) (device_path fs devices) ps ?tree"
    using newPCITree_rep by blast
  have "build_ok devices ?tree ([] @ ?ids) b"
    unfolding b_def using assms
    by (intro add_allocator_devices_ok) (auto simp: build_ok_def intern_ok_def)
  then have b: "build_ok devices ?tree ?ids b" by simp
  let ?pair = "\<lambda>x y. path_distance (device_path fs devices (ad_id x)) (device_path fs devices (ad_id y))"
  define a where "a = \<lparr>al_devices = ab_devices b, al_byID = ab_byID b,
    al_pairs = map (\<lambda>x. map (?pair x) (ab_devices b)) (ab_devices b), al_tree = ?tree,
    al_sidCount = length (ab_sids b), al_numaCount = length (ab_numas b)\<rparr>"
  have "those (map (\<lambda>src. those (map (\<lambda>dst. tree_distance ?tree (ad_id src) (ad_id dst)) (ab_devices b)))
      (ab_devices b)) = Some (al_pairs a)"
    unfolding a_def by (auto simp: tree_distance_path [OF rep] intro!: those_map_Some)
  then have "newTopologyAllocator fs devices = Some a"
    by (simp add: newTopologyAllocator_def b_def [symmetric] Let_def a_def)
  moreover have "allocator_for fs devices a"
  proof -
    have mem: "i < length (al_devices a) \<Longrightarrow> al_devices a ! i \<in> set (ab_devices b)" for i
      by (simp add: a_def)
    have hasPCI: "ad_hasPCI d \<longleftrightarrow> device_path fs devices (ad_id d) \<noteq> None" if "d \<in> set (ab_devices b)" for d
    proof -
      have "ad_hasPCI d \<longleftrightarrow> map_of (tree_devices ?tree) (ad_id d) \<noteq> None"
        using b that by (simp add: build_ok_def device_built_def)
      moreover have "map_option (\<lambda>n. ps ! n) (map_of (tree_devices ?tree) (ad_id d))
          = device_path fs devices (ad_id d)" using rep by (simp add: tree_rep_def)
      ultimately show ?thesis by (metis map_option_is_None)
    qed
    have ids: "map ad_id (al_devices a) = ?ids" using b by (simp add: build_ok_def a_def)
    moreover have "\<forall>k<length (al_devices a). map_of (al_byID a) (id_at a k) = Some k"
    proof (intro allI impI)
      fix k assume k: "k < length (al_devices a)"
      then have "id_at a k = ?ids ! k" "k < length ?ids"
        unfolding ids [symmetric] by (simp_all add: id_at_def)
      then show "map_of (al_byID a) (id_at a k) = Some k" using b by (simp add: build_ok_def a_def)
    qed
    moreover have "indices_ok a"
      using build_ok_sid(1) [OF b] build_ok_numa(1) [OF b] by (simp add: indices_ok_def a_def)
    ultimately show ?thesis
      using build_ok_sid(2) [OF b mem mem] build_ok_numa(2,3) [OF b mem] mem hasPCI [OF mem]
      unfolding allocator_for_def id_at_def
      by (intro conjI) (simp_all add: a_def)
  qed
  ultimately show ?thesis by blast
qed

end
