(* ===== verification/ScoreBounds.thy ===== *)
theory ScoreBounds imports SearchRefine PlacementBound AllocatorBuild begin

text \<open>
  \<open>lowerBound\<close> never exceeds the score of a completion.  Each ingredient, the greedy count of SID
  groups, the missing metadata, the cheap distance bound, the diameter bound and the forest bound
  of theory \<open>PlacementBound\<close>, has its lemma.
\<close>

section \<open>The geometry behind the pair table\<close>

text \<open>
  The sizes for which the sentinel cost is out of reach: at most \<open>2 ^ 20\<close> devices, and chains of
  at most 4096 PCI functions (a sysfs path is shorter than \<open>PATH_MAX\<close>).
\<close>

definition small_tree :: "topologyAllocator \<Rightarrow> (string \<Rightarrow> 'a list option) \<Rightarrow> bool" where
  "small_tree a path \<longleftrightarrow> length (al_devices a) \<le> 2 ^ 20
     \<and> (\<forall>i p. path i = Some p \<longrightarrow> length p \<le> 4096)"

definition geometry ::
    "topologyAllocator \<Rightarrow> string list set \<Rightarrow> (string \<Rightarrow> string list option) \<Rightarrow>
     string list list \<Rightarrow> bool" where
  "geometry a fam path ps \<longleftrightarrow> tree_rep fam path ps (al_tree a) \<and> small_tree a path \<and> indices_ok a
     \<and> (\<forall>i<length (al_devices a). ad_hasPCI (dev_of a i) \<longleftrightarrow> path (id_at a i) \<noteq> None)
     \<and> (\<forall>i<length (al_devices a). \<forall>j<length (al_devices a).
          al_pairs a ! i ! j = path_distance (path (id_at a i)) (path (id_at a j)))"

definition lift2 :: "('b \<Rightarrow> 'b \<Rightarrow> int) \<Rightarrow> 'b option \<Rightarrow> 'b option \<Rightarrow> int" where
  "lift2 f x y = (case (x, y) of (Some p, Some q) \<Rightarrow> f p q | _ \<Rightarrow> 0)"

lemma lift2_simps [simp]:
  "lift2 f None y = 0" "lift2 f x None = 0" "lift2 f (Some p) (Some q) = f p q"
  by (auto simp: lift2_def split: option.split)

lemma sum_lift2: "(\<Sum>y\<leftarrow>F. lift2 f (g y) (Some q)) = (\<Sum>p\<leftarrow>List.map_filter g F. f p q)"
  by (induction F) (auto simp: map_filter_simps split: option.split)

lemma pair_sum_lift2: "pair_sum (\<lambda>x y. lift2 f (g x) (g y)) F = pair_sum f (List.map_filter g F)"
proof (induction F)
  case (Cons x F)
  show ?case
  proof (cases "g x")
    case None
    then show ?thesis using Cons by (simp add: pair_sum_Cons map_filter_simps)
  next
    case (Some q)
    then show ?thesis using Cons sum_lift2 [of f g q F] by (simp add: pair_sum_Cons map_filter_simps)
  qed
qed (simp add: map_filter_simps)

lemma path_distance_fields:
  "pair_sep (path_distance p q) = lift2 path_cross p q"
  "pair_dist (path_distance p q) = lift2 path_hops p q"
  "pair_hops (path_distance p q) = pair_dist (path_distance p q)"
  by (auto simp: path_distance_def pair_sep_def pair_dist_def lift2_def path_cross_def path_hops_def
      zeroPCIDistance_def split: option.splits)

definition paths_at :: "topologyAllocator \<Rightarrow> (string \<Rightarrow> 'a option) \<Rightarrow> nat list \<Rightarrow> 'a list" where
  "paths_at a path F = paths_of path (map (id_at a) F)"

lemma paths_at_filter: "paths_at a path F = List.map_filter (\<lambda>i. path (id_at a i)) F"
  by (induction F) (auto simp: paths_at_def map_filter_simps split: option.split)

lemma geometry_pairs:
  assumes "geometry a fam path ps" "i < length (al_devices a)" "j < length (al_devices a)"
  shows "sep_of a i j = lift2 path_cross (path (id_at a i)) (path (id_at a j))"
    "dist_of a i j = lift2 path_hops (path (id_at a i)) (path (id_at a j))"
    "pair_hops (al_pairs a ! i ! j) = dist_of a i j"
    "pair_known (al_pairs a ! i ! j) \<longleftrightarrow> ad_hasPCI (dev_of a i) \<and> ad_hasPCI (dev_of a j) \<and> sep_of a i j = 0"
    "al_pairs a ! i ! j = al_pairs a ! j ! i"
    "0 \<le> dist_of a i j"
proof -
  have eq: "al_pairs a ! i ! j = path_distance (path (id_at a i)) (path (id_at a j))"
    "al_pairs a ! j ! i = path_distance (path (id_at a j)) (path (id_at a i))"
    "ad_hasPCI (dev_of a i) \<longleftrightarrow> path (id_at a i) \<noteq> None"
    "ad_hasPCI (dev_of a j) \<longleftrightarrow> path (id_at a j) \<noteq> None"
    using assms by (auto simp: geometry_def)
  then show "sep_of a i j = lift2 path_cross (path (id_at a i)) (path (id_at a j))"
    "dist_of a i j = lift2 path_hops (path (id_at a i)) (path (id_at a j))"
    "pair_hops (al_pairs a ! i ! j) = dist_of a i j"
    by (simp_all add: sep_of_def dist_of_def path_distance_fields)
  show "pair_known (al_pairs a ! i ! j) \<longleftrightarrow> ad_hasPCI (dev_of a i) \<and> ad_hasPCI (dev_of a j) \<and> sep_of a i j = 0"
    unfolding eq(3,4) sep_of_def eq(1) path_distance_fields
    by (auto simp: path_distance_def path_cross_def zeroPCIDistance_def split: option.splits)
  show "al_pairs a ! i ! j = al_pairs a ! j ! i" using eq(1,2) path_distance_sym by metis
  show "0 \<le> dist_of a i j"
    using eq(1) path_distance_hops_nonneg
    by (simp add: dist_of_def flip: path_distance_fields(3))
qed

definition in_range :: "topologyAllocator \<Rightarrow> nat list \<Rightarrow> bool" where
  "in_range a F \<longleftrightarrow> set F \<subseteq> {..<length (al_devices a)}"

lemma pairs_of_mem: "(x, y) \<in> set (pairs_of F) \<Longrightarrow> x \<in> set F \<and> y \<in> set F"
  by (induction F) auto

lemma in_range_pairs:
  "in_range a F \<Longrightarrow> (x, y) \<in> set (pairs_of F) \<Longrightarrow>
     x < length (al_devices a) \<and> y < length (al_devices a)"
  by (auto simp: in_range_def dest!: pairs_of_mem)

lemma geometry_sums:
  assumes g: "geometry a fam path ps" and F: "in_range a F"
  shows "pair_sum (sep_of a) F = pair_sum path_cross (paths_at a path F)"
    "pair_sum (dist_of a) F = pair_sum path_hops (paths_at a path F)"
    "int (length (paths_at a path F)) = known_pci a F"
proof -
  have "pair_sum (sep_of a) F = pair_sum (\<lambda>i j. lift2 path_cross (path (id_at a i)) (path (id_at a j))) F"
    using in_range_pairs [OF F] geometry_pairs(1) [OF g] by (intro pair_sum_cong) auto
  then show "pair_sum (sep_of a) F = pair_sum path_cross (paths_at a path F)"
    by (simp add: paths_at_filter pair_sum_lift2)
  have "pair_sum (dist_of a) F = pair_sum (\<lambda>i j. lift2 path_hops (path (id_at a i)) (path (id_at a j))) F"
    using in_range_pairs [OF F] geometry_pairs(2) [OF g] by (intro pair_sum_cong) auto
  then show "pair_sum (dist_of a) F = pair_sum path_hops (paths_at a path F)"
    by (simp add: paths_at_filter pair_sum_lift2)
  have "\<forall>i\<in>set F. ad_hasPCI (dev_of a i) \<longleftrightarrow> path (id_at a i) \<noteq> None"
    using g F by (auto simp: geometry_def in_range_def)
  then show "int (length (paths_at a path F)) = known_pci a F"
    unfolding paths_at_filter known_pci_def
    by (induction F) (auto simp: map_filter_simps split: option.splits)
qed

section \<open>Sizes\<close>

lemma path_hops_bound: "length p \<le> n \<Longrightarrow> length q \<le> n \<Longrightarrow> path_hops p q \<le> 2 * int n"
  by (simp add: path_hops_def)

lemma impossible_large: "2 ^ 60 < impossiblePCICost"
  by (simp add: impossiblePCICost_def max_int64_def)

lemma distinct_in_range: "distinct F \<Longrightarrow> in_range a F \<Longrightarrow> length F \<le> length (al_devices a)"
  using card_mono [of "{..<length (al_devices a)}" "set F"]
  by (simp add: in_range_def distinct_card)

lemma hops_small:
  assumes "int (length P) \<le> 2 ^ 20" "\<And>p. p \<in> set P \<Longrightarrow> length p \<le> 4096"
  shows "pair_sum path_hops P < impossiblePCICost"
proof -
  have "pair_sum path_hops P \<le> pair_sum (\<lambda>_ _. 8192 * 1) P"
  proof (rule pair_sum_mono)
    fix x y assume "(x, y) \<in> set (pairs_of P)"
    then show "path_hops x y \<le> 8192 * 1"
      using pairs_of_mem path_hops_bound [of x 4096 y] assms(2) by fastforce
  qed
  also have "\<dots> = 8192 * pair_sum (\<lambda>_ _. 1) P" by (rule pair_sum_cmult)
  also have "\<dots> \<le> 8192 * (2 ^ 20 * 2 ^ 20)"
  proof -
    have "int (length P) * (int (length P) - 1) \<le> int (length P) * int (length P)"
      by (intro mult_left_mono) simp_all
    also have "\<dots> \<le> 2 ^ 20 * 2 ^ 20" using assms(1) by (intro mult_mono) simp_all
    finally have "2 * pair_sum (\<lambda>_ _. 1) P \<le> 2 ^ 40" by (simp add: pair_sum_one)
    then show ?thesis by simp
  qed
  also have "\<dots> < impossiblePCICost" using impossible_large by simp
  finally show ?thesis .
qed

lemma paths_of_length:
  "(\<forall>i p. path i = Some p \<longrightarrow> length p \<le> n) \<Longrightarrow> p \<in> set (paths_of path ids) \<Longrightarrow> length p \<le> n"
  by (induction ids) (auto split: option.splits)

lemma total_hops_small:
  assumes g: "geometry a fam path ps" and F: "in_range a F" "distinct F"
  shows "pair_sum path_hops (paths_at a path F) < impossiblePCICost"
proof (rule hops_small)
  have "length F \<le> 2 ^ 20" and small: "small_tree a path"
    using distinct_in_range [OF F(2,1)] g by (auto simp: geometry_def small_tree_def)
  moreover have "known_pci a F \<le> int (length F)" by (simp add: known_pci_def)
  ultimately show "int (length (paths_at a path F)) \<le> 2 ^ 20"
    using geometry_sums(3) [OF g F(1)] by simp
  show "length p \<le> 4096" if "p \<in> set (paths_at a path F)" for p
    by (rule paths_of_length [of path 4096 p "map (id_at a) F"])
      (use small that in \<open>simp_all add: paths_at_def small_tree_def\<close>)
qed

section \<open>The smallest distance and the connected pairs\<close>

lemma pair_minima_sound:
  assumes g: "geometry a fam path ps"
  shows "0 \<le> fst (pair_minima a)" "snd (pair_minima a) = 0 \<or> snd (pair_minima a) = 1"
    "j < i \<Longrightarrow> i < length (al_devices a) \<Longrightarrow> pair_known (al_pairs a ! i ! j) \<Longrightarrow>
       fst (pair_minima a) \<le> pair_hops (al_pairs a ! i ! j)"
    "j < i \<Longrightarrow> i < length (al_devices a) \<Longrightarrow> \<not> pair_separateRoots (al_pairs a ! i ! j) \<Longrightarrow>
       snd (pair_minima a) = 0"
proof -
  let ?n = "length (al_devices a)"
  let ?f = "\<lambda>i j (minD, minS). let pair = al_pairs a ! i ! j
         in (if pair_known pair then min minD (pair_hops pair) else minD,
             if \<not> pair_separateRoots pair then 0 else minS)"
  let ?I = "\<lambda>acc :: int \<times> int. 0 \<le> fst acc \<and> (snd acc = 0 \<or> snd acc = 1)"
  have hops: "0 \<le> pair_hops (al_pairs a ! i ! j)" if "j < i" "i < ?n" for i j
    using geometry_pairs(3,6) [OF g, of i j] that by simp
  have step: "?I (?f i j acc)" if "j \<in> set [0 ..< i]" "i < ?n" "?I acc" for i j acc
    using that hops [of j i] by (cases acc) (simp add: Let_def)
  have inner: "?I (fold (?f i) [0 ..< i] acc)" if "i \<in> set [0 ..< ?n]" "?I acc" for i acc
    by (rule fold_keeps [where I = ?I, OF that(2)]) (rule step, use that in auto)
  have all: "?I (pair_minima a)"
    unfolding pair_minima_def
    by (rule fold_keeps [where I = ?I]) (simp add: max_int64_def, rule inner)
  then show "0 \<le> fst (pair_minima a)" "snd (pair_minima a) = 0 \<or> snd (pair_minima a) = 1" by auto
  show "fst (pair_minima a) \<le> pair_hops (al_pairs a ! i ! j)"
    if ij: "j < i" "i < ?n" "pair_known (al_pairs a ! i ! j)"
  proof -
    let ?Q = "\<lambda>acc :: int \<times> int. fst acc \<le> pair_hops (al_pairs a ! i ! j)"
    have keep: "?Q acc \<Longrightarrow> ?Q (?f i' j' acc)" for acc i' j'
      by (cases acc) (auto simp: Let_def min_le_iff_disj)
    have hit: "?Q (?f i j acc)" for acc using ij(3) by (cases acc) (simp add: Let_def)
    have j: "j \<in> set [0 ..< i]" and i: "i \<in> set [0 ..< ?n]" using ij by auto
    have "?Q (fold (?f i) [0 ..< i] acc)" for acc
      by (rule fold_reaches [where I = "\<lambda>_. True", OF j]) (use hit keep in auto)
    moreover have "?Q acc \<Longrightarrow> ?Q (fold (?f i') [0 ..< i'] acc)" for acc i'
      by (rule fold_keeps [where I = ?Q]) (use keep in auto)
    ultimately show ?thesis unfolding pair_minima_def
      by (intro fold_reaches [where I = "\<lambda>_. True" and Q = ?Q, OF i]) auto
  qed
  show "snd (pair_minima a) = 0"
    if ij: "j < i" "i < ?n" "\<not> pair_separateRoots (al_pairs a ! i ! j)"
  proof -
    let ?Q = "\<lambda>acc :: int \<times> int. snd acc = 0"
    have keep: "?Q acc \<Longrightarrow> ?Q (?f i' j' acc)" for acc i' j' by (cases acc) (simp add: Let_def)
    have hit: "?Q (?f i j acc)" for acc using ij(3) by (cases acc) (simp add: Let_def)
    have j: "j \<in> set [0 ..< i]" and i: "i \<in> set [0 ..< ?n]" using ij by auto
    have "?Q (fold (?f i) [0 ..< i] acc)" for acc
      by (rule fold_reaches [where I = "\<lambda>_. True", OF j]) (use hit keep in auto)
    moreover have "?Q acc \<Longrightarrow> ?Q (fold (?f i') [0 ..< i'] acc)" for acc i'
      by (rule fold_keeps [where I = ?Q]) (use keep in auto)
    ultimately show ?thesis unfolding pair_minima_def
      by (intro fold_reaches [where I = "\<lambda>_. True" and Q = ?Q, OF i]) auto
  qed
qed

text \<open>The two numbers the search derives from the minima bound every pair of distinct devices.\<close>

definition min_distance :: "topologyAllocator \<Rightarrow> int" where
  "min_distance a = (if fst (pair_minima a) = max_int64 then 0 else fst (pair_minima a))"

lemma min_distance_le:
  assumes g: "geometry a fam path ps" and i: "i < length (al_devices a)" and j: "j < length (al_devices a)"
    and "i \<noteq> j"
  shows "pair_known (al_pairs a ! i ! j) \<Longrightarrow> min_distance a \<le> dist_of a i j"
    "snd (pair_minima a) \<le> sep_of a i j" "0 \<le> min_distance a"
proof -
  show "0 \<le> min_distance a" using pair_minima_sound(1) [OF g] by (simp add: min_distance_def)
  note sym = geometry_pairs(5) [OF g i j] and hops = geometry_pairs(3,6) [OF g i j]
  have order: "j < i \<or> i < j" using assms(4) by auto
  { assume "pair_known (al_pairs a ! i ! j)"
    then have "fst (pair_minima a) \<le> dist_of a i j"
      using order pair_minima_sound(3) [OF g _ i, of j] pair_minima_sound(3) [OF g _ j, of i] sym hops(1)
      by auto
    with hops(2) show "min_distance a \<le> dist_of a i j" by (simp add: min_distance_def) }
  show "snd (pair_minima a) \<le> sep_of a i j"
    using order pair_minima_sound(4) [OF g _ i, of j] pair_minima_sound(4) [OF g _ j, of i] sym
      pair_minima_sound(2) [OF g]
    by (auto simp: sep_of_def pair_sep_def)
qed

definition connected_pairs :: "topologyAllocator \<Rightarrow> nat list \<Rightarrow> int" where
  "connected_pairs a F = pair_sum (\<lambda>i j. if pair_known (al_pairs a ! i ! j) then 1 else 0) F"

lemma connected_pairs_eq:
  assumes g: "geometry a fam path ps" and F: "in_range a F"
  shows "connected_pairs a F = half_pairs (known_pci a F) - pair_sum (sep_of a) F"
proof -
  let ?A = "\<lambda>i. ad_hasPCI (dev_of a i)"
  have "pair_sum (\<lambda>i j. if ?A i \<and> ?A j then 1 else 0) F =
      pair_sum (\<lambda>i j. (if pair_known (al_pairs a ! i ! j) then 1 else 0) + sep_of a i j) F"
  proof (rule pair_sum_cong)
    fix i j assume "(i, j) \<in> set (pairs_of F)"
    then have ij: "i < length (al_devices a)" "j < length (al_devices a)"
      using in_range_pairs [OF F] by auto
    have "?A i \<longleftrightarrow> path (id_at a i) \<noteq> None" "?A j \<longleftrightarrow> path (id_at a j) \<noteq> None"
      using g ij by (auto simp: geometry_def)
    then show "(if ?A i \<and> ?A j then 1 else 0) =
        (if pair_known (al_pairs a ! i ! j) then 1 else 0) + sep_of a i j"
      unfolding geometry_pairs(4) [OF g ij] geometry_pairs(1) [OF g ij]
      by (auto simp: lift2_def path_cross_def split: option.splits)
  qed
  then show ?thesis
    by (simp add: pair_sum_add connected_pairs_def pair_sum_both half_pairs_def known_pci_def)
qed

lemma pair_sum_extend_mono:
  assumes "\<And>x y. (x, y) \<in> set (pairs_of (F @ c)) \<Longrightarrow> f x y \<le> g x y"
  shows "pair_sum f (F @ c) - pair_sum f F \<le> pair_sum g (F @ c) - pair_sum g F"
  using assms
proof (induction c rule: rev_induct)
  case (snoc x c)
  have "pair_sum f (F @ c) - pair_sum f F \<le> pair_sum g (F @ c) - pair_sum g F"
    using snoc.prems set_pairs_of_snoc [of "F @ c" x] by (intro snoc.IH) auto
  moreover have "(\<Sum>y\<leftarrow>F @ c. f x y) \<le> (\<Sum>y\<leftarrow>F @ c. g x y)"
    using snoc.prems set_pairs_of_snoc [of "F @ c" x] by (intro sum_list_mono) auto
  ultimately show ?case
    using pair_sum_snoc [of f "F @ c" x] pair_sum_snoc [of g "F @ c" x] by simp
qed simp

lemma distinct_pairs_of: "distinct F \<Longrightarrow> (x, y) \<in> set (pairs_of F) \<Longrightarrow> x \<noteq> y"
  by (induction F) auto

lemma new_distance_bound:
  assumes g: "geometry a fam path ps" and F: "in_range a (F @ c)" "distinct (F @ c)"
  shows "max 0 (connected_pairs a (F @ c) - connected_pairs a F) * min_distance a
    \<le> pair_sum (dist_of a) (F @ c) - pair_sum (dist_of a) F"
proof -
  let ?k = "\<lambda>i j. if pair_known (al_pairs a ! i ! j) then 1 else (0::int)"
  have "pair_sum (\<lambda>i j. min_distance a * ?k i j) (F @ c) - pair_sum (\<lambda>i j. min_distance a * ?k i j) F
      \<le> pair_sum (dist_of a) (F @ c) - pair_sum (dist_of a) F"
  proof (rule pair_sum_extend_mono)
    fix x y assume xy: "(x, y) \<in> set (pairs_of (F @ c))"
    show "min_distance a * ?k x y \<le> dist_of a x y"
      using min_distance_le(1) [OF g] geometry_pairs(6) [OF g] in_range_pairs [OF F(1) xy]
        distinct_pairs_of [OF F(2) xy] by simp
  qed
  then have "min_distance a * (connected_pairs a (F @ c) - connected_pairs a F)
      \<le> pair_sum (dist_of a) (F @ c) - pair_sum (dist_of a) F"
    by (simp add: pair_sum_cmult connected_pairs_def right_diff_distrib)
  moreover have "pair_sum (\<lambda>_ _. 0) (F @ c) - pair_sum (\<lambda>_ _. 0) F
      \<le> pair_sum ?k (F @ c) - pair_sum ?k F" by (rule pair_sum_extend_mono) simp
  then have "0 \<le> connected_pairs a (F @ c) - connected_pairs a F"
    by (simp add: pair_sum_zero connected_pairs_def)
  ultimately show ?thesis by (simp add: mult.commute)
qed

lemma new_separate_bound:
  assumes g: "geometry a fam path ps" and F: "in_range a (F @ c)" "distinct (F @ c)"
  shows "pair_sum (sep_of a) F + (int (length c) * int (length F) + half_pairs (int (length c)))
      * snd (pair_minima a) \<le> pair_sum (sep_of a) (F @ c)"
proof -
  let ?m = "snd (pair_minima a)"
  have "pair_sum (\<lambda>_ _. ?m * 1) (F @ c) - pair_sum (\<lambda>_ _. ?m * 1) F
      \<le> pair_sum (sep_of a) (F @ c) - pair_sum (sep_of a) F"
    using min_distance_le(2) [OF g] in_range_pairs [OF F(1)] distinct_pairs_of [OF F(2)]
    by (intro pair_sum_extend_mono) simp
  then have "?m * (pair_sum (\<lambda>_ _. 1) (F @ c) - pair_sum (\<lambda>_ _. 1) F)
      \<le> pair_sum (sep_of a) (F @ c) - pair_sum (sep_of a) F"
    by (simp only: pair_sum_cmult right_diff_distrib)
  moreover have "pair_sum (\<lambda>_ _. 1) (F @ c) - pair_sum (\<lambda>_ _. 1) F
      = int (length c) * int (length F) + half_pairs (int (length c))"
  proof -
    have "2 * pair_sum (\<lambda>_ _. 1) (F @ c) - 2 * pair_sum (\<lambda>_ _. 1) F
        = 2 * (int (length c) * int (length F)) + int (length c) * (int (length c) - 1)"
      by (simp add: pair_sum_one algebra_simps)
    moreover have "even (int (length c) * (int (length c) - 1))" by simp
    ultimately show ?thesis by (simp add: half_pairs_def)
  qed
  ultimately show ?thesis by (simp add: mult.commute)
qed

lemma max_distance_connected:
  assumes g: "geometry a fam path ps" and F: "in_range a F" "distinct F" and "0 < connected_pairs a F"
  shows "min_distance a \<le> pair_max (dist_of a) F"
proof -
  have "\<exists>x y. (x, y) \<in> set (pairs_of F) \<and> pair_known (al_pairs a ! x ! y)"
  proof (rule ccontr)
    assume none: "\<not> ?thesis"
    have "connected_pairs a F = pair_sum (\<lambda>_ _. 0) F"
      unfolding connected_pairs_def using none by (intro pair_sum_cong) auto
    with assms(4) show False by (simp add: pair_sum_zero)
  qed
  then obtain x y where xy: "(x, y) \<in> set (pairs_of F)" "pair_known (al_pairs a ! x ! y)" by blast
  then have "min_distance a \<le> dist_of a x y"
    using min_distance_le(1) [OF g] in_range_pairs [OF F(1) xy(1)] distinct_pairs_of [OF F(2) xy(1)]
    by simp
  also have "\<dots> \<le> pair_max (dist_of a) F" by (rule pair_max_ge [OF xy(1)])
  finally show ?thesis .
qed

end
