(* ===== verification/AdmissibleBound.thy ===== *)
theory AdmissibleBound imports ScoreBounds begin

text \<open>
  The admissibility of \<open>lowerBound\<close>, and with it the interpretation of the branch-and-bound
  contract on the code's search.
\<close>

section \<open>The greedy count of SID groups\<close>

lemma sid_capacities_fold:
  "fold (\<lambda>(sid, capacity) (needNew, capacities).
         if counts ! sid > 0 then (needNew - capacity, capacities)
         else if capacity > 0 then (needNew, capacities @ [capacity])
         else (needNew, capacities)) xs (need, caps) =
     (need - (\<Sum>(s, c)\<leftarrow>filter (\<lambda>(s, c). (counts ! s :: int) > 0) xs. (c :: int)),
      caps @ map snd (filter (\<lambda>(s, c). \<not> counts ! s > 0 \<and> c > 0) xs))"
  by (induction xs arbitrary: need caps) (auto split: if_splits)

lemma subseq_count: "subseq c rest \<Longrightarrow> length (filter P c) \<le> length (filter P rest)"
  by (intro list_emb_length [of "(=)"] subseq_filter)

lemma enumerate_map_upt: "enumerate 0 (map f [0..<n]) = map (\<lambda>k. (k, f k)) [0..<n]"
  by (rule nth_equalityI) (auto simp: nth_enumerate_eq)

lemma sid_capacities_counts:
  assumes "suffixSID s ! start = map cap [0..<n]"
  shows "sid_capacities s start r =
    (int r - (\<Sum>k\<leftarrow>filter (\<lambda>k. sidCounts s ! k > 0) [0..<n]. cap k),
     map cap (filter (\<lambda>k. \<not> sidCounts s ! k > 0 \<and> cap k > 0) [0..<n]))"
  unfolding sid_capacities_def assms enumerate_map_upt sid_capacities_fold
  by (simp add: filter_map comp_def)

lemma new_groups_le: "need \<le> sum_list (take m ds) \<Longrightarrow> new_groups ds need \<le> int m"
proof (induction ds arbitrary: m need)
  case (Cons d ds)
  show ?case
  proof (cases m)
    case 0
    with Cons.prems show ?thesis by simp
  next
    case (Suc k)
    then have "new_groups ds (need - d) \<le> int k" using Cons.prems by (intro Cons.IH) simp
    with Suc show ?thesis by simp
  qed
qed simp

lemma largest_sum:
  fixes ds :: "int list"
  assumes "sorted_wrt (\<ge>) ds" "A \<subseteq># mset ds"
  shows "sum_mset A \<le> sum_list (take (size A) ds)"
  using assms
proof (induction ds arbitrary: A)
  case (Cons d ds)
  show ?case
  proof (cases "A = {#}")
    case False
    then obtain a where a: "a \<in># A" by auto
    define e where "e = (if d \<in># A then d else a)"
    have e: "e \<in># A" using a by (simp add: e_def)
    have "e \<in> set (d # ds)" using mset_subset_eqD [OF Cons.prems(2) e] by simp
    then have "e \<le> d" using Cons.prems(1) by auto
    have "A - {#e#} \<subseteq># mset ds"
    proof (cases "d \<in># A")
      case True
      then show ?thesis using Cons.prems(2) by (simp add: e_def subset_eq_diff_conv)
    next
      case False
      then have "A \<subseteq># mset ds" using Cons.prems(2)
        by (metis add_mset_remove_trivial diff_single_trivial mset.simps(2) subset_eq_diff_conv
            union_mset_add_mset_right add.right_neutral)
      then show ?thesis by (meson diff_subset_eq_self subset_mset.order_trans)
    qed
    with Cons.IH [of "A - {#e#}"] Cons.prems(1)
    have "sum_mset (A - {#e#}) \<le> sum_list (take (size (A - {#e#})) ds)" by simp
    moreover have "sum_mset A = e + sum_mset (A - {#e#})" using e by (metis sum_mset.remove)
    moreover have "size A = Suc (size (A - {#e#}))" using e by (metis size_Suc_Diff1)
    ultimately show ?thesis using \<open>e \<le> d\<close> by simp
  qed simp
qed simp

lemma count_sum:
  fixes n :: nat
  shows "set c \<subseteq> {i. sid i < n} \<Longrightarrow> (\<Sum>k<n. int (length (filter (\<lambda>i. sid i = k) c))) = int (length c)"
proof (induction c)
  case (Cons i c)
  have "int (length (filter (\<lambda>i. sid i = k) (i # c))) =
      (if sid i = k then 1 else 0) + int (length (filter (\<lambda>i. sid i = k) c))" for k by simp
  then have "(\<Sum>k<n. int (length (filter (\<lambda>i. sid i = k) (i # c)))) =
      (\<Sum>k<n. if sid i = k then 1 else 0) + (\<Sum>k<n. int (length (filter (\<lambda>i. sid i = k) c)))"
    by (simp only: sum.distrib)
  moreover have "(\<Sum>k<n. if sid i = k then 1 else 0) = (1::int)"
    using Cons.prems by (simp add: sum.delta')
  ultimately show ?case using Cons by simp
qed simp

lemma greedy_groups:
  fixes sid :: "nat \<Rightarrow> nat"
  assumes c: "subseq c rest" and bound: "set rest \<subseteq> {i. sid i < n}" and used: "used \<subseteq> {..<n}"
  defines "cap \<equiv> \<lambda>k. int (length (filter (\<lambda>i. sid i = k) rest))"
  shows "new_groups (rev (sort (map cap (filter (\<lambda>k. k \<notin> used \<and> 0 < cap k) [0..<n]))))
      (int (length c) - (\<Sum>k\<leftarrow>filter (\<lambda>k. k \<in> used) [0..<n]. cap k))
    \<le> int (card (sid ` set c - used))"
proof -
  let ?G = "sid ` set c - used" and ?new = "filter (\<lambda>k. k \<notin> used \<and> 0 < cap k) [0..<n]"
  let ?cnt = "\<lambda>k. int (length (filter (\<lambda>i. sid i = k) c))"
  have sub: "set c \<subseteq> set rest" using subseq_subset [OF c] .
  have le: "?cnt k \<le> cap k" for k
    unfolding cap_def using subseq_count [OF c] by simp
  have zero: "?cnt k = 0" if "k \<notin> used" "k \<notin> ?G" for k using that by (auto simp: filter_empty_conv)
  have G: "?G \<subseteq> set ?new"
  proof
    fix k assume k: "k \<in> ?G"
    then obtain i where i: "i \<in> set rest" "sid i = k" using sub by auto
    then have "filter (\<lambda>i. sid i = k) rest \<noteq> []" by (auto simp: filter_empty_conv)
    then have "0 < cap k" by (simp add: cap_def)
    with i k bound show "k \<in> set ?new" by auto
  qed
  have "int (length c) = (\<Sum>k<n. ?cnt k)" using sub bound by (intro count_sum [symmetric]) auto
  also have "\<dots> \<le> (\<Sum>k<n. (if k \<in> used then cap k else 0) + (if k \<in> ?G then cap k else 0))"
  proof (rule sum_mono)
    fix k
    have "0 \<le> cap k" by (simp add: cap_def)
    then show "?cnt k \<le> (if k \<in> used then cap k else 0) + (if k \<in> ?G then cap k else 0)"
      using le [of k] zero [of k] by (cases "k \<in> used"; cases "k \<in> ?G") auto
  qed
  also have "\<dots> = (\<Sum>k\<in>{..<n} \<inter> used. cap k) + (\<Sum>k\<in>{..<n} \<inter> ?G. cap k)"
    by (simp add: sum.distrib sum.inter_restrict)
  also have "(\<Sum>k\<in>{..<n} \<inter> used. cap k) = (\<Sum>k\<leftarrow>filter (\<lambda>k. k \<in> used) [0..<n]. cap k)"
    by (subst sum_list_distinct_conv_sum_set) (auto intro: sum.cong)
  also have "{..<n} \<inter> ?G = ?G" using G by auto
  finally have need: "int (length c) - (\<Sum>k\<leftarrow>filter (\<lambda>k. k \<in> used) [0..<n]. cap k) \<le> (\<Sum>k\<in>?G. cap k)"
    by simp
  have fin: "finite ?G" by simp
  have "image_mset cap (mset_set ?G) \<subseteq># mset (map cap ?new)"
  proof -
    have "mset ?new = mset_set (set ?new)" by (simp add: mset_set_set del: set_filter)
    then have "mset (map cap ?new) = image_mset cap (mset_set (set ?new))" by (simp only: mset_map)
    moreover have "mset_set ?G \<subseteq># mset_set (set ?new)"
      using G by (intro subset_imp_msubset_mset_set) auto
    ultimately show ?thesis by (simp only: image_mset_subseteq_mono)
  qed
  then have "sum_mset (image_mset cap (mset_set ?G))
      \<le> sum_list (take (card ?G) (rev (sort (map cap ?new))))"
    using largest_sum [of "rev (sort (map cap ?new))" "image_mset cap (mset_set ?G)"]
    by (simp add: sorted_wrt_rev)
  with need show ?thesis
    by (intro new_groups_le) (simp add: sum_unfold_sum_mset)
qed

section \<open>The diameter bound\<close>

lemma sorted_nth_le:
  fixes xs :: "int list"
  assumes "sorted xs" "r \<le> length (filter (\<lambda>x. x \<le> M) xs)" "0 < r"
  shows "xs ! (r - 1) \<le> M"
proof (rule ccontr)
  assume big: "\<not> xs ! (r - 1) \<le> M"
  have "r \<le> length xs" using assms(2) length_filter_le [of "\<lambda>x. x \<le> M" xs] by linarith
  then have "M < x" if "x \<in> set (drop (r - 1) xs)" for x
  proof -
    obtain k where "k < length (drop (r - 1) xs)" "x = drop (r - 1) xs ! k"
      using \<open>x \<in> set (drop (r - 1) xs)\<close> by (metis in_set_conv_nth)
    then have "xs ! (r - 1) \<le> x" using assms(1) by (simp add: sorted_nth_mono)
    with big show ?thesis by simp
  qed
  then have "filter (\<lambda>x. x \<le> M) (drop (r - 1) xs) = []" by (force simp: filter_empty_conv)
  then have "length (filter (\<lambda>x. x \<le> M) xs) = length (filter (\<lambda>x. x \<le> M) (take (r - 1) xs))"
    by (metis append_Nil2 append_take_drop_id filter_append)
  also have "\<dots> \<le> r - 1" by (metis length_filter_le length_take min.cobounded2 order_trans)
  finally show False using assms(2,3) by simp
qed

lemma smallest_le:
  fixes f :: "'a \<Rightarrow> int"
  assumes "subseq c rest" "\<forall>x\<in>set c. f x \<le> M" "c \<noteq> []"
  shows "sort (map f rest) ! (length c - 1) \<le> M"
proof (rule sorted_nth_le)
  have "length c = length (filter (\<lambda>x. f x \<le> M) c)" using assms(2) by (simp add: filter_id_conv)
  also have "\<dots> \<le> length (filter (\<lambda>x. f x \<le> M) rest)"
    by (rule subseq_count [OF assms(1)])
  also have "\<dots> = length (filter (\<lambda>x. x \<le> M) (map f rest))" by (simp add: filter_map comp_def)
  also have "\<dots> = length (filter (\<lambda>x. x \<le> M) (sort (map f rest)))"
    by (metis mset_filter mset_sort size_mset)
  finally show "length c \<le> length (filter (\<lambda>x. x \<le> M) (sort (map f rest)))" .
qed (use assms(3) in simp_all)

section \<open>The prefix of the bound\<close>

lemma score_leI:
  fixes s t :: allocationScore
  assumes "unknownNUMA s \<le> unknownNUMA t" "numaNodes s \<le> numaNodes t" "sidGroups s \<le> sidGroups t"
    "unknownPCI s \<le> unknownPCI t"
    and "unknownPCI s = unknownPCI t \<Longrightarrow> separateRoots s < separateRoots t \<or>
      (separateRoots s = separateRoots t \<and> maxDistance s \<le> maxDistance t
        \<and> totalDistance s \<le> totalDistance t)"
  shows "s \<le> t"
  using assms by (auto simp: score_le_iff score_values_def)

lemma prune_state_simps:
  "candidates (prune_state a taken rest v) = rest" "chosen (prune_state a taken rest v) = taken"
  "score (prune_state a taken rest v) = placement_score a taken"
  "sidCounts (prune_state a taken rest v) = sid_counts a taken"
  "bestScore (prune_state a taken rest v) = v"
  by (simp_all add: prune_state_def prepareBounds_frame)

lemma prune_state_arrays:
  assumes "selection_ok a taken rest"
  shows "suffixSID (prune_state a taken rest v) ! 0 = sid_counts a rest"
    "suffixKnownNUMA (prune_state a taken rest v) ! 0 = known_numa a rest"
    "suffixKnownPCI (prune_state a taken rest v) ! 0 = known_pci a rest"
    "minDistance (prune_state a taken rest v) = min_distance a"
    "minSeparateRoots (prune_state a taken rest v) = snd (pair_minima a)"
proof -
  have prep: "prepared a (prune_state a taken rest v)" unfolding prune_state_def
    using assms by (intro prepareBounds_prepared) (auto simp: selection_ok_def sid_counts_def)
  have "0 \<le> length (candidates (prune_state a taken rest v))" by simp
  with prep show "suffixSID (prune_state a taken rest v) ! 0 = sid_counts a rest"
    "suffixKnownNUMA (prune_state a taken rest v) ! 0 = known_numa a rest"
    "suffixKnownPCI (prune_state a taken rest v) ! 0 = known_pci a rest"
    "minDistance (prune_state a taken rest v) = min_distance a"
    "minSeparateRoots (prune_state a taken rest v) = snd (pair_minima a)"
    by (auto simp: prepared_def prune_state_simps min_distance_def)
qed

text \<open>A completion of a partial selection.\<close>

definition completes :: "nat list \<Rightarrow> nat \<Rightarrow> nat list \<Rightarrow> bool" where
  "completes rest r c \<longleftrightarrow> subseq c rest \<and> length c = r"

lemma completes_combs: "c \<in> set (combs r rest) \<longleftrightarrow> completes rest r c"
  by (simp add: set_combs completes_def)

lemma completion_selection:
  assumes "selection_ok a taken rest" "completes rest r c"
  shows "in_range a (taken @ c)" "distinct (taken @ c)" "in_range a taken" "distinct taken"
proof -
  have c: "set c \<subseteq> set rest" "distinct c"
    using assms subseq_subset by (auto simp: completes_def selection_ok_def subseq_conv_nths
        intro: distinct_nthsI)
  with assms(1) show "in_range a (taken @ c)" "distinct (taken @ c)" "in_range a taken" "distinct taken"
    by (auto simp: in_range_def selection_ok_def)
qed

lemma missing_le:
  assumes "completes rest r c"
  shows "max 0 (int r - int (length (filter P rest))) \<le> int (length (filter (\<lambda>i. \<not> P i) c))"
proof -
  have "length (filter P c) \<le> length (filter P rest)"
    using assms by (intro subseq_count) (simp add: completes_def)
  moreover have "length (filter P c) + length (filter (\<lambda>i. \<not> P i) c) = r"
    using assms sum_length_filter_compl [of P c] by (simp add: completes_def)
  ultimately show ?thesis by linarith
qed

lemma sid_groups_le:
  assumes ok: "selection_ok a taken rest" and c: "completes rest r c"
  shows "sidGroups (prefix_bound (prune_state a taken rest v) 0 r) \<le> sidGroups (placement_score a (taken @ c))"
proof -
  let ?s = "prune_state a taken rest v" and ?sid = "\<lambda>i. ad_sid (dev_of a i)" and ?n = "al_sidCount a"
  let ?used = "?sid ` set taken" and ?cap = "\<lambda>k. int (length (filter (\<lambda>i. ?sid i = k) rest))"
  have range: "?sid i < ?n" if "i \<in> set (taken @ rest)" for i
    using ok that by (auto simp: selection_ok_def indices_ok_def)
  have pos: "sid_counts a taken ! k > 0 \<longleftrightarrow> k \<in> ?used" if "k \<in> set [0..<?n]" for k
    using that sid_counts_pos by simp
  have arr: "suffixSID ?s ! 0 = map ?cap [0..<?n]"
    by (simp add: prune_state_arrays [OF ok] sid_counts_def)
  have "new_groups (rev (sort (snd (sid_capacities ?s 0 r)))) (fst (sid_capacities ?s 0 r))
      = new_groups (rev (sort (map ?cap (filter (\<lambda>k. k \<notin> ?used \<and> 0 < ?cap k) [0..<?n]))))
          (int (length c) - (\<Sum>k\<leftarrow>filter (\<lambda>k. k \<in> ?used) [0..<?n]. ?cap k))"
  proof -
    have "filter (\<lambda>k. sid_counts a taken ! k > 0) [0..<?n] = filter (\<lambda>k. k \<in> ?used) [0..<?n]"
      "filter (\<lambda>k. \<not> sid_counts a taken ! k > 0 \<and> 0 < ?cap k) [0..<?n]
        = filter (\<lambda>k. k \<notin> ?used \<and> 0 < ?cap k) [0..<?n]"
      by (intro filter_cong refl; simp only: pos)+
    moreover have "length c = r" using c by (simp add: completes_def)
    ultimately show ?thesis
      unfolding sid_capacities_counts [OF arr] prune_state_simps fst_conv snd_conv by simp
  qed
  also have "\<dots> \<le> int (card (?sid ` set c - ?used))"
    using c range by (intro greedy_groups) (auto simp: completes_def)
  finally have "new_groups (rev (sort (snd (sid_capacities ?s 0 r)))) (fst (sid_capacities ?s 0 r))
      \<le> int (card (?sid ` set c - ?used))" .
  moreover have "int (card (?sid ` set (taken @ c))) = int (card ?used) + int (card (?sid ` set c - ?used))"
    by (simp add: image_Un card_Un_disjoint [symmetric] flip: of_nat_add)
  ultimately show ?thesis
    by (simp add: prefix_bound_def split_def Let_def prune_state_simps placement_score_def)
qed

lemma prefix_bound_le:
  fixes a taken rest r c v
  defines "b \<equiv> prefix_bound (prune_state a taken rest v) 0 r"
    and "S \<equiv> placement_score a (taken @ c)"
  assumes g: "geometry a fam path ps" and ok: "selection_ok a taken rest" and c: "completes rest r c"
  shows "unknownNUMA b \<le> unknownNUMA S" "numaNodes b \<le> numaNodes S" "sidGroups b \<le> sidGroups S"
    "unknownPCI b \<le> unknownPCI S" "separateRoots b \<le> separateRoots S"
    "maxDistance b \<le> maxDistance S" "totalDistance b \<le> totalDistance S"
proof -
  note arrays = prune_state_arrays [OF ok] and sel = completion_selection [OF ok c]
  have len: "length c = r" using c by (simp add: completes_def)
  note b = b_def prefix_bound_def split_def Let_def prune_state_simps arrays
  show "unknownNUMA b \<le> unknownNUMA S"
    using missing_le [OF c, of "\<lambda>i. 0 \<le> ad_numa (dev_of a i)"]
    by (simp add: b S_def placement_score_def known_numa_def not_le)
  show "numaNodes b \<le> numaNodes S"
    by (simp add: b S_def placement_score_def) (intro card_mono, auto)
  show "sidGroups b \<le> sidGroups S" unfolding b_def S_def by (rule sid_groups_le [OF ok c])
  show "unknownPCI b \<le> unknownPCI S"
    using missing_le [OF c, of "\<lambda>i. ad_hasPCI (dev_of a i)"]
    by (simp add: b S_def placement_score_def known_pci_def)
  show "separateRoots b \<le> separateRoots S"
    using new_separate_bound [OF g sel(1,2)] by (simp add: b S_def placement_score_def len)
  show "maxDistance b \<le> maxDistance S"
    using pair_max_prefix by (simp add: b S_def placement_score_def)
  have "pair_sum (\<lambda>_ _. 0) (taken @ c) - pair_sum (\<lambda>_ _. 0) taken
      \<le> pair_sum (dist_of a) (taken @ c) - pair_sum (dist_of a) taken"
    using geometry_pairs(6) [OF g] in_range_pairs [OF sel(1)] by (intro pair_sum_extend_mono) auto
  then show "totalDistance b \<le> totalDistance S"
    by (simp add: b S_def placement_score_def pair_sum_zero)
qed

lemma known_finally_eq:
  assumes c: "completes rest r c"
    and eq: "unknownPCI (prefix_bound (prune_state a taken rest v) 0 r)
      = unknownPCI (placement_score a (taken @ c))"
  shows "known_finally (prune_state a taken rest v) 0 r = known_pci a (taken @ c)"
proof -
  have "length (filter (\<lambda>i. ad_hasPCI (dev_of a i)) (taken @ c))
      + length (filter (\<lambda>i. \<not> ad_hasPCI (dev_of a i)) (taken @ c)) = length (taken @ c)"
    by (rule sum_length_filter_compl)
  with c show ?thesis
    unfolding known_finally_def eq
    by (simp add: prune_state_simps completes_def placement_score_def known_pci_def)
qed

lemma known_now: "int (length taken) - unknownPCI (placement_score a taken) = known_pci a taken"
  using sum_length_filter_compl [of "\<lambda>i. ad_hasPCI (dev_of a i)" taken]
  by (simp add: placement_score_def known_pci_def)

section \<open>The three bounds lowerBound returns\<close>

lemma connected_nonneg: "0 \<le> connected_pairs a F"
  by (simp add: connected_pairs_def pair_sum_nonneg)

lemma cheap_bound_le:
  assumes g: "geometry a fam path ps" and ok: "selection_ok a taken rest" and c: "completes rest r c"
  shows "cheap_bound (prune_state a taken rest v) 0 r \<le> placement_score a (taken @ c)"
proof -
  let ?s = "prune_state a taken rest v" and ?S = "placement_score a (taken @ c)"
  let ?b = "prefix_bound ?s 0 r" and ?m = "min_distance a"
  note p = prefix_bound_le [OF g ok c, of v] and sel = completion_selection [OF ok c]
  let ?fin = "half_pairs (known_finally ?s 0 r) - separateRoots ?b"
  let ?now = "half_pairs (known_pci a taken) - separateRoots (placement_score a taken)"
  have cheap: "cheap_bound ?s 0 r = (let cheap = ?b\<lparr>totalDistance := totalDistance ?b + max 0 (?fin - ?now) * ?m\<rparr>
      in if ?fin > 0 then cheap\<lparr>maxDistance := max (maxDistance cheap) ?m\<rparr> else cheap)"
    by (simp add: cheap_bound_def Let_def prune_state_simps known_now prune_state_arrays [OF ok])
  have now: "?now = connected_pairs a taken"
    by (simp add: connected_pairs_eq [OF g sel(3)] placement_score_def)
  show ?thesis
  proof (rule score_leI)
    assume "unknownPCI (cheap_bound ?s 0 r) = unknownPCI ?S"
    then have "unknownPCI ?b = unknownPCI ?S" by (simp add: cheap Let_def split: if_splits)
    then have known: "known_finally ?s 0 r = known_pci a (taken @ c)" by (rule known_finally_eq [OF c])
    show "separateRoots (cheap_bound ?s 0 r) < separateRoots ?S
      \<or> separateRoots (cheap_bound ?s 0 r) = separateRoots ?S
        \<and> maxDistance (cheap_bound ?s 0 r) \<le> maxDistance ?S
        \<and> totalDistance (cheap_bound ?s 0 r) \<le> totalDistance ?S"
    proof (cases "separateRoots ?b = separateRoots ?S")
      case True
      then have fin: "?fin = connected_pairs a (taken @ c)"
        by (simp add: known connected_pairs_eq [OF g sel(1)] placement_score_def)
      have "0 < ?fin \<longrightarrow> ?m \<le> maxDistance ?S"
        using max_distance_connected [OF g sel(1,2)] by (simp add: fin placement_score_def)
      moreover have "totalDistance ?b = pair_sum (dist_of a) taken"
        by (simp add: prefix_bound_def split_def Let_def prune_state_simps placement_score_def)
      then have "totalDistance ?b + max 0 (?fin - ?now) * ?m \<le> totalDistance ?S"
        unfolding fin now using new_distance_bound [OF g sel(1,2)] by (simp add: placement_score_def)
      ultimately show ?thesis using True p(6) by (simp add: cheap Let_def)
    next
      case False
      with p(5) show ?thesis by (simp add: cheap Let_def)
    qed
  qed (use p in \<open>simp_all add: cheap Let_def\<close>)
qed

definition diameter_bound :: "topologyAllocator \<Rightarrow> allocationSearch \<Rightarrow> nat \<Rightarrow> allocationScore" where
  "diameter_bound a s r = (prefix_bound s 0 r)\<lparr>maxDistance :=
     max (maxDistance (prefix_bound s 0 r)) (sort (worst_distances a s 0) ! (r - 1))\<rparr>"

lemma worst_distance_le:
  assumes g: "geometry a fam path ps" and sel: "in_range a (taken @ c)" and x: "x \<in> set c"
  shows "fold (\<lambda>other distance. max distance (pair_hops (al_pairs a ! x ! other))) taken 0
    \<le> pair_max (dist_of a) (taken @ c)"
proof (rule fold_keeps [where I = "\<lambda>d. d \<le> pair_max (dist_of a) (taken @ c)"])
  show "0 \<le> pair_max (dist_of a) (taken @ c)" by (rule pair_max_nonneg)
  fix y d assume y: "y \<in> set taken" and d: "d \<le> pair_max (dist_of a) (taken @ c)"
  have "(x, y) \<in> set (pairs_of (taken @ c))"
    using x y by (induction taken) auto
  then have "dist_of a x y \<le> pair_max (dist_of a) (taken @ c)" by (rule pair_max_ge)
  moreover have "pair_hops (al_pairs a ! x ! y) = dist_of a x y"
    using sel x y by (intro geometry_pairs(3) [OF g]) (auto simp: in_range_def)
  ultimately show "max d (pair_hops (al_pairs a ! x ! y)) \<le> pair_max (dist_of a) (taken @ c)"
    using d by simp
qed

lemma diameter_bound_fields:
  assumes g: "geometry a fam path ps" and ok: "selection_ok a taken rest" and c: "completes rest r c"
    and "0 < r"
  shows "maxDistance (diameter_bound a (prune_state a taken rest v) r)
    \<le> maxDistance (placement_score a (taken @ c))"
proof -
  have "c \<noteq> []" "subseq c rest" "length c = r" using c assms(4) by (auto simp: completes_def)
  then have "sort (worst_distances a (prune_state a taken rest v) 0) ! (r - 1)
      \<le> pair_max (dist_of a) (taken @ c)"
    using smallest_le [of c rest] worst_distance_le [OF g completion_selection(1) [OF ok c]]
    by (simp add: worst_distances_def prune_state_simps)
  then show ?thesis
    using prefix_bound_le(6) [OF g ok c, of v] by (simp add: diameter_bound_def placement_score_def)
qed

lemma diameter_bound_le:
  assumes g: "geometry a fam path ps" and ok: "selection_ok a taken rest" and c: "completes rest r c"
    and "0 < r"
  shows "diameter_bound a (prune_state a taken rest v) r \<le> placement_score a (taken @ c)"
  using prefix_bound_le [OF g ok c, of v] diameter_bound_fields [OF assms, of v]
  by (intro score_leI) (auto simp: diameter_bound_def)

definition forest_bound ::
    "topologyAllocator \<Rightarrow> allocationSearch \<Rightarrow> nat \<Rightarrow> pciPlacementCost \<Rightarrow> allocationScore" where
  "forest_bound a s r pci =
     (let bound = (diameter_bound a s r)\<lparr>separateRoots := cost_separateRoots pci,
                    totalDistance := cost_totalDistance pci\<rparr>
      in if half_pairs (known_finally s 0 r) > separateRoots bound
         then bound\<lparr>maxDistance := max (maxDistance bound) (minDistance s)\<rparr> else bound)"

lemma lowerBound_forms:
  "lowerBound a s 0 r =
     (if \<not> score_less (cheap_bound s 0 r) (bestScore s) then Some (cheap_bound s 0 r)
      else if slices_compare (take 4 (score_values (prefix_bound s 0 r)))
          (take 4 (score_values (bestScore s))) < 0 then Some (cheap_bound s 0 r)
      else if \<not> score_less (diameter_bound a s r) (bestScore s) then Some (diameter_bound a s r)
      else map_option (forest_bound a s r)
        (pciLowerBound (al_tree a) (map (id_at a) (chosen s)) (map (id_at a) (candidates s))
          (nat (known_finally s 0 r))))"
  by (cases "pciLowerBound (al_tree a) (map (id_at a) (chosen s)) (map (id_at a) (candidates s))
      (nat (known_finally s 0 r))")
    (simp_all add: lowerBound_def diameter_bound_def forest_bound_def Let_def flip: id_at_def)

lemma forest_bound_le:
  assumes g: "geometry a fam path ps" and ok: "selection_ok a taken rest" and c: "completes rest r c"
    and r: "0 < r"
    and pci: "pciLowerBound (al_tree a) (map (id_at a) taken) (map (id_at a) rest)
      (nat (known_finally (prune_state a taken rest v) 0 r)) = Some pci"
  shows "forest_bound a (prune_state a taken rest v) r pci \<le> placement_score a (taken @ c)"
proof -
  let ?s = "prune_state a taken rest v" and ?S = "placement_score a (taken @ c)"
  let ?d = "diameter_bound a ?s r" and ?f = "forest_bound a ?s r pci"
  note p = prefix_bound_le [OF g ok c, of v] and sel = completion_selection [OF ok c]
  note sums = geometry_sums [OF g sel(1)]
  have prefix: "unknownNUMA ?f = unknownNUMA (prefix_bound ?s 0 r)"
    "numaNodes ?f = numaNodes (prefix_bound ?s 0 r)" "sidGroups ?f = sidGroups (prefix_bound ?s 0 r)"
    "unknownPCI ?f = unknownPCI (prefix_bound ?s 0 r)"
    by (simp_all add: forest_bound_def diameter_bound_def Let_def)
  show ?thesis
  proof (rule score_leI)
    assume "unknownPCI ?f = unknownPCI ?S"
    then have known: "known_finally ?s 0 r = known_pci a (taken @ c)"
      by (intro known_finally_eq [OF c]) (simp add: prefix)
    let ?P = "paths_at a path (taken @ c)"
    have P: "?P = paths_of path (map (id_at a) taken @ map (id_at a) c)" by (simp add: paths_at_def)
    have sub: "subseq (map (id_at a) c) (map (id_at a) rest)"
      using c by (simp add: completes_def subseq_map)
    have len: "nat (known_finally ?s 0 r) = length ?P" using sums(3) by (simp add: known)
    have rep: "tree_rep fam path ps (al_tree a)" using g by (simp add: geometry_def)
    have le: "placement_le pci (separateRoots ?S) (totalDistance ?S)"
      using pciLowerBound_admissible [OF rep P sub total_hops_small [OF g sel(1,2)]] pci
      unfolding len by (simp add: placement_score_def sums(1,2))
    show "separateRoots ?f < separateRoots ?S \<or> separateRoots ?f = separateRoots ?S
        \<and> maxDistance ?f \<le> maxDistance ?S \<and> totalDistance ?f \<le> totalDistance ?S"
    proof (cases "cost_separateRoots pci < separateRoots ?S")
      case True
      then show ?thesis by (simp add: forest_bound_def Let_def)
    next
      case False
      then have eq: "cost_separateRoots pci = separateRoots ?S" "cost_totalDistance pci \<le> totalDistance ?S"
        using le by (auto simp: placement_le_def)
      have "min_distance a \<le> maxDistance ?S" if "half_pairs (known_finally ?s 0 r) > separateRoots ?S"
        using max_distance_connected [OF g sel(1,2)] that
        by (simp add: known connected_pairs_eq [OF g sel(1)] placement_score_def)
      then show ?thesis
        using eq diameter_bound_fields [OF g ok c r, of v]
        by (simp add: forest_bound_def Let_def prune_state_arrays [OF ok])
    qed
  qed (use p in \<open>simp_all add: prefix\<close>)
qed

lemma lowerBound_le:
  assumes g: "geometry a fam path ps" and ok: "selection_ok a taken rest" and c: "completes rest r c"
    and r: "0 < r" and "lowerBound a (prune_state a taken rest v) 0 r = Some b"
  shows "b \<le> placement_score a (taken @ c)"
  using assms(5) cheap_bound_le [OF g ok c, of v] diameter_bound_le [OF g ok c r, of v]
    forest_bound_le [OF g ok c r, of v]
  by (auto simp: lowerBound_forms prune_state_simps split: if_splits)

lemma lowerBound_total:
  assumes "geometry a fam path ps"
  shows "lowerBound a (prune_state a taken rest v) 0 r \<noteq> None"
proof -
  have "tree_rep fam path ps (al_tree a)" using assms by (simp add: geometry_def)
  then show ?thesis using pciLowerBound_total by (auto simp: lowerBound_forms)
qed

lemma geometry_bound_total: "geometry a fam path ps \<Longrightarrow> bound_total a"
  using lowerBound_total by (auto simp: bound_total_def)

end
