(* ===== verification/Selection.thy ===== *)
theory Selection imports AdmissibleBound begin

text \<open>
  \<open>SelectDevices\<close> is an exhaustive search: the contract of theory \<open>BranchBound\<close> is interpreted on
  the code's score and pruning test, and the placement score is read back as a score of device
  identifiers that mentions neither the allocator nor the PCI tree.
\<close>

section \<open>The search is exhaustive\<close>

definition search_ok :: "topologyAllocator \<Rightarrow> nat list \<Rightarrow> nat list \<Rightarrow> bool" where
  "search_ok a taken rest \<longleftrightarrow> selection_ok a taken rest \<and> (\<exists>fam path ps. geometry a fam path ps)"

interpretation allocator: admissible_pruning "placement_score a" "prunes a" "search_ok a" for a
proof unfold_locales
  fix taken rest i
  assume "search_ok a taken rest" "i < length rest"
  then show "search_ok a (taken @ [rest ! i]) (drop (Suc i) rest)"
    using selection_ok_step by (auto simp: search_ok_def)
next
  fix taken rest r v c
  assume ok: "search_ok a taken rest" and p: "prunes a taken rest r v" and r: "0 < r"
    and c: "c \<in> set (combs r rest)"
  obtain fam path ps where g: "geometry a fam path ps" and sel: "selection_ok a taken rest"
    using ok by (auto simp: search_ok_def)
  obtain b where b: "lowerBound a (prune_state a taken rest v) 0 r = Some b" "\<not> b < v"
    using p by (auto simp: prunes_def score_less_iff split: option.splits)
  have "b \<le> placement_score a (taken @ c)"
    using c by (intro lowerBound_le [OF g sel _ r b(1)]) (simp add: completes_combs)
  with b(2) show "v \<le> placement_score a (taken @ c)" by simp
qed

lemma search_first_min:
  assumes g: "geometry a fam path ps" and s: "placed a F s" "prepared a s" "best s = None"
    and ok: "selection_ok a F (candidates s)"
  shows "\<exists>s'. search a r 0 s = Some s' \<and>
    best s' = map_option fst (first_min (placement_score a) (map ((@) F) (combs r (candidates s))))"
proof -
  have cs: "set (candidates s) \<subseteq> {..<length (al_devices a)}" using ok by (simp add: selection_ok_def)
  obtain b v where bv: "search a r 0 s = Some (s\<lparr>best := b, bestScore := v\<rparr>)"
    "best_pair b v = bounded_search (placement_score a) (prunes a) r F (drop 0 (candidates s))
       (best_pair (best s) (bestScore s))"
    using search_refines_bounded_search [OF geometry_bound_total [OF g], of F 0 s r] ok s cs by auto
  have "search_ok a F (candidates s)" using ok g by (auto simp: search_ok_def)
  from allocator.bounded_search_first_min [OF this] bv(2) s(3)
  have "best_pair b v = first_min (placement_score a) (map ((@) F) (combs r (candidates s)))"
    by (simp add: best_pair_def)
  moreover have "map_option fst (best_pair b v) = b" by (cases b) (simp_all add: best_pair_def)
  ultimately have "best (s\<lparr>best := b, bestScore := v\<rparr>) =
      map_option fst (first_min (placement_score a) (map ((@) F) (combs r (candidates s))))" by simp
  with bv(1) show ?thesis by blast
qed

section \<open>The score of a set of devices\<close>

text \<open>
  The policy as the comments and tests of the repository state it, computed from the device
  records and the canonical sysfs paths alone.
\<close>

definition policy_score ::
    "filesystem \<Rightarrow> npuDevice go_map \<Rightarrow> string list \<Rightarrow> allocationScore" where
  "policy_score fs devices ids =
     (let numa = (\<lambda>i. numa_value (device_at devices i));
          pair = (\<lambda>i j. path_distance (device_path fs devices i) (device_path fs devices j))
      in \<lparr>unknownNUMA = int (length (filter (\<lambda>i. numa i = None) ids)),
          numaNodes = int (card (numa ` set ids - {None})),
          sidGroups = int (card ((\<lambda>i. sid_key i (device_at devices i)) ` set ids)),
          unknownPCI = int (length (filter (\<lambda>i. device_path fs devices i = None) ids)),
          separateRoots = pair_sum (\<lambda>i j. pair_sep (pair i j)) ids,
          maxDistance = pair_max (\<lambda>i j. pair_dist (pair i j)) ids,
          totalDistance = pair_sum (\<lambda>i j. pair_dist (pair i j)) ids\<rparr>)"

lemma card_image_eq:
  assumes "\<And>x y. x \<in> A \<Longrightarrow> y \<in> A \<Longrightarrow> f x = f y \<longleftrightarrow> g x = g y"
  shows "card (f ` A) = card (g ` A)"
proof -
  have "bij_betw (\<lambda>z. g (inv_into A f z)) (f ` A) (g ` A)"
    unfolding bij_betw_def
  proof
    have inv: "inv_into A f (f x) \<in> A \<and> g (inv_into A f (f x)) = g x" if "x \<in> A" for x
      using that assms [of "inv_into A f (f x)" x] inv_into_into [of "f x" f A] f_inv_into_f [of "f x" f A]
      by auto
    show "(\<lambda>z. g (inv_into A f z)) ` f ` A = g ` A" using inv by (auto simp: image_image)
    show "inj_on (\<lambda>z. g (inv_into A f z)) (f ` A)"
      using inv assms by (auto simp: inj_on_def)
  qed
  then show ?thesis by (rule bij_betw_same_card)
qed

lemma pairs_of_map: "pairs_of (map f xs) = map (\<lambda>(x, y). (f x, f y)) (pairs_of xs)"
  by (induction xs) auto

lemma pair_sum_map: "pair_sum f (map h xs) = pair_sum (\<lambda>x y. f (h x) (h y)) xs"
  by (simp add: pair_sum_def pairs_of_map comp_def split_def)

lemma pair_max_map: "pair_max f (map h xs) = pair_max (\<lambda>x y. f (h x) (h y)) xs"
  by (simp add: pair_max_def pairs_of_map image_image split_def)

lemma pair_max_cong:
  assumes "\<And>x y. (x, y) \<in> set (pairs_of xs) \<Longrightarrow> f x y = g x y"
  shows "pair_max f xs = pair_max g xs"
proof -
  have "(\<lambda>(x, y). f x y) ` set (pairs_of xs) = (\<lambda>(x, y). g x y) ` set (pairs_of xs)"
    using assms by (intro image_cong) auto
  then show ?thesis by (simp add: pair_max_def)
qed

lemma placement_policy_score:
  assumes a: "allocator_for fs devices a" and F: "in_range a F"
  shows "placement_score a F = policy_score fs devices (map (id_at a) F)"
proof -
  let ?numa = "\<lambda>i. numa_value (device_at devices (id_at a i))"
  let ?sid = "\<lambda>i. sid_key (id_at a i) (device_at devices (id_at a i))"
  have i: "i < length (al_devices a)" if "i \<in> set F" for i using that F by (auto simp: in_range_def)
  have numa: "ad_numa (dev_of a i) < 0 \<longleftrightarrow> ?numa i = None"
    and pci: "ad_hasPCI (dev_of a i) \<longleftrightarrow> device_path fs devices (id_at a i) \<noteq> None" if "i \<in> set F" for i
    using a i [OF that] by (auto simp: allocator_for_def)
  have sid_eq: "ad_sid (dev_of a i) = ad_sid (dev_of a j) \<longleftrightarrow> ?sid i = ?sid j"
    if "i \<in> set F" "j \<in> set F" for i j
    using a i [OF that(1)] i [OF that(2)] by (auto simp: allocator_for_def)
  have numa_eq: "ad_numa (dev_of a i) = ad_numa (dev_of a j) \<longleftrightarrow> ?numa i = ?numa j"
    if "i \<in> set F" "j \<in> set F" "0 \<le> ad_numa (dev_of a i)" for i j
    using a i [OF that(1)] i [OF that(2)] that(3) by (auto simp: allocator_for_def)
  have pairs: "sep_of a x y = pair_sep (path_distance (device_path fs devices (id_at a x))
        (device_path fs devices (id_at a y)))"
    "dist_of a x y = pair_dist (path_distance (device_path fs devices (id_at a x))
        (device_path fs devices (id_at a y)))" if "(x, y) \<in> set (pairs_of F)" for x y
    using a in_range_pairs [OF F that] by (auto simp: allocator_for_def sep_of_def dist_of_def)
  have "unknownNUMA (placement_score a F) = unknownNUMA (policy_score fs devices (map (id_at a) F))"
    using numa by (simp add: placement_score_def policy_score_def Let_def filter_map comp_def cong: filter_cong)
  moreover have "numaNodes (placement_score a F) = numaNodes (policy_score fs devices (map (id_at a) F))"
  proof -
    let ?A = "{i \<in> set F. 0 \<le> ad_numa (dev_of a i)}"
    have "card ((\<lambda>i. ad_numa (dev_of a i)) ` ?A) = card (?numa ` ?A)"
      by (rule card_image_eq) (use numa_eq in auto)
    moreover have "?numa ` ?A = ?numa ` set F - {None}" using numa by (auto simp: not_less [symmetric])
    ultimately show ?thesis
      by (simp add: placement_score_def policy_score_def Let_def image_image)
  qed
  moreover have "sidGroups (placement_score a F) = sidGroups (policy_score fs devices (map (id_at a) F))"
    using card_image_eq [of "set F" "\<lambda>i. ad_sid (dev_of a i)" ?sid] sid_eq
    by (simp add: placement_score_def policy_score_def Let_def image_image)
  moreover have "unknownPCI (placement_score a F) = unknownPCI (policy_score fs devices (map (id_at a) F))"
    using pci by (simp add: placement_score_def policy_score_def Let_def filter_map comp_def cong: filter_cong)
  moreover have "separateRoots (placement_score a F) = separateRoots (policy_score fs devices (map (id_at a) F))"
    using pair_sum_cong [OF pairs(1)] by (simp add: placement_score_def policy_score_def Let_def pair_sum_map)
  moreover have "totalDistance (placement_score a F) = totalDistance (policy_score fs devices (map (id_at a) F))"
    using pair_sum_cong [OF pairs(2)] by (simp add: placement_score_def policy_score_def Let_def pair_sum_map)
  moreover have "maxDistance (placement_score a F) = maxDistance (policy_score fs devices (map (id_at a) F))"
    using pair_max_cong [OF pairs(2)] by (simp add: placement_score_def policy_score_def Let_def pair_max_map)
  ultimately show ?thesis by (intro allocationScore.equality) simp_all
qed

section \<open>SelectDevices\<close>

lemma normalize_loop_props:
  "set (normalize_loop ids sel) = set ids \<union> set sel"
  "distinct sel \<Longrightarrow> distinct (normalize_loop ids sel)"
  by (induction ids sel rule: normalize_loop.induct) auto

lemma combs_map: "combs r (map f xs) = map (map f) (combs r xs)"
  by (induction r xs rule: combs.induct) auto

lemma first_min_map:
  assumes "\<And>c. c \<in> set cs \<Longrightarrow> rank' (f c) = rank c"
  shows "first_min rank' (map f cs) = map_option (\<lambda>(c, v). (f c, v)) (first_min rank cs)"
proof -
  have "fold (improve rank') (map f cs) (map_option (\<lambda>(c, v). (f c, v)) b) =
      map_option (\<lambda>(c, v). (f c, v)) (fold (improve rank) cs b)" for b
    using assms
  proof (induction cs arbitrary: b)
    case (Cons c cs)
    have "improve rank' (f c) (map_option (\<lambda>(c, v). (f c, v)) b) =
        map_option (\<lambda>(c, v). (f c, v)) (improve rank c b)"
      using Cons.prems [of c] by (simp add: improve_def split: option.split)
    with Cons show ?case by simp
  qed simp
  from this [of None] show ?thesis by (simp add: first_min_def)
qed

definition small_inventory :: "filesystem \<Rightarrow> npuDevice go_map \<Rightarrow> bool" where
  "small_inventory fs devices \<longleftrightarrow> length devices \<le> 2 ^ 20
     \<and> (\<forall>i p. device_path fs devices i = Some p \<longrightarrow> length p \<le> 4096)"

lemma allocator_geometry:
  assumes "allocator_for fs devices a" "small_inventory fs devices"
  shows "\<exists>ps. geometry a (ancestor_family fs) (device_path fs devices) ps"
proof -
  obtain ps where "tree_rep (ancestor_family fs) (device_path fs devices) ps (newPCITree fs devices)"
    using newPCITree_rep by blast
  moreover have "length (al_devices a) = length devices"
  proof -
    have "map ad_id (al_devices a) = sortedDeviceIDs devices"
      using assms(1) by (simp add: allocator_for_def)
    from arg_cong [where f = length, OF this] show ?thesis by simp
  qed
  ultimately show ?thesis
    using assms by (auto simp: geometry_def allocator_for_def small_tree_def small_inventory_def)
qed

text \<open>The completions in lexicographic order of the identifiers, and the first best of them.\<close>

definition completions :: "npuDevice go_map \<Rightarrow> string list \<Rightarrow> nat \<Rightarrow> string list list" where
  "completions devices sel r =
     map ((@) sel) (combs r (filter (\<lambda>i. i \<notin> set sel) (sortedDeviceIDs devices)))"

definition best_completion ::
    "filesystem \<Rightarrow> npuDevice go_map \<Rightarrow> string list \<Rightarrow> nat \<Rightarrow> string list option" where
  "best_completion fs devices sel r =
     map_option fst (first_min (policy_score fs devices) (completions devices sel r))"

lemma map_id_at_indices:
  "allocator_for fs devices a \<Longrightarrow> map (id_at a) [0 ..< length (al_devices a)] = sortedDeviceIDs devices"
proof -
  assume a: "allocator_for fs devices a"
  have "map (id_at a) [0 ..< length (al_devices a)] = map ad_id (map ((!) (al_devices a)) [0 ..< length (al_devices a)])"
    by (simp add: id_at_def)
  then show ?thesis using a by (simp only: map_nth allocator_for_def)
qed

lemma candidate_ids:
  assumes "allocator_for fs devices a"
  shows "map (id_at a) (candidate_indices a X) = filter (\<lambda>i. i \<notin> X) (sortedDeviceIDs devices)"
  unfolding map_id_at_indices [OF assms, symmetric]
  by (simp add: candidate_indices_def filter_map comp_def id_at_def)

definition index_of :: "topologyAllocator \<Rightarrow> string \<Rightarrow> nat" where
  "index_of a i = (case map_of (al_byID a) i of None \<Rightarrow> 0 | Some k \<Rightarrow> k)"

lemma index_of_id:
  assumes a: "allocator_for fs devices a" and i: "i \<in> fst ` set devices"
  shows "index_of a i < length (al_devices a)" "id_at a (index_of a i) = i"
proof -
  have "i \<in> set (map (id_at a) [0 ..< length (al_devices a)])"
    using i by (simp only: map_id_at_indices [OF a] set_sortedDeviceIDs)
  then obtain k where "k < length (al_devices a)" "i = id_at a k" by auto
  with a show "index_of a i < length (al_devices a)" "id_at a (index_of a i) = i"
    by (auto simp: allocator_for_def index_of_def)
qed

lemma initial_search_placed:
  assumes a: "allocator_for fs devices a" and "set sel \<subseteq> fst ` set devices"
  shows "placed a (map (index_of a) sel) (initial_search a sel) \<and> best (initial_search a sel) = None"
proof -
  let ?zero = "\<lparr>candidates = [], chosen = [], best = None,
               sidCounts = replicate (al_sidCount a) 0, numaCounts = replicate (al_numaCount a) 0,
               score = zeroScore, bestScore = zeroScore, suffixSID = [], suffixKnownNUMA = [],
               suffixKnownPCI = [], minDistance = 0, minSeparateRoots = 0\<rparr> :: allocationSearch"
  have start: "placed a [] ?zero"
    by (simp add: placed_def placement_score_def zeroScore_def sid_counts_def numa_counts_def
        map_replicate_const)
  have "placed a (F @ map (index_of a) sel) (fold (\<lambda>i s. search_add a (index_of a i) s) sel s)
      \<and> best (fold (\<lambda>i s. search_add a (index_of a i) s) sel s) = best s"
    if "placed a F s" "set sel \<subseteq> fst ` set devices" for F s
    using that
  proof (induction sel arbitrary: F s)
    case (Cons i sel)
    have "indices_ok a" using a by (simp add: allocator_for_def)
    then have "placed a (F @ [index_of a i]) (search_add a (index_of a i) s)"
      using index_of_id(1) [OF a, of i] Cons.prems by (intro placed_search_add) auto
    from Cons.IH [OF this] Cons.prems(2) show ?case by (simp add: search_add_frame)
  qed simp
  from this [OF start assms(2)] show ?thesis by (simp add: initial_search_def index_of_def [abs_def])
qed

lemma candidates_update_frame:
  "placed a F (s\<lparr>candidates := cs\<rparr>) = placed a F s" "placed a F (prepareBounds a s) = placed a F s"
  by (simp_all add: placed_def prepareBounds_frame)

lemma SelectDevices_best:
  assumes ok: "go_map_ok devices" and small: "small_inventory fs devices"
    and a: "allocator_for fs devices a" and must: "set must \<subseteq> fst ` set devices"
  defines "sel \<equiv> normalize_loop must []"
  shows "SelectDevices a must n = Some (if n \<le> int (length sel) then sel
    else case best_completion fs devices sel (nat (n - int (length sel))) of None \<Rightarrow> [] | Some ids \<Rightarrow> ids)"
proof (cases "n \<le> int (length sel)")
  case True
  then show ?thesis by (simp add: SelectDevices_def normalizeMustInclude_def sel_def Let_def)
next
  case False
  have sel: "set sel \<subseteq> fst ` set devices" "distinct sel"
    using must normalize_loop_props(1) [of must "[]"] normalize_loop_props(2) [of "[]" must]
    by (auto simp: sel_def)
  obtain ps where g: "geometry a (ancestor_family fs) (device_path fs devices) ps"
    using allocator_geometry [OF a small] by blast
  have idx: "indices_ok a" using a by (simp add: allocator_for_def)
  let ?F = "map (index_of a) sel" and ?cs = "candidate_indices a (set sel)"
  let ?init = "initial_search a sel"
  let ?s = "prepareBounds a (?init\<lparr>candidates := ?cs\<rparr>)" and ?r = "nat (n - int (length sel))"
  note init = initial_search_placed [OF a sel(1)]
  have cs: "set ?cs \<subseteq> {..<length (al_devices a)}" "distinct ?cs"
    by (auto simp: candidate_indices_def)
  have ids: "map (id_at a) ?F = sel"
    using index_of_id(2) [OF a] subsetD [OF sel(1)] by (auto simp: comp_def intro!: map_idI)
  have F: "set ?F \<subseteq> {..<length (al_devices a)}" using index_of_id(1) [OF a] subsetD [OF sel(1)] by auto
  have "distinct ?F" using sel(2) ids by (metis distinct_map)
  moreover have "set ?F \<inter> set ?cs = {}"
  proof -
    have "id_at a k \<in> set sel" if "k \<in> set ?F" for k using that ids by (metis imageI list.set_map)
    then show ?thesis by (auto simp: candidate_indices_def id_at_def)
  qed
  ultimately have ok_sel: "selection_ok a ?F ?cs" using cs F idx by (auto simp: selection_ok_def)
  have "placed a ?F ?s" "prepared a ?s" "best ?s = None" "candidates ?s = ?cs"
    using init cs(1) idx prepareBounds_prepared [of a "?init\<lparr>candidates := ?cs\<rparr>"]
    by (auto simp: candidates_update_frame prepareBounds_frame placed_def sid_counts_def)
  with search_first_min [OF g, of ?F ?s ?r] ok_sel obtain s' where
    s': "search a ?r 0 ?s = Some s'"
      "best s' = map_option fst (first_min (placement_score a) (map ((@) ?F) (combs ?r ?cs)))" by auto
  have comp: "completions devices sel ?r = map (map (id_at a)) (map ((@) ?F) (combs ?r ?cs))"
    by (simp add: completions_def candidate_ids [OF a, symmetric] combs_map comp_def ids del: map_map
        add: map_map [symmetric]) (simp add: comp_def ids [unfolded map_map comp_def])
  have rank: "policy_score fs devices (map (id_at a) c) = placement_score a c"
    if c: "c \<in> set (map ((@) ?F) (combs ?r ?cs))" for c
  proof -
    obtain c' where c': "c = ?F @ c'" "subseq c' ?cs" using c by (auto simp: set_combs)
    have "in_range a c" using F cs(1) subseq_subset [OF c'(2)] by (auto simp: in_range_def c'(1))
    then show ?thesis by (simp add: placement_policy_score [OF a])
  qed
  have "first_min (policy_score fs devices) (completions devices sel ?r) =
      map_option (\<lambda>(c, v). (map (id_at a) c, v))
        (first_min (placement_score a) (map ((@) ?F) (combs ?r ?cs)))"
    unfolding comp by (rule first_min_map) (rule rank)
  then have "best_completion fs devices sel ?r = map_option (map (id_at a)) (best s')"
    by (simp add: best_completion_def s'(2) option.map_comp comp_def split_def)
  with False s'(1) show ?thesis
    by (cases "best s'") (simp_all add: SelectDevices_def normalizeMustInclude_def sel_def [symmetric]
        Let_def id_at_def [abs_def])
qed

end
