(* ===== verification/Preferred.thy ===== *)
theory Preferred imports Selection begin

text \<open>
  \<open>selectPreferredDeviceIDs\<close> with its validation (\<open>topology_allocator.go\<close>), and
  \<open>availableDevices\<close> of \<open>plugin.go\<close>.  The receiver enters through its resource name and its
  device map.  The outer \<open>option\<close> is the one of the tree routines; a request never returns \<open>None\<close>.
\<close>

section \<open>Operations\<close>

datatype select_error =
    NegativeSize
  | UnmanagedDevice string string
  | TooFewAvailable int nat
  | UnknownMustInclude string
  | MustIncludeExceeds nat int
  | WrongSelection nat int

fun available_loop ::
    "string \<Rightarrow> npuDevice go_map \<Rightarrow> string list \<Rightarrow> npuDevice go_map \<Rightarrow>
     (select_error, npuDevice go_map) go_result" where
  "available_loop resourceName devices [] available = Inr available"
| "available_loop resourceName devices (i # ids) available =
     (if map_of available i \<noteq> None then available_loop resourceName devices ids available
      else (case map_of devices i of
              None \<Rightarrow> Inl (UnmanagedDevice resourceName i)
            | Some d \<Rightarrow> available_loop resourceName devices ids (AList.update i d available)))"

definition availableDevices ::
    "string \<Rightarrow> npuDevice go_map \<Rightarrow> string list \<Rightarrow> (select_error, npuDevice go_map) go_result" where
  "availableDevices resourceName devices deviceIDs = available_loop resourceName devices deviceIDs []"

fun validate_loop ::
    "npuDevice go_map \<Rightarrow> string list \<Rightarrow> string list \<Rightarrow> (select_error, string list) go_result" where
  "validate_loop available [] seen = Inr seen"
| "validate_loop available (i # ids) seen =
     (if i \<in> set seen then validate_loop available ids seen
      else if map_of available i = None then Inl (UnknownMustInclude i)
      else validate_loop available ids (seen @ [i]))"

definition validateMustInclude ::
    "npuDevice go_map \<Rightarrow> string list \<Rightarrow> int \<Rightarrow> select_error option" where
  "validateMustInclude available mustIncludeDeviceIDs allocationSize =
     (case validate_loop available mustIncludeDeviceIDs [] of
        Inl err \<Rightarrow> Some err
      | Inr seen \<Rightarrow>
          if int (length seen) > allocationSize
          then Some (MustIncludeExceeds (length seen) allocationSize) else None)"

definition selectPreferredDeviceIDs ::
    "filesystem \<Rightarrow> string \<Rightarrow> npuDevice go_map \<Rightarrow> string list \<Rightarrow> string list \<Rightarrow> int \<Rightarrow>
     (select_error, string list) go_result option" where
  "selectPreferredDeviceIDs fs resourceName devices availableDeviceIDs mustIncludeDeviceIDs allocationSize =
     (if allocationSize < 0 then Some (Inl NegativeSize)
      else (case availableDevices resourceName devices availableDeviceIDs of
        Inl err \<Rightarrow> Some (Inl err)
      | Inr available \<Rightarrow>
          if allocationSize > int (length available)
          then Some (Inl (TooFewAvailable allocationSize (length available)))
          else (case validateMustInclude available mustIncludeDeviceIDs allocationSize of
            Some err \<Rightarrow> Some (Inl err)
          | None \<Rightarrow>
              (let (selected, excluded) = normalizeMustInclude mustIncludeDeviceIDs in
               if int (length selected) = allocationSize then Some (Inr selected)
               else if allocationSize = int (length available)
               then Some (Inr (selected
                      @ filter (\<lambda>i. i \<notin> excluded) (sortedDeviceIDs available)))
               else Option.bind (newTopologyAllocator fs available) (\<lambda>a.
                      map_option (\<lambda>selected.
                          if int (length selected) \<noteq> allocationSize
                          then Inl (WrongSelection (length selected) allocationSize)
                          else Inr selected)
                        (SelectDevices a mustIncludeDeviceIDs allocationSize))))))"

section \<open>The available devices\<close>

lemma available_loop_Inr:
  "available_loop res devices ids av = Inr av' \<Longrightarrow>
     (\<forall>i. map_of av' i = (if i \<in> set ids \<and> map_of av i = None then map_of devices i else map_of av i))
     \<and> (\<forall>i\<in>set ids. map_of av i = None \<longrightarrow> map_of devices i \<noteq> None) \<and> (go_map_ok av \<longrightarrow> go_map_ok av')"
proof (induction res devices ids av rule: available_loop.induct)
  case (2 res devices i ids av)
  show ?case
  proof (cases "map_of av i")
    case (Some d)
    with 2 show ?thesis by auto
  next
    case None
    with 2(3) obtain d where d: "map_of devices i = Some d" by (auto split: option.splits)
    with None 2(2) [OF _ d] 2(3) show ?thesis
      by (auto simp: map_of_AList_update go_map_ok_update split: if_splits)
  qed
qed simp

lemma available_loop_Inl:
  "available_loop res devices ids av = Inl err \<Longrightarrow>
     \<exists>us i ws. ids = us @ i # ws \<and> err = UnmanagedDevice res i \<and> map_of devices i = None
       \<and> (\<forall>j\<in>set us. map_of av j \<noteq> None \<or> map_of devices j \<noteq> None)"
proof (induction res devices ids av rule: available_loop.induct)
  case (2 res devices i ids av)
  show ?case
  proof (cases "map_of av i \<noteq> None \<or> map_of devices i \<noteq> None")
    case True
    have "\<exists>us k ws. ids = us @ k # ws \<and> err = UnmanagedDevice res k \<and> map_of devices k = None
       \<and> (\<forall>j\<in>set us. map_of av j \<noteq> None \<or> map_of devices j \<noteq> None)"
    proof (cases "map_of av i")
      case (Some d)
      with 2(1,3) show ?thesis by simp
    next
      case None
      with True obtain d where d: "map_of devices i = Some d" by auto
      with None 2(3) have "available_loop res devices ids (AList.update i d av) = Inl err" by simp
      with 2(2) [OF _ d] None obtain us k ws where "ids = us @ k # ws" "err = UnmanagedDevice res k"
        "map_of devices k = None"
        "\<forall>j\<in>set us. map_of (AList.update i d av) j \<noteq> None \<or> map_of devices j \<noteq> None" by auto
      with d show ?thesis by (metis map_of_AList_update fun_upd_apply option.distinct(1))
    qed
    then obtain us k ws where "ids = us @ k # ws" "err = UnmanagedDevice res k" "map_of devices k = None"
      "\<forall>j\<in>set us. map_of av j \<noteq> None \<or> map_of devices j \<noteq> None" by blast
    with True show ?thesis by (intro exI [of _ "i # us"] exI [of _ k] exI [of _ ws]) auto
  next
    case False
    with 2(3) show ?thesis by (intro exI [of _ "[]"] exI [of _ i] exI [of _ ids]) auto
  qed
qed simp

lemma availableDevices_Inr:
  assumes "availableDevices res devices ids = Inr av"
  shows "go_map_ok av" "fst ` set av = set ids" "set ids \<subseteq> fst ` set devices"
    "i \<in> set ids \<Longrightarrow> map_of av i = map_of devices i" "map_of av i \<noteq> None \<longleftrightarrow> i \<in> set ids"
proof -
  have m: "map_of av i = (if i \<in> set ids then map_of devices i else None)"
    and d: "i \<in> set ids \<Longrightarrow> map_of devices i \<noteq> None" and ok: "go_map_ok av" for i
    using available_loop_Inr [of res devices ids "[]" av] assms by (auto simp: availableDevices_def)
  show "go_map_ok av" by (rule ok)
  show keys: "map_of av i \<noteq> None \<longleftrightarrow> i \<in> set ids" for i using m d by auto
  then show "fst ` set av = set ids"
    by (intro set_eqI) (metis keys_iff_map_of not_None_eq)
  show "set ids \<subseteq> fst ` set devices" using d by (metis keys_iff_map_of not_None_eq subsetI)
  show "i \<in> set ids \<Longrightarrow> map_of av i = map_of devices i" using m by simp
qed

lemma availableDevices_defined:
  assumes "set ids \<subseteq> fst ` set devices"
  obtains av where "availableDevices res devices ids = Inr av"
proof (cases "availableDevices res devices ids")
  case (Inl err)
  then obtain i where "i \<in> set ids" "map_of devices i = None"
    using available_loop_Inl by (force simp: availableDevices_def)
  with assms show ?thesis by (auto simp: map_of_eq_None_iff)
qed (use that in blast)

lemma length_available:
  "availableDevices res devices ids = Inr av \<Longrightarrow> length av = card (set ids)"
  using availableDevices_Inr(1,2) [of res devices ids av]
  by (metis distinct_card go_map_ok_def length_map list.set_map)

section \<open>The devices that must be included\<close>

lemma validate_loop_cases:
  "validate_loop av ids seen =
     (case find (\<lambda>i. i \<notin> set seen \<and> map_of av i = None) ids of
        Some i \<Rightarrow> Inl (UnknownMustInclude i)
      | None \<Rightarrow> Inr (normalize_loop ids seen))"
proof (induction av ids seen rule: validate_loop.induct)
  case (2 av i ids seen)
  have "find (\<lambda>j. j \<notin> set (seen @ [i]) \<and> map_of av j = None) ids
      = find (\<lambda>j. j \<notin> set seen \<and> map_of av j = None) ids" if "map_of av i \<noteq> None"
    using that by (intro find_cong) auto
  with 2 show ?case by (auto split: option.split)
qed simp

lemma validateMustInclude_cases:
  "validateMustInclude av must n =
     (case find (\<lambda>i. map_of av i = None) must of
        Some i \<Rightarrow> Some (UnknownMustInclude i)
      | None \<Rightarrow> if int (card (set must)) > n then Some (MustIncludeExceeds (card (set must)) n) else None)"
proof -
  have "length (normalize_loop must []) = card (set must)"
    using normalize_loop_props(1) [of must "[]"] normalize_loop_props(2) [of "[]" must]
    by (metis append_Nil distinct.simps(1) distinct_card list.set(1) sup_bot_right)
  then show ?thesis by (simp add: validateMustInclude_def validate_loop_cases split: option.split)
qed

section \<open>Valid requests\<close>

definition valid_request :: "npuDevice go_map \<Rightarrow> string list \<Rightarrow> string list \<Rightarrow> int \<Rightarrow> bool" where
  "valid_request devices available must n \<longleftrightarrow>
     0 \<le> n \<and> set available \<subseteq> fst ` set devices \<and> n \<le> int (card (set available))
     \<and> set must \<subseteq> set available \<and> int (card (set must)) \<le> n"

text \<open>The error of a request that is not valid, in the order of the code's checks.\<close>

definition request_error ::
    "string \<Rightarrow> npuDevice go_map \<Rightarrow> string list \<Rightarrow> string list \<Rightarrow> int \<Rightarrow> select_error" where
  "request_error res devices available must n =
     (if n < 0 then NegativeSize
      else (case find (\<lambda>i. map_of devices i = None) available of
        Some i \<Rightarrow> UnmanagedDevice res i
      | None \<Rightarrow>
          if n > int (card (set available)) then TooFewAvailable n (card (set available))
          else (case find (\<lambda>i. i \<notin> set available) must of
            Some i \<Rightarrow> UnknownMustInclude i
          | None \<Rightarrow> MustIncludeExceeds (card (set must)) n)))"

lemma find_first: "(\<forall>j\<in>set us. \<not> P j) \<Longrightarrow> P i \<Longrightarrow> find P (us @ i # ws) = Some i"
  by (induction us) auto

lemma availableDevices_Inl:
  assumes "\<not> set ids \<subseteq> fst ` set devices"
  shows "\<exists>i. availableDevices res devices ids = Inl (UnmanagedDevice res i)
    \<and> find (\<lambda>i. map_of devices i = None) ids = Some i"
proof (cases "availableDevices res devices ids")
  case (Inl err)
  then have "available_loop res devices ids [] = Inl err" by (simp add: availableDevices_def)
  from available_loop_Inl [OF this] obtain us i ws where
    i: "ids = us @ i # ws" "err = UnmanagedDevice res i" "map_of devices i = None"
    "\<forall>j\<in>set us. map_of devices j \<noteq> None" by auto
  then have "find (\<lambda>i. map_of devices i = None) ids = Some i"
    unfolding i(1) by (intro find_first) auto
  with Inl i(2) show ?thesis by simp
next
  case (Inr av)
  with assms availableDevices_Inr(3) show ?thesis by blast
qed

lemma find_unmanaged_None:
  "set ids \<subseteq> fst ` set devices \<Longrightarrow> find (\<lambda>i. map_of devices i = None) ids = None"
  by (auto simp: find_None_iff map_of_eq_None_iff)

lemma selectPreferred_invalid:
  assumes "\<not> valid_request devices available must n"
  shows "selectPreferredDeviceIDs fs res devices available must n
    = Some (Inl (request_error res devices available must n))"
proof (cases "0 \<le> n \<and> set available \<subseteq> fst ` set devices")
  case False
  show ?thesis
  proof (cases "n < 0")
    case True
    then show ?thesis by (simp add: selectPreferredDeviceIDs_def request_error_def)
  next
    case nonneg: False
    with False obtain i where "availableDevices res devices available = Inl (UnmanagedDevice res i)"
      "find (\<lambda>i. map_of devices i = None) available = Some i"
      using availableDevices_Inl [of available devices res] by auto
    with nonneg show ?thesis by (simp add: selectPreferredDeviceIDs_def request_error_def)
  qed
next
  case True
  then obtain av where av: "availableDevices res devices available = Inr av"
    using availableDevices_defined by blast
  note len = length_available [OF av]
  have must: "map_of av i = None \<longleftrightarrow> i \<notin> set available" for i using availableDevices_Inr(5) [OF av, of i] by auto
  have "find (\<lambda>i. i \<notin> set available) must = None \<longleftrightarrow> set must \<subseteq> set available"
    by (auto simp: find_None_iff)
  with True assms show ?thesis
    by (auto simp: selectPreferredDeviceIDs_def request_error_def av len find_unmanaged_None must
        validateMustInclude_cases valid_request_def split: option.split)
qed

lemma combs_all: "combs (length xs) xs = [xs]"
  by (induction xs) (simp_all add: combs_short)

lemma first_min_single: "first_min rank [c] = Some (c, rank c)"
  by (simp add: first_min_def improve_def)

lemma length_normalized: "length (normalize_loop must []) = card (set must)"
  using normalize_loop_props(1) [of must "[]"] normalize_loop_props(2) [of "[]" must]
  by (metis append_Nil distinct.simps(1) distinct_card list.set(1) sup_bot_right)

lemma set_normalized: "set (normalize_loop must []) = set must" "distinct (normalize_loop must [])"
  using normalize_loop_props(1) [of must "[]"] normalize_loop_props(2) [of "[]" must] by auto

lemma small_inventory_available:
  assumes "availableDevices res devices ids = Inr av" "small_inventory fs devices"
  shows "small_inventory fs av"
proof -
  have "card (set ids) \<le> card (fst ` set devices)"
    using availableDevices_Inr(3) [OF assms(1)] by (intro card_mono) auto
  also have "\<dots> \<le> length devices" by (metis card_length length_map list.set_map)
  finally have "length av \<le> 2 ^ 20"
    using length_available [OF assms(1)] assms(2) by (simp add: small_inventory_def)
  moreover have "device_path fs av i = Some p \<Longrightarrow> device_path fs devices i = Some p" for i p
    using availableDevices_Inr(4,5) [OF assms(1), of i]
    by (cases "i \<in> set ids") (auto simp: device_path_def)
  ultimately show ?thesis using assms(2) by (auto simp: small_inventory_def)
qed

lemma completions_nonempty:
  assumes "go_map_ok av" "set sel \<subseteq> fst ` set av" "distinct sel" "length sel + r \<le> length av"
  shows "completions av sel r \<noteq> []"
proof -
  have "length (filter (\<lambda>i. i \<notin> set sel) (sortedDeviceIDs av)) = card (fst ` set av - set sel)"
    using assms(1) by (simp add: distinct_card [symmetric] set_diff_eq Collect_conj_eq Int_commute
        Collect_mem_eq)
  also have "\<dots> = length av - length sel"
    using assms(1-3) by (metis card_Diff_subset distinct_card finite_set go_map_ok_def length_map list.set_map)
  finally show ?thesis using assms(4) by (simp add: completions_def combs_nonempty)
qed

lemma selectPreferred_valid:
  assumes v: "valid_request devices available must n" and small: "small_inventory fs devices"
  shows "\<exists>av ids. availableDevices res devices available = Inr av
    \<and> selectPreferredDeviceIDs fs res devices available must n = Some (Inr ids)
    \<and> best_completion fs av (normalize_loop must []) (nat n - card (set must)) = Some ids"
proof -
  let ?sel = "normalize_loop must []"
  obtain av where av: "availableDevices res devices available = Inr av"
    using availableDevices_defined v by (metis valid_request_def)
  note props = availableDevices_Inr [OF av] and len = length_available [OF av] and sel = set_normalized [of must]
  have must: "find (\<lambda>i. map_of av i = None) must = None"
    using v props(5) by (auto simp: find_None_iff valid_request_def)
  let ?r = "nat n - card (set must)"
  let ?rest = "filter (\<lambda>i. i \<notin> set ?sel) (sortedDeviceIDs av)"
  have ne: "completions av ?sel ?r \<noteq> []"
    using v props(1,2) sel len length_normalized [of must]
    by (intro completions_nonempty) (auto simp: valid_request_def)
  then obtain ids where ids: "best_completion fs av ?sel ?r = Some ids"
    using first_min_nonempty by (fastforce simp: best_completion_def)
  have result: "selectPreferredDeviceIDs fs res devices available must n =
      (if card (set must) = nat n then Some (Inr ?sel)
       else if nat n = length av then Some (Inr (?sel @ ?rest))
       else Option.bind (newTopologyAllocator fs av) (\<lambda>a. map_option (\<lambda>selected.
          if int (length selected) \<noteq> n then Inl (WrongSelection (length selected) n) else Inr selected)
        (SelectDevices a must n)))"
    using v must by (auto simp: selectPreferredDeviceIDs_def av len validateMustInclude_cases
        valid_request_def normalizeMustInclude_def Let_def length_normalized)
  consider (none) "card (set must) = nat n" | (all) "card (set must) \<noteq> nat n" "nat n = length av"
    | (search) "card (set must) \<noteq> nat n" "nat n \<noteq> length av" by blast
  then have "selectPreferredDeviceIDs fs res devices available must n = Some (Inr ids)"
  proof cases
    case none
    then have "ids = ?sel"
      using ids by (auto simp: best_completion_def completions_def first_min_single)
    with none show ?thesis by (simp add: result)
  next
    case all
    have "length ?rest = ?r"
    proof -
      have "length ?rest + length (filter (\<lambda>i. i \<in> set ?sel) (sortedDeviceIDs av)) = length av"
        using sum_length_filter_compl [of "\<lambda>i. i \<in> set ?sel" "sortedDeviceIDs av"] by simp
      moreover have "length (filter (\<lambda>i. i \<in> set ?sel) (sortedDeviceIDs av)) = card (set must)"
      proof -
        have "set (filter (\<lambda>i. i \<in> set ?sel) (sortedDeviceIDs av)) = set must"
          using v props(2) sel(1) by (auto simp: valid_request_def)
        moreover have "distinct (filter (\<lambda>i. i \<in> set ?sel) (sortedDeviceIDs av))"
          using props(1) by simp
        ultimately show ?thesis by (metis distinct_card)
      qed
      ultimately show ?thesis using all(2) by simp
    qed
    then have "ids = ?sel @ ?rest"
      using ids combs_all [of ?rest] by (auto simp: best_completion_def completions_def first_min_single)
    with all show ?thesis by (simp add: result)
  next
    case search
    obtain a where a: "newTopologyAllocator fs av = Some a" "allocator_for fs av a"
      using newTopologyAllocator_for [OF props(1)] by blast
    have "\<not> n \<le> int (length ?sel)" using search(1) v by (auto simp: length_normalized valid_request_def)
    moreover have "nat (n - int (length ?sel)) = ?r" by (simp add: length_normalized nat_diff_distrib')
    ultimately have "SelectDevices a must n = Some ids"
      using SelectDevices_best [OF props(1) small_inventory_available [OF av small] a(2), of must n] v
        props(2) ids by (simp add: valid_request_def)
    moreover have "int (length ids) = n"
    proof -
      obtain w where "first_min (policy_score fs av) (completions av ?sel ?r) = Some (ids, w)"
        using ids by (auto simp: best_completion_def)
      then have "ids \<in> set (completions av ?sel ?r)" using first_min_Some by fastforce
      then show ?thesis
        using v by (auto simp: completions_def set_combs length_normalized valid_request_def)
    qed
    ultimately show ?thesis using search by (simp add: result a(1))
  qed
  with av ids show ?thesis by blast
qed

end
