(* ===== verification/Policy.thy ===== *)
theory Policy imports Preferred begin

text \<open>
  The placement policy against every admissible set of devices: \<open>selectPreferredDeviceIDs\<close> returns
  a set of the requested size with the least policy score, the lexicographically first among the
  best, whatever the order of the candidates.
\<close>

section \<open>The policy score depends on the set of devices only\<close>

lemma policy_score_perm:
  assumes d: "distinct xs" "distinct ys" and eq: "set xs = set ys"
  shows "policy_score fs devices xs = policy_score fs devices ys"
proof -
  have m: "mset xs = mset ys" using d eq by (simp add: set_eq_iff_mset_eq_distinct)
  have count: "length (filter P xs) = length (filter P ys)" for P
    using m by (metis mset_filter size_mset)
  let ?pair = "\<lambda>i j. path_distance (device_path fs devices i) (device_path fs devices j)"
  have sums: "pair_sum (\<lambda>i j. pair_sep (?pair i j)) xs = pair_sum (\<lambda>i j. pair_sep (?pair i j)) ys"
    "pair_sum (\<lambda>i j. pair_dist (?pair i j)) xs = pair_sum (\<lambda>i j. pair_dist (?pair i j)) ys"
    by (rule pair_sum_perm [OF m], subst path_distance_sym, rule refl)+
  have "pair_max (\<lambda>i j. pair_dist (?pair i j)) xs = pair_max (\<lambda>i j. pair_dist (?pair i j)) ys"
    by (rule pair_max_perm [OF eq d]) (subst path_distance_sym, rule refl)
  with sums count eq show ?thesis by (simp add: policy_score_def Let_def)
qed

lemma policy_score_cong:
  assumes "\<And>i. i \<in> set ids \<Longrightarrow> map_of av i = map_of devices i"
  shows "policy_score fs av ids = policy_score fs devices ids"
proof -
  have at: "device_at av i = device_at devices i" "device_path fs av i = device_path fs devices i"
    if "i \<in> set ids" for i using assms [OF that] by (simp_all add: device_at_def device_path_def)
  have pairs: "device_path fs av x = device_path fs devices x \<and> device_path fs av y = device_path fs devices y"
    if "(x, y) \<in> set (pairs_of ids)" for x y using pairs_of_mem [OF that] at by auto
  note [cong] = filter_cong image_cong
  have "pair_sum (\<lambda>i j. f (path_distance (device_path fs av i) (device_path fs av j))) ids
      = pair_sum (\<lambda>i j. f (path_distance (device_path fs devices i) (device_path fs devices j))) ids" for f
    using pairs by (intro pair_sum_cong) simp
  moreover have "pair_max (\<lambda>i j. pair_dist (path_distance (device_path fs av i) (device_path fs av j))) ids
      = pair_max (\<lambda>i j. pair_dist (path_distance (device_path fs devices i) (device_path fs devices j))) ids"
    using pairs by (intro pair_max_cong) simp
  ultimately show ?thesis using at by (simp add: policy_score_def Let_def)
qed

section \<open>The best completion\<close>

lemma sorted_sortedDeviceIDs_strict:
  "go_map_ok av \<Longrightarrow> sorted_wrt (<) (filter P (sortedDeviceIDs av))"
  by (intro sorted_wrt_filter) (simp add: strict_sorted_iff)

lemma best_completion_Some:
  assumes best: "best_completion fs av sel r = Some ids" and ok: "go_map_ok av"
  obtains c where "ids = sel @ c" "c \<in> set (combs r (filter (\<lambda>i. i \<notin> set sel) (sortedDeviceIDs av)))"
    "\<And>d. d \<in> set (combs r (filter (\<lambda>i. i \<notin> set sel) (sortedDeviceIDs av))) \<Longrightarrow>
       policy_score fs av ids < policy_score fs av (sel @ d)
       \<or> policy_score fs av ids = policy_score fs av (sel @ d) \<and> c \<le> d"
proof -
  let ?cs = "combs r (filter (\<lambda>i. i \<notin> set sel) (sortedDeviceIDs av))"
  let ?rank = "policy_score fs av"
  obtain v where "first_min ?rank (map ((@) sel) ?cs) = Some (ids, v)"
    using best by (auto simp: best_completion_def completions_def)
  from first_min_Some [OF this] obtain us ws where v: "v = ?rank ids"
    "\<forall>d\<in>set (map ((@) sel) ?cs). v \<le> ?rank d"
    and split: "map ((@) sel) ?cs = us @ ids # ws" "\<forall>d\<in>set us. v < ?rank d" by blast
  from split(1) obtain us' c ws' where c: "?cs = us' @ c # ws'" "us = map ((@) sel) us'" "ids = sel @ c"
    by (auto simp: map_eq_append_conv map_eq_Cons_conv)
  have order: "sorted_wrt (<) (us' @ c # ws')"
    using combs_lex_ordered [OF sorted_sortedDeviceIDs_strict [OF ok], where P1 = "\<lambda>i. i \<notin> set sel"] c(1)
    by metis
  show thesis
  proof (rule that [OF c(3)])
    show "c \<in> set ?cs" by (simp add: c(1))
    fix d assume "d \<in> set ?cs"
    then consider "d \<in> set us'" | "c \<le> d" "d \<in> set ?cs"
      using order by (auto simp: c(1) sorted_wrt_append)
    then show "?rank ids < ?rank (sel @ d) \<or> ?rank ids = ?rank (sel @ d) \<and> c \<le> d"
    proof cases
      case 1
      with split(2) v(1) show ?thesis by (auto simp: c(2))
    next
      case 2
      with v show ?thesis by (auto simp: order_le_less)
    qed
  qed
qed

text \<open>Every admissible set of devices is one of the completions, up to the order.\<close>

lemma admissible_completion:
  assumes T: "distinct T" "set must \<subseteq> set T" "set T \<subseteq> fst ` set av" and ok: "go_map_ok av"
  shows "\<exists>c. c \<in> set (combs (length T - card (set must))
      (filter (\<lambda>i. i \<notin> set (normalize_loop must [])) (sortedDeviceIDs av)))
    \<and> distinct (normalize_loop must [] @ c) \<and> set (normalize_loop must [] @ c) = set T"
proof -
  let ?rest = "filter (\<lambda>i. i \<notin> set (normalize_loop must [])) (sortedDeviceIDs av)"
  let ?c = "filter (\<lambda>i. i \<in> set T) ?rest"
  have set: "set ?c = set T - set must" using T(3) by (auto simp: set_normalized)
  have d: "distinct ?c" using ok by simp
  have "length ?c = card (set T - set must)" using set d by (metis distinct_card)
  also have "\<dots> = length T - card (set must)" using T(1,2) by (simp add: card_Diff_subset distinct_card)
  finally have "?c \<in> set (combs (length T - card (set must)) ?rest)"
    by (simp only: set_combs subseq_filter_left mem_Collect_eq)
  moreover have "distinct (normalize_loop must [] @ ?c)" using d set_normalized(2) by auto
  moreover have "set (normalize_loop must [] @ ?c) = set T"
    using set T(2) set_normalized(1) [of must] by auto
  ultimately show ?thesis by blast
qed

lemma completion_props:
  assumes c: "c \<in> set (combs r (filter (\<lambda>i. i \<notin> set (normalize_loop must [])) (sortedDeviceIDs av)))"
    and ok: "go_map_ok av"
  shows "distinct (normalize_loop must [] @ c)" "length (normalize_loop must [] @ c) = card (set must) + r"
    "set c \<subseteq> fst ` set av - set must" "sorted c"
proof -
  let ?rest = "filter (\<lambda>i. i \<notin> set (normalize_loop must [])) (sortedDeviceIDs av)"
  have sub: "subseq c ?rest" "length c = r" using c by (auto simp: set_combs)
  show "set c \<subseteq> fst ` set av - set must" using subseq_subset [OF sub(1)] by (auto simp: set_normalized)
  moreover have "distinct c" using combs_distinct [OF c] ok by simp
  ultimately show "distinct (normalize_loop must [] @ c)" using set_normalized [of must] by auto
  show "length (normalize_loop must [] @ c) = card (set must) + r" by (simp add: length_normalized sub(2))
  show "sorted c" using combs_sorted [OF c] by (simp add: sorted_wrt_filter)
qed

text \<open>What a valid request returns, over the device map of the plugin.\<close>

lemma selectPreferred_spec:
  assumes v: "valid_request devices available must n" and small: "small_inventory fs devices"
  obtains c where
    "selectPreferredDeviceIDs fs res devices available must n = Some (Inr (normalize_loop must [] @ c))"
    "distinct (normalize_loop must [] @ c)" "int (length (normalize_loop must [] @ c)) = n"
    "set c \<subseteq> set available - set must" "sorted c"
    "\<And>T. distinct T \<Longrightarrow> int (length T) = n \<Longrightarrow> set must \<subseteq> set T \<Longrightarrow> set T \<subseteq> set available \<Longrightarrow>
       policy_score fs devices (normalize_loop must [] @ c) < policy_score fs devices T
       \<or> policy_score fs devices (normalize_loop must [] @ c) = policy_score fs devices T
         \<and> c \<le> sort (filter (\<lambda>i. i \<notin> set must) T)"
proof -
  let ?sel = "normalize_loop must []" and ?r = "nat n - card (set must)"
  from selectPreferred_valid [OF v small] obtain av ids where
    av: "availableDevices res devices available = Inr av" and
    run: "selectPreferredDeviceIDs fs res devices available must n = Some (Inr ids)" and
    best: "best_completion fs av ?sel ?r = Some ids" by blast
  note props = availableDevices_Inr [OF av]
  let ?rest = "filter (\<lambda>i. i \<notin> set ?sel) (sortedDeviceIDs av)"
  obtain c where c: "ids = ?sel @ c" "c \<in> set (combs ?r ?rest)"
    "\<And>d. d \<in> set (combs ?r ?rest) \<Longrightarrow> policy_score fs av ids < policy_score fs av (?sel @ d)
       \<or> policy_score fs av ids = policy_score fs av (?sel @ d) \<and> c \<le> d"
    by (rule best_completion_Some [OF best props(1)]) blast
  note cp = completion_props [OF c(2) props(1)]
  have score: "policy_score fs av T = policy_score fs devices T" if "set T \<subseteq> set available" for T
    using that props(4) by (intro policy_score_cong) auto
  have ids_sub: "set ids \<subseteq> set available"
    using cp(3) v by (auto simp: c(1) set_normalized props(2) valid_request_def)
  show thesis
  proof (rule that)
    show "selectPreferredDeviceIDs fs res devices available must n = Some (Inr (?sel @ c))"
      using run c(1) by simp
    show "distinct (?sel @ c)" "sorted c" by (fact cp)+
    show "set c \<subseteq> set available - set must" using cp(3) by (simp add: props(2))
    show "int (length (?sel @ c)) = n"
    proof -
      have "0 \<le> n" "card (set must) \<le> nat n" using v by (simp_all add: valid_request_def le_nat_iff)
      then show ?thesis unfolding cp(2) by simp
    qed
    fix T assume T: "distinct T" "int (length T) = n" "set must \<subseteq> set T" "set T \<subseteq> set available"
    have "length T - card (set must) = ?r" using T(2) by auto
    with admissible_completion [OF T(1,3) _ props(1)] T(4) obtain d where
      d: "d \<in> set (combs ?r ?rest)" "distinct (?sel @ d)" "set (?sel @ d) = set T"
      by (auto simp: props(2))
    have "d = sort (filter (\<lambda>i. i \<notin> set must) T)"
    proof (rule sorted_distinct_set_unique)
      show "sorted d" "distinct d" using completion_props(4) [OF d(1) props(1)] d(2) by auto
      show "set d = set (sort (filter (\<lambda>i. i \<notin> set must) T))"
        using d(3) completion_props(3) [OF d(1) props(1)] by (auto simp: set_normalized)
    qed (use T(1) in simp_all)
    moreover have "policy_score fs av (?sel @ d) = policy_score fs devices T"
      using policy_score_perm [OF d(2) T(1) d(3)] score [OF T(4)] by simp
    ultimately show "policy_score fs devices (?sel @ c) < policy_score fs devices T
       \<or> policy_score fs devices (?sel @ c) = policy_score fs devices T
         \<and> c \<le> sort (filter (\<lambda>i. i \<notin> set must) T)"
      using c(3) [OF d(1)] score [OF ids_sub] by (simp add: c(1))
  qed
qed

end
