(* ===== verification/Samples.thy ===== *)
theory Samples imports Policy begin

text \<open>
  A concrete node for the runs of the development: four devices on two host bridges and two NUMA
  nodes, each pair sharing a card.
\<close>

definition sample_paths :: "(string \<times> string) list" where
  "sample_paths =
     [(''/sys/bus/pci/devices/0000:01:00.0'', ''/sys/devices/pci0000:00/0000:00:01.0/0000:01:00.0''),
      (''/sys/bus/pci/devices/0000:02:00.0'', ''/sys/devices/pci0000:00/0000:00:02.0/0000:02:00.0''),
      (''/sys/bus/pci/devices/0000:81:00.0'', ''/sys/devices/pci0000:80/0000:80:01.0/0000:81:00.0''),
      (''/sys/bus/pci/devices/0000:82:00.0'', ''/sys/devices/pci0000:80/0000:80:01.0/0000:82:00.0'')]"

definition sample_fs :: filesystem where
  "sample_fs = empty_fs
     \<lparr>fs_evalsymlinks := (\<lambda>p. case map_of sample_paths p of None \<Rightarrow> Inl NotExist | Some q \<Rightarrow> Inr q),
      fs_stat := (\<lambda>p. if p \<in> set (map snd sample_paths) then Inr True else Inl NotExist)\<rparr>"

definition sample_device :: "string \<Rightarrow> string \<Rightarrow> string \<Rightarrow> string \<Rightarrow> npuDevice" where
  "sample_device name bus numa sid =
     \<lparr>Info = \<lparr>Name = name, ProductName = ''RBLN-CA25'', PCIDeviceID = ''1250'', PCIBusID = bus,
        PCINumaNode = numa, SID = sid\<rparr>, Health = ''Healthy'', StatusName = ''READY'', ParentPFBusID = []\<rparr>"

definition sample_devices :: "npuDevice go_map" where
  "sample_devices =
     [(''rbln0'', sample_device ''rbln0'' ''0000:01:00.0'' ''0'' ''S0''),
      (''rbln1'', sample_device ''rbln1'' ''0000:02:00.0'' ''0'' ''S0''),
      (''rbln2'', sample_device ''rbln2'' ''0000:81:00.0'' ''1'' ''S1''),
      (''rbln3'', sample_device ''rbln3'' ''0000:82:00.0'' ''1'' ''S1'')]"

definition sample_ids :: "string list" where
  "sample_ids = [''rbln3'', ''rbln0'', ''rbln2'', ''rbln1'']"

lemma sample_devices_ok: "go_map_ok sample_devices"
  by (simp add: go_map_ok_def sample_devices_def)

lemma sample_device_path:
  "device_path sample_fs sample_devices i =
     (if i = ''rbln0'' then Some [''/sys/devices/pci0000:00'', ''/sys/devices/pci0000:00/0000:00:01.0'',
            ''/sys/devices/pci0000:00/0000:00:01.0/0000:01:00.0'']
      else if i = ''rbln1'' then Some [''/sys/devices/pci0000:00'', ''/sys/devices/pci0000:00/0000:00:02.0'',
            ''/sys/devices/pci0000:00/0000:00:02.0/0000:02:00.0'']
      else if i = ''rbln2'' then Some [''/sys/devices/pci0000:80'', ''/sys/devices/pci0000:80/0000:80:01.0'',
            ''/sys/devices/pci0000:80/0000:80:01.0/0000:81:00.0'']
      else if i = ''rbln3'' then Some [''/sys/devices/pci0000:80'', ''/sys/devices/pci0000:80/0000:80:01.0'',
            ''/sys/devices/pci0000:80/0000:80:01.0/0000:82:00.0'']
      else None)"
proof -
  have "pciDeviceAncestors sample_fs ''0000:01:00.0'' = Inr [''/sys/devices/pci0000:00'',
      ''/sys/devices/pci0000:00/0000:00:01.0'', ''/sys/devices/pci0000:00/0000:00:01.0/0000:01:00.0'']"
    "pciDeviceAncestors sample_fs ''0000:02:00.0'' = Inr [''/sys/devices/pci0000:00'',
      ''/sys/devices/pci0000:00/0000:00:02.0'', ''/sys/devices/pci0000:00/0000:00:02.0/0000:02:00.0'']"
    "pciDeviceAncestors sample_fs ''0000:81:00.0'' = Inr [''/sys/devices/pci0000:80'',
      ''/sys/devices/pci0000:80/0000:80:01.0'', ''/sys/devices/pci0000:80/0000:80:01.0/0000:81:00.0'']"
    "pciDeviceAncestors sample_fs ''0000:82:00.0'' = Inr [''/sys/devices/pci0000:80'',
      ''/sys/devices/pci0000:80/0000:80:01.0'', ''/sys/devices/pci0000:80/0000:80:01.0/0000:82:00.0'']"
    by code_simp+
  then show ?thesis
    by (simp add: device_path_def sample_devices_def sample_device_def)
qed

lemma sample_small: "small_inventory sample_fs sample_devices"
  by (auto simp: small_inventory_def sample_device_path split: if_splits)
    (simp add: sample_devices_def)

lemma sample_valid: "valid_request sample_devices sample_ids [] 2"
  "valid_request sample_devices sample_ids [''rbln2''] 3"
  by (simp_all add: valid_request_def sample_devices_def sample_ids_def)

lemma sample_run: "selectPreferredDeviceIDs sample_fs ''r'' sample_devices sample_ids [] 2
    = Some (Inr [''rbln2'', ''rbln3''])"
  by code_simp

end
