(* ===== verification/Placement.thy ===== *)
theory Placement imports Samples begin

text \<open>
  The properties of the placement core: preferred allocation, the exhaustive search, its bounds,
  the allocator and the PCI tree, each with a run on the node of theory \<open>Samples\<close>.
\<close>

section \<open>Preferred allocation\<close>

text \<open>
  C1: a valid preferred-allocation request is answered with a set of distinct devices of exactly
  the requested size, which contains every device that must be included, is taken from the
  available ones, and has the least policy score (unknown NUMA, NUMA nodes, SID groups, unknown
  PCI, cross-root pairs, diameter, total distance, in this order) among all such sets.
\<close>

theorem preferred_allocation_optimal:
  assumes "valid_request devices available must n" "small_inventory fs devices"
  shows "\<exists>ids. selectPreferredDeviceIDs fs res devices available must n = Some (Inr ids)
    \<and> distinct ids \<and> int (length ids) = n \<and> set must \<subseteq> set ids \<and> set ids \<subseteq> set available
    \<and> (\<forall>T. distinct T \<and> int (length T) = n \<and> set must \<subseteq> set T \<and> set T \<subseteq> set available \<longrightarrow>
          policy_score fs devices ids \<le> policy_score fs devices T)"
proof -
  obtain c where c:
    "selectPreferredDeviceIDs fs res devices available must n = Some (Inr (normalize_loop must [] @ c))"
    "distinct (normalize_loop must [] @ c)" "int (length (normalize_loop must [] @ c)) = n"
    "set c \<subseteq> set available - set must"
    "\<And>T. distinct T \<Longrightarrow> int (length T) = n \<Longrightarrow> set must \<subseteq> set T \<Longrightarrow> set T \<subseteq> set available \<Longrightarrow>
       policy_score fs devices (normalize_loop must [] @ c) < policy_score fs devices T
       \<or> policy_score fs devices (normalize_loop must [] @ c) = policy_score fs devices T
         \<and> c \<le> sort (filter (\<lambda>i. i \<notin> set must) T)"
    using selectPreferred_spec [OF assms] by metis
  have sub: "set must \<subseteq> set (normalize_loop must [] @ c)" "set (normalize_loop must [] @ c) \<subseteq> set available"
    using c(4) assms(1) by (auto simp: set_normalized valid_request_def)
  show ?thesis
  proof (intro exI conjI allI impI)
    fix T assume "distinct T \<and> int (length T) = n \<and> set must \<subseteq> set T \<and> set T \<subseteq> set available"
    then show "policy_score fs devices (normalize_loop must [] @ c) \<le> policy_score fs devices T"
      using c(5) [of T] by auto
  qed (use c(1-3) sub in simp_all)
qed

theorem preferred_allocation_optimal_witness:
  "policy_score sample_fs sample_devices [''rbln2'', ''rbln3'']
     \<le> policy_score sample_fs sample_devices [''rbln0'', ''rbln1'']"
proof -
  obtain ids where ids: "selectPreferredDeviceIDs sample_fs ''r'' sample_devices sample_ids [] 2 = Some (Inr ids)"
    "\<forall>T. distinct T \<and> int (length T) = 2 \<and> set [] \<subseteq> set T \<and> set T \<subseteq> set sample_ids \<longrightarrow>
      policy_score sample_fs sample_devices ids \<le> policy_score sample_fs sample_devices T"
    using preferred_allocation_optimal [OF sample_valid(1) sample_small, of "''r''"] by blast
  have "ids = [''rbln2'', ''rbln3'']" using ids(1) unfolding sample_run by simp
  with ids(2) show ?thesis by (simp add: sample_ids_def)
qed

text \<open>A completion that is best, ties resolved by the sorted remaining identifiers.\<close>

definition tie_broken ::
    "filesystem \<Rightarrow> npuDevice go_map \<Rightarrow> string list \<Rightarrow> string list \<Rightarrow> int \<Rightarrow> string list \<Rightarrow> bool" where
  "tie_broken fs devices available must n c \<longleftrightarrow>
     (let S = normalize_loop must [] @ c in
      distinct S \<and> int (length S) = n \<and> set c \<subseteq> set available - set must \<and> sorted c
      \<and> (\<forall>T. distinct T \<longrightarrow> int (length T) = n \<longrightarrow> set must \<subseteq> set T \<longrightarrow> set T \<subseteq> set available \<longrightarrow>
           policy_score fs devices S < policy_score fs devices T
           \<or> policy_score fs devices S = policy_score fs devices T \<and> c \<le> sort (filter (\<lambda>i. i \<notin> set must) T)))"

lemma selectPreferred_tie_broken:
  assumes "valid_request devices available must n" "small_inventory fs devices"
  obtains c where "selectPreferredDeviceIDs fs res devices available must n = Some (Inr (normalize_loop must [] @ c))"
    "tie_broken fs devices available must n c"
  using selectPreferred_spec [OF assms] that by (simp add: tie_broken_def) metis

lemma tie_broken_le:
  assumes "tie_broken fs devices available must n c" "tie_broken fs devices available' must n d"
    and "set available' = set available" "set must \<subseteq> set available"
  shows "policy_score fs devices (normalize_loop must [] @ c) < policy_score fs devices (normalize_loop must [] @ d)
    \<or> policy_score fs devices (normalize_loop must [] @ c) = policy_score fs devices (normalize_loop must [] @ d) \<and> c \<le> d"
proof -
  have "set d \<inter> set must = {}" "sorted d" using assms(2) by (auto simp: tie_broken_def Let_def)
  then have d: "sort (filter (\<lambda>i. i \<notin> set must) (normalize_loop must [] @ d)) = d"
    by (simp add: set_normalized filter_id_conv filter_empty_conv disjoint_iff sorted_sort_id)
  have "set must \<subseteq> set (normalize_loop must [] @ d)" "set (normalize_loop must [] @ d) \<subseteq> set available"
    using assms(2-4) by (auto simp: tie_broken_def Let_def set_normalized)
  with assms(1,2) show ?thesis unfolding tie_broken_def Let_def by (metis d)
qed

lemma tie_broken_unique:
  assumes "tie_broken fs devices available must n c" "tie_broken fs devices available' must n d"
    and "set available' = set available" "set must \<subseteq> set available"
  shows "c = d"
  using tie_broken_le [OF assms] tie_broken_le [OF assms(2,1)] assms(3,4)
  by (metis antisym less_asym less_irrefl)

text \<open>
  C13: ties are broken deterministically.  The devices that must be included come first, in the
  order of the request without repetitions; the others follow in increasing order, and among the
  best sets they are the lexicographically first.  The order and repetitions of the available
  devices are irrelevant.
\<close>

theorem preferred_allocation_tie_break:
  assumes "valid_request devices available must n" "small_inventory fs devices"
  shows "\<exists>c. selectPreferredDeviceIDs fs res devices available must n = Some (Inr (normalize_loop must [] @ c))
    \<and> sorted c \<and> set c \<inter> set must = {}
    \<and> (\<forall>T. distinct T \<and> int (length T) = n \<and> set must \<subseteq> set T \<and> set T \<subseteq> set available
          \<and> policy_score fs devices T = policy_score fs devices (normalize_loop must [] @ c) \<longrightarrow>
          c \<le> sort (filter (\<lambda>i. i \<notin> set must) T))
    \<and> (\<forall>available'. set available' = set available \<longrightarrow>
          selectPreferredDeviceIDs fs res devices available' must n = Some (Inr (normalize_loop must [] @ c)))"
proof -
  obtain c where c: "selectPreferredDeviceIDs fs res devices available must n
      = Some (Inr (normalize_loop must [] @ c))" "tie_broken fs devices available must n c"
    by (rule selectPreferred_tie_broken [OF assms])
  have "selectPreferredDeviceIDs fs res devices available' must n = Some (Inr (normalize_loop must [] @ c))"
    if same: "set available' = set available" for available'
  proof -
    have "valid_request devices available' must n" using assms(1) same by (simp add: valid_request_def)
    then obtain d where "selectPreferredDeviceIDs fs res devices available' must n
        = Some (Inr (normalize_loop must [] @ d))" "tie_broken fs devices available' must n d"
      by (rule selectPreferred_tie_broken [OF _ assms(2)])
    with tie_broken_unique [OF c(2) _ same] assms(1) show ?thesis by (auto simp: valid_request_def)
  qed
  moreover have "sorted c" "set c \<inter> set must = {}"
    using c(2) by (auto simp: tie_broken_def Let_def)
  moreover have "c \<le> sort (filter (\<lambda>i. i \<notin> set must) T)"
    if "distinct T" "int (length T) = n" "set must \<subseteq> set T" "set T \<subseteq> set available"
      "policy_score fs devices T = policy_score fs devices (normalize_loop must [] @ c)" for T
    using c(2) that unfolding tie_broken_def Let_def by (metis less_irrefl)
  ultimately show ?thesis using c(1) by (intro exI [of _ c]) simp
qed

theorem preferred_allocation_tie_break_witness:
  "selectPreferredDeviceIDs sample_fs ''r'' sample_devices (rev sample_ids @ sample_ids) [] 2
     = Some (Inr [''rbln2'', ''rbln3''])"
proof -
  obtain c where c: "selectPreferredDeviceIDs sample_fs ''r'' sample_devices sample_ids [] 2
      = Some (Inr (normalize_loop [] [] @ c))"
    "\<forall>available'. set available' = set sample_ids \<longrightarrow>
      selectPreferredDeviceIDs sample_fs ''r'' sample_devices available' [] 2
        = Some (Inr (normalize_loop [] [] @ c))"
    using preferred_allocation_tie_break [OF sample_valid(1) sample_small, of "''r''"] by blast
  have "normalize_loop [] [] @ c = [''rbln2'', ''rbln3'']" using c(1) unfolding sample_run by simp
  moreover have "set (rev sample_ids @ sample_ids) = set sample_ids" by auto
  ultimately show ?thesis using c(2) by metis
qed

text \<open>
  C14: the error of an invalid request is determined by the first check of the code that fails
  (negative size, unmanaged device, too few devices, unknown or too many devices to include), a
  valid request has no error, and no request panics or runs forever.  In particular the final
  length check of the selection never fires.
\<close>

theorem preferred_allocation_errors:
  assumes "small_inventory fs devices"
  shows "selectPreferredDeviceIDs fs res devices available must n \<noteq> None
    \<and> (\<forall>err. selectPreferredDeviceIDs fs res devices available must n = Some (Inl err) \<longleftrightarrow>
          \<not> valid_request devices available must n \<and> err = request_error res devices available must n)"
proof (cases "valid_request devices available must n")
  case True
  with selectPreferred_valid [OF True assms, of res] show ?thesis by auto
next
  case False
  with selectPreferred_invalid [OF False, of fs res] show ?thesis by auto
qed

theorem preferred_allocation_errors_witness:
  "selectPreferredDeviceIDs sample_fs ''r'' sample_devices sample_ids [''rbln9''] 2
     = Some (Inl (UnknownMustInclude ''rbln9''))"
proof -
  have "\<not> valid_request sample_devices sample_ids [''rbln9''] 2"
    by (simp add: valid_request_def sample_ids_def)
  moreover have "request_error ''r'' sample_devices sample_ids [''rbln9''] 2 = UnknownMustInclude ''rbln9''"
    by code_simp
  ultimately show ?thesis
    using preferred_allocation_errors [OF sample_small, of "''r''" sample_ids "[''rbln9'']" 2] by simp
qed

section \<open>The search\<close>

lemma built_geometry:
  assumes "go_map_ok devices" "small_inventory fs devices" "newTopologyAllocator fs devices = Some a"
  shows "allocator_for fs devices a"
    "\<exists>ps. geometry a (ancestor_family fs) (device_path fs devices) ps"
proof -
  show "allocator_for fs devices a" using newTopologyAllocator_for [OF assms(1), of fs] assms(3) by auto
  then show "\<exists>ps. geometry a (ancestor_family fs) (device_path fs devices) ps"
    using allocator_geometry assms(2) by blast
qed

text \<open>
  C15: building the allocator always succeeds, and its \<open>SelectDevices\<close> is an exhaustive search:
  the devices that must be included followed by the first best of all combinations of the other
  devices in lexicographic order, under the score computed from the device records and sysfs paths
  alone.
\<close>

theorem SelectDevices_exhaustive:
  assumes "go_map_ok devices" "small_inventory fs devices" "set must \<subseteq> fst ` set devices"
  shows "\<exists>a. newTopologyAllocator fs devices = Some a \<and>
    (\<forall>n. SelectDevices a must n = Some
      (let sel = normalize_loop must [] in
       if n \<le> int (length sel) then sel
       else case first_min (policy_score fs devices)
           (map ((@) sel) (combs (nat (n - int (length sel)))
             (filter (\<lambda>i. i \<notin> set sel) (sortedDeviceIDs devices)))) of
         None \<Rightarrow> [] | Some (ids, _) \<Rightarrow> ids))"
proof -
  obtain a where a: "newTopologyAllocator fs devices = Some a" "allocator_for fs devices a"
    using newTopologyAllocator_for [OF assms(1)] by blast
  then show ?thesis
    using SelectDevices_best [OF assms(1,2) a(2) assms(3)]
    by (intro exI [of _ a])
      (auto simp: best_completion_def completions_def Let_def split: option.split)
qed

theorem SelectDevices_exhaustive_witness:
  "\<exists>a. newTopologyAllocator sample_fs sample_devices = Some a
     \<and> SelectDevices a [''rbln1'', ''rbln1''] 1 = Some [''rbln1'']"
proof -
  have "set [''rbln1'', ''rbln1''] \<subseteq> fst ` set sample_devices" by (simp add: sample_devices_def)
  from SelectDevices_exhaustive [OF sample_devices_ok sample_small this] obtain a where
    a: "newTopologyAllocator sample_fs sample_devices = Some a"
      "\<forall>n. SelectDevices a [''rbln1'', ''rbln1''] n = Some
      (let sel = normalize_loop [''rbln1'', ''rbln1''] [] in
       if n \<le> int (length sel) then sel
       else case first_min (policy_score sample_fs sample_devices)
           (map ((@) sel) (combs (nat (n - int (length sel)))
             (filter (\<lambda>i. i \<notin> set sel) (sortedDeviceIDs sample_devices)))) of
         None \<Rightarrow> [] | Some (ids, _) \<Rightarrow> ids)" by blast
  have "SelectDevices a [''rbln1'', ''rbln1''] 1 = Some [''rbln1'']"
    unfolding a(2) [rule_format] by simp
  with a(1) show ?thesis by blast
qed

text \<open>
  C5: at every depth the search does exactly what trying every remaining combination would do to
  the best selection, and it leaves every other field of its state (counters, score, chosen
  devices, suffix arrays) as it found it: pruning loses nothing and the undo step is exact.
\<close>

theorem search_exact:
  assumes "go_map_ok devices" "small_inventory fs devices" "newTopologyAllocator fs devices = Some a"
    and "placed a F s" "prepared a s" "start \<le> length (candidates s)"
    and "distinct (F @ candidates s)" "set (F @ candidates s) \<subseteq> {..<length (al_devices a)}"
  shows "\<exists>b v. search a r start s = Some (s\<lparr>best := b, bestScore := v\<rparr>)
    \<and> best_pair b v = fold (\<lambda>c. improve (placement_score a) (F @ c))
        (combs r (drop start (candidates s))) (best_pair (best s) (bestScore s))"
proof -
  obtain ps where g: "geometry a (ancestor_family fs) (device_path fs devices) ps"
    using built_geometry(2) [OF assms(1-3)] by blast
  have ok: "selection_ok a F (drop start (candidates s))"
    using g assms(7,8) set_drop_subset [of start "candidates s"] set_drop_subset [of start "candidates s"]
    by (auto simp: selection_ok_def geometry_def dest: in_set_dropD)
  have "search_ok a F (drop start (candidates s))" using ok g by (auto simp: search_ok_def)
  note all = allocator.bounded_search_exhaustive [OF this]
  have "set (candidates s) \<subseteq> {..<length (al_devices a)}" using assms(8) by auto
  from search_refines_bounded_search [OF geometry_bound_total [OF g] ok assms(4-6) this, of r]
  show ?thesis by (simp only: all)
qed

definition sample_allocator_at :: "nat list \<Rightarrow> topologyAllocator \<Rightarrow> bool" where
  "sample_allocator_at F a \<longleftrightarrow> newTopologyAllocator sample_fs sample_devices = Some a
     \<and> distinct F \<and> set F \<subseteq> {..<length (al_devices a)} \<and> indices_ok a"

lemma sample_allocator: "\<exists>a. sample_allocator_at [0, 1, 2, 3] a"
proof -
  obtain a where a: "newTopologyAllocator sample_fs sample_devices = Some a"
    "allocator_for sample_fs sample_devices a"
    using newTopologyAllocator_for [OF sample_devices_ok] by blast
  have "map ad_id (al_devices a) = sortedDeviceIDs sample_devices"
    using a(2) by (simp add: allocator_for_def)
  from arg_cong [where f = length, OF this] have "length (al_devices a) = 4"
    by (simp add: sample_devices_def)
  with a show ?thesis by (auto simp: sample_allocator_at_def allocator_for_def)
qed

lemma prune_state_placed:
  assumes "selection_ok a taken rest"
  shows "placed a taken (prune_state a taken rest v)" "prepared a (prune_state a taken rest v)"
proof -
  show "placed a taken (prune_state a taken rest v)"
    by (simp add: prune_state_def placed_def prepareBounds_frame)
  show "prepared a (prune_state a taken rest v)" unfolding prune_state_def
    using assms by (intro prepareBounds_prepared) (auto simp: selection_ok_def sid_counts_def)
qed

theorem search_exact_witness:
  "\<exists>a s b v. newTopologyAllocator sample_fs sample_devices = Some a \<and> candidates s = [1, 2, 3]
     \<and> search a 1 1 s = Some (s\<lparr>best := b, bestScore := v\<rparr>)
     \<and> best_pair b v = fold (\<lambda>c. improve (placement_score a) ([0] @ c)) [[2], [3]] None"
proof -
  obtain a where a: "sample_allocator_at [0, 1, 2, 3] a" using sample_allocator by blast
  let ?s = "prune_state a [0] [1, 2, 3] zeroScore"
  have ok: "selection_ok a [0] [1, 2, 3]" using a by (simp add: sample_allocator_at_def selection_ok_def)
  have s: "candidates ?s = [1, 2, 3]" "best ?s = None"
    by (simp_all add: prune_state_simps prune_state_def prepareBounds_frame)
  have "newTopologyAllocator sample_fs sample_devices = Some a"
    "distinct ([0] @ candidates ?s)" "set ([0] @ candidates ?s) \<subseteq> {..<length (al_devices a)}"
    "1 \<le> length (candidates ?s)"
    unfolding s using a by (auto simp: sample_allocator_at_def)
  from search_exact [OF sample_devices_ok sample_small this(1) prune_state_placed [OF ok] this(4,2,3), of 1]
  obtain b v where "search a 1 1 ?s = Some (?s\<lparr>best := b, bestScore := v\<rparr>)"
    "best_pair b v = fold (\<lambda>c. improve (placement_score a) ([0] @ c)) (combs 1 (drop 1 (candidates ?s)))
       (best_pair (best ?s) (bestScore ?s))" by blast
  then have "search a 1 1 ?s = Some (?s\<lparr>best := b, bestScore := v\<rparr>)"
    "best_pair b v = fold (\<lambda>c. improve (placement_score a) ([0] @ c)) [[2], [3]] None"
    unfolding s by (simp_all add: best_pair_def numeral_eq_Suc)
  with s(1) a show ?thesis unfolding sample_allocator_at_def by blast
qed

section \<open>The bounds\<close>

text \<open>
  C11: \<open>lowerBound\<close> is admissible.  At any point of the search it returns a score, and no way to
  complete the chosen devices with the given number of later candidates has a smaller one.
\<close>

theorem lowerBound_admissible:
  assumes "go_map_ok devices" "small_inventory fs devices" "newTopologyAllocator fs devices = Some a"
    and s: "placed a F s" "prepared a s" "start \<le> length (candidates s)"
    and "distinct (F @ candidates s)" "set (F @ candidates s) \<subseteq> {..<length (al_devices a)}"
    and "0 < r"
  shows "\<exists>b. lowerBound a s start r = Some b
    \<and> (\<forall>c. subseq c (drop start (candidates s)) \<and> length c = r \<longrightarrow> b \<le> placement_score a (F @ c))"
proof -
  obtain ps where g: "geometry a (ancestor_family fs) (device_path fs devices) ps"
    using built_geometry(2) [OF assms(1-3)] by blast
  have ok: "selection_ok a F (drop start (candidates s))"
    using g assms(7,8) by (auto simp: selection_ok_def geometry_def dest: in_set_dropD)
  have "set (candidates s) \<subseteq> {..<length (al_devices a)}" using assms(8) by auto
  note same = lowerBound_state [OF ok s this, of r]
  obtain b where b: "lowerBound a (prune_state a F (drop start (candidates s)) (bestScore s)) 0 r = Some b"
    using lowerBound_total [OF g] by blast
  show ?thesis
    using lowerBound_le [OF g ok _ assms(9) b] by (simp add: same b completes_def)
qed

theorem lowerBound_admissible_witness:
  "\<exists>a s b. newTopologyAllocator sample_fs sample_devices = Some a \<and> lowerBound a s 0 2 = Some b
     \<and> b \<le> placement_score a [0, 2, 3]"
proof -
  obtain a where a: "sample_allocator_at [0, 1, 2, 3] a" using sample_allocator by blast
  let ?s = "prune_state a [0] [1, 2, 3] zeroScore"
  have ok: "selection_ok a [0] [1, 2, 3]" using a by (simp add: sample_allocator_at_def selection_ok_def)
  have s: "candidates ?s = [1, 2, 3]" by (simp add: prune_state_simps)
  have "newTopologyAllocator sample_fs sample_devices = Some a"
    "distinct ([0] @ candidates ?s)" "set ([0] @ candidates ?s) \<subseteq> {..<length (al_devices a)}"
    unfolding s using a by (auto simp: sample_allocator_at_def)
  from lowerBound_admissible [OF sample_devices_ok sample_small this(1) prune_state_placed [OF ok] _ this(2,3),
      of 0 2]
  obtain b where b: "lowerBound a ?s 0 2 = Some b"
    "\<forall>c. subseq c (drop 0 (candidates ?s)) \<and> length c = 2 \<longrightarrow> b \<le> placement_score a ([0] @ c)" by auto
  have "subseq [2, 3] [1, 2, 3 :: nat]" by simp
  then have "b \<le> placement_score a ([0] @ [2, 3])" using b(2) unfolding s by simp
  with b(1) a show ?thesis by (auto simp: sample_allocator_at_def)
qed

text \<open>
  C12: \<open>pciLowerBound\<close> bounds the PCI part of the policy.  For chosen devices and any completion
  \<open>C\<close> from the candidates, with \<open>known\<close> the number of its devices that have a usable path, it
  returns a valid cost whose pair (cross-root pairs, total distance) is lexicographically at most
  that of the completion; it returns for every number of known devices.
\<close>

theorem pciLowerBound_policy:
  assumes "\<forall>i p. device_path fs devices i = Some p \<longrightarrow> length p \<le> 4096"
    and "length (chosen_ids @ C) \<le> 2 ^ 20" "subseq C candidate_ids"
  defines "known \<equiv> length (filter (\<lambda>i. device_path fs devices i \<noteq> None) (chosen_ids @ C))"
    and "S \<equiv> policy_score fs devices (chosen_ids @ C)"
  shows "(\<exists>pci. pciLowerBound (newPCITree fs devices) chosen_ids candidate_ids known = Some pci
    \<and> cost_valid pci
    \<and> (cost_separateRoots pci < separateRoots S
       \<or> cost_separateRoots pci = separateRoots S \<and> cost_totalDistance pci \<le> totalDistance S))
    \<and> (\<forall>k. pciLowerBound (newPCITree fs devices) chosen_ids candidate_ids k \<noteq> None)"
proof -
  let ?path = "device_path fs devices" and ?ids = "chosen_ids @ C"
  let ?P = "paths_of ?path ?ids"
  obtain ps where rep: "tree_rep (ancestor_family fs) ?path ps (newPCITree fs devices)"
    using newPCITree_rep by blast
  have known: "length ?P = known"
    unfolding known_def by (induction "?ids") (auto simp: paths_of_def map_filter_def)
  have "known \<le> length ?ids" by (simp only: known_def length_filter_le)
  then have small: "pair_sum path_hops ?P < impossiblePCICost"
    using assms(2) known paths_of_length [OF assms(1)] by (intro hops_small) auto
  have "pair_sum (\<lambda>i j. lift2 path_cross (?path i) (?path j)) ?ids = pair_sum path_cross ?P"
    "pair_sum (\<lambda>i j. lift2 path_hops (?path i) (?path j)) ?ids = pair_sum path_hops ?P"
    unfolding paths_of_def by (rule pair_sum_lift2)+
  then have "separateRoots S = pair_sum path_cross ?P" "totalDistance S = pair_sum path_hops ?P"
    by (simp_all add: S_def policy_score_def Let_def path_distance_fields del: paths_of_simps)
  with pciLowerBound_admissible [OF rep refl assms(3) small] pciLowerBound_total [OF rep]
  show ?thesis unfolding known placement_le_def by auto
qed

theorem pciLowerBound_policy_witness:
  "\<exists>pci. pciLowerBound (newPCITree sample_fs sample_devices) [''rbln0''] [''rbln1'', ''rbln2''] 2 = Some pci
     \<and> cost_separateRoots pci = 0"
proof -
  have small: "\<forall>i p. device_path sample_fs sample_devices i = Some p \<longrightarrow> length p \<le> 4096"
    using sample_small by (simp add: small_inventory_def)
  have "length ([''rbln0''] @ [''rbln1'']) \<le> 2 ^ 20" "subseq [''rbln1''] [''rbln1'', ''rbln2'']" by simp_all
  note run = pciLowerBound_policy [where fs = sample_fs and devices = sample_devices, OF small this]
  have two: "length (filter (\<lambda>i. device_path sample_fs sample_devices i \<noteq> None) ([''rbln0''] @ [''rbln1''])) = 2"
    by (simp add: sample_device_path)
  from run [unfolded two] obtain pci where
    pci: "pciLowerBound (newPCITree sample_fs sample_devices) [''rbln0''] [''rbln1'', ''rbln2''] 2 = Some pci"
    "cost_separateRoots pci \<le> separateRoots (policy_score sample_fs sample_devices ([''rbln0''] @ [''rbln1'']))"
    by auto
  have "separateRoots (policy_score sample_fs sample_devices ([''rbln0''] @ [''rbln1''])) = 0" by code_simp
  moreover have "map_option cost_separateRoots (pciLowerBound (newPCITree sample_fs sample_devices)
      [''rbln0''] [''rbln1'', ''rbln2''] 2) = Some 0" by code_simp
  ultimately show ?thesis using pci by simp
qed

section \<open>The allocator and the tree\<close>

text \<open>
  The allocator of an inventory.  Its devices are the devices of the inventory in the order of
  their identifiers, the index map is their position, two devices share a SID index (a NUMA index)
  exactly when they share the key (the known NUMA node), and the pair table holds the reference
  distance of the sysfs paths.
\<close>

theorem newTopologyAllocator_faithful:
  assumes "go_map_ok devices"
  shows "\<exists>a. newTopologyAllocator fs devices = Some a \<and> allocator_for fs devices a"
  by (rule newTopologyAllocator_for [OF assms])

theorem newTopologyAllocator_faithful_witness:
  "\<exists>a. newTopologyAllocator sample_fs sample_devices = Some a
     \<and> map ad_id (al_devices a) = [''rbln0'', ''rbln1'', ''rbln2'', ''rbln3'']"
proof -
  obtain a where a: "newTopologyAllocator sample_fs sample_devices = Some a"
    "allocator_for sample_fs sample_devices a"
    using newTopologyAllocator_faithful [OF sample_devices_ok] by blast
  have "sortedDeviceIDs sample_devices = [''rbln0'', ''rbln1'', ''rbln2'', ''rbln3'']" by code_simp
  with a show ?thesis by (auto simp: allocator_for_def)
qed

text \<open>
  Which devices the policy packs together.  Two devices of an inventory belong to one SID
  group exactly when both are VFs of the same physical function, or neither is a VF and both
  report the same usable serial (up to surrounding white space); a device whose serial is blank,
  \<open>n/a\<close>, \<open>unknown\<close> or all zeros is a group of its own.
\<close>

theorem sid_key_groups:
  "sid_key i d = sid_key j e \<longleftrightarrow>
     (if ParentPFBusID d \<noteq> [] \<or> ParentPFBusID e \<noteq> [] then ParentPFBusID d = ParentPFBusID e
      else if knownSID (SID (Info d)) \<or> knownSID (SID (Info e))
      then knownSID (SID (Info d)) \<and> knownSID (SID (Info e))
        \<and> trim_space (SID (Info d)) = trim_space (SID (Info e))
      else i = j)"
  by (simp add: sid_key_def)

text \<open>A blank serial separates, a shared serial joins whatever white space surrounds it.\<close>

theorem sid_key_groups_witness:
  "sid_key ''rbln0'' (sample_device ''rbln0'' [] ''0'' '' 0x00 '')
     \<noteq> sid_key ''rbln1'' (sample_device ''rbln1'' [] ''0'' '' 0x00 '')
   \<and> sid_key ''rbln0'' (sample_device ''rbln0'' [] ''0'' ''S7 '')
     = sid_key ''rbln1'' (sample_device ''rbln1'' [] ''0'' ''S7'')"
proof -
  have "\<not> knownSID '' 0x00 ''" "knownSID ''S7''" "knownSID ''S7 ''"
    "trim_space ''S7 '' = trim_space ''S7''" by code_simp+
  then show ?thesis
    unfolding sid_key_groups by (simp add: sample_device_def)
qed

text \<open>
  C19: the distance the PCI tree reports between two devices of the inventory.  It is total, and it
  equals the reference distance on the two canonical sysfs paths: unknown when one of them is not
  usable, on separate roots when the paths start at different host bridges, and otherwise the
  number of edges up to the last common bridge and down again.
\<close>

theorem tree_distance_correct:
  "tree_distance (newPCITree fs devices) i j =
     Some (path_distance (device_path fs devices i) (device_path fs devices j))"
proof -
  obtain ps where "tree_rep (ancestor_family fs) (device_path fs devices) ps (newPCITree fs devices)"
    using newPCITree_rep by blast
  then show ?thesis by (rule tree_distance_path)
qed

end
