(* ===== verification/Consts.thy ===== *)
theory Consts imports Devices begin

text \<open>
  \<open>pkg/consts/consts.go\<close>, and the constants of the kubelet API package that the program reads.
  That package is not part of the repository, so its constants are a parameter of the model, the
  record \<open>kubelet_api\<close>.  \<open>api_ok\<close> is what the program relies on: the two health values differ
  and neither is empty.
\<close>

section \<open>Resource names\<close>

definition CDIVendor :: string where "CDIVendor = ''rebellions.ai''"
definition CDIClass :: string where "CDIClass = ''npu''"
definition CDIKind :: string where "CDIKind = CDIVendor @ ''/'' @ CDIClass"
definition GenericResourceName :: string where "GenericResourceName = CDIKind"
definition BaseCDIDevice :: string where "BaseCDIDevice = ''runtime''"
definition RDSCDIClass :: string where "RDSCDIClass = ''rds''"
definition RDSCDIAllDevice :: string where "RDSCDIAllDevice = ''all''"
definition VFResourceNamePrefix :: string where "VFResourceNamePrefix = GenericResourceName @ ''-vf''"

lemmas consts_defs = CDIVendor_def CDIClass_def CDIKind_def GenericResourceName_def
  BaseCDIDevice_def RDSCDIClass_def RDSCDIAllDevice_def VFResourceNamePrefix_def

section \<open>The kubelet API constants\<close>

record kubelet_api =
  Healthy :: string
  Unhealthy :: string
  KubeletSocket :: string
  DevicePluginPath :: string
  ApiVersion :: string

definition api_ok :: "kubelet_api \<Rightarrow> bool" where
  "api_ok api \<longleftrightarrow> Healthy api \<noteq> Unhealthy api \<and> Healthy api \<noteq> [] \<and> Unhealthy api \<noteq> []"

text \<open>An instance for the concrete runs of the development.\<close>

definition sample_api :: kubelet_api where
  "sample_api = \<lparr>Healthy = ''Healthy'', Unhealthy = ''Unhealthy'',
     KubeletSocket = ''/var/lib/kubelet/device-plugins/kubelet.sock'',
     DevicePluginPath = ''/var/lib/kubelet/device-plugins/'', ApiVersion = ''v1beta1''\<rparr>"

lemma sample_api_ok [simp]: "api_ok sample_api"
  by (simp add: api_ok_def sample_api_def)

end
