(* ===== verification/Status.thy ===== *)
theory Status imports Consts begin

text \<open>
  \<open>cmd/rbln-device-plugin/status.go\<close>: the device status read from sysfs, its name, and the health
  derived from it.  \<open>healthForDevice\<close> returns the pair of health and status name; its debug
  record is in theory \<open>Inventory\<close>, with the records of a scan.
\<close>

section \<open>Operations\<close>

definition deviceStatusReady :: int where "deviceStatusReady = 0"
definition deviceStatusBusy :: int where "deviceStatusBusy = 1"
definition deviceStatusInit :: int where "deviceStatusInit = 2"
definition deviceStatusFault :: int where "deviceStatusFault = 3"
definition deviceStatusFinish :: int where "deviceStatusFinish = 4"

lemmas device_status_defs = deviceStatusReady_def deviceStatusBusy_def deviceStatusInit_def
  deviceStatusFault_def deviceStatusFinish_def

definition deviceStatusUnreadable :: string where "deviceStatusUnreadable = ''UNREADABLE''"

definition rebellionsSysfsClassPath :: string where
  "rebellionsSysfsClassPath = ''/sys/class/rebellions''"

definition readDeviceStatus :: "filesystem \<Rightarrow> string \<Rightarrow> (fs_error, int) go_result" where
  "readDeviceStatus fs deviceName =
     (let statusPath = path_join [rebellionsSysfsClassPath, deviceName, ''status''] in
      case fs_readfile fs statusPath of
        Inl err \<Rightarrow> Inl err
      | Inr raw \<Rightarrow>
          (case atoi (trim_space raw) of
             None \<Rightarrow> Inl (FsError (''parse status file '' @ statusPath))
           | Some status \<Rightarrow> Inr status))"

definition deviceStatusName :: "int \<Rightarrow> string" where
  "deviceStatusName status =
     (if status = deviceStatusReady then ''READY''
      else if status = deviceStatusBusy then ''BUSY''
      else if status = deviceStatusInit then ''INIT''
      else if status = deviceStatusFault then ''FAULT''
      else if status = deviceStatusFinish then ''FINISH''
      else ''UNKNOWN('' @ itoa status @ '')'')"

definition healthForDevice :: "kubelet_api \<Rightarrow> filesystem \<Rightarrow> string \<Rightarrow> string \<times> string" where
  "healthForDevice api fs deviceName =
     (case readDeviceStatus fs deviceName of
        Inl err \<Rightarrow> (Healthy api, deviceStatusUnreadable)
      | Inr status \<Rightarrow>
          if status = deviceStatusReady then (Healthy api, deviceStatusName status)
          else (Unhealthy api, deviceStatusName status))"

section \<open>Status names\<close>

lemma deviceStatusName_head:
  "status < 0 \<or> 4 < status \<Longrightarrow> deviceStatusName status = ''UNKNOWN('' @ itoa status @ '')''"
  by (auto simp: deviceStatusName_def device_status_defs)

lemma deviceStatusName_inj: "deviceStatusName s = deviceStatusName t \<Longrightarrow> s = t"
  by (auto simp: deviceStatusName_def itoa_inject split: if_splits)

lemma deviceStatusName_readable: "deviceStatusName s \<noteq> deviceStatusUnreadable"
  by (auto simp: deviceStatusName_def deviceStatusUnreadable_def)

text \<open>
  The status names lose nothing.  Distinct status values have distinct names, whatever their
  value, and the token for an unreadable status is the name of none of them.
\<close>

theorem deviceStatusName_faithful:
  "inj deviceStatusName \<and> deviceStatusUnreadable \<notin> range deviceStatusName"
  using deviceStatusName_inj deviceStatusName_readable by (metis injI rangeE)

section \<open>Health\<close>

lemma readDeviceStatus_Inr:
  "readDeviceStatus fs n = Inr v \<longleftrightarrow>
     (\<exists>raw. fs_readfile fs (path_join [rebellionsSysfsClassPath, n, ''status'']) = Inr raw
        \<and> atoi (trim_space raw) = Some v)"
  by (auto simp: readDeviceStatus_def Let_def split: sum.splits option.splits)

lemma healthForDevice_error:
  "readDeviceStatus fs n = Inl err \<Longrightarrow> healthForDevice api fs n = (Healthy api, deviceStatusUnreadable)"
  by (simp add: healthForDevice_def)

lemma healthForDevice_read:
  "readDeviceStatus fs n = Inr v \<Longrightarrow> healthForDevice api fs n =
     (if v = deviceStatusReady then Healthy api else Unhealthy api, deviceStatusName v)"
  by (simp add: healthForDevice_def)

text \<open>
  C23: a device is reported unhealthy exactly when its status file can be read, parses as a
  decimal number and the number is not the ready status; every failure to read or parse the file
  leaves it healthy with the status token for an unreadable status, and the reported status name
  determines which of these cases it was.
\<close>

theorem healthForDevice_fails_open:
  assumes "api_ok api"
  shows "(fst (healthForDevice api fs n) = Unhealthy api \<longleftrightarrow>
            (\<exists>v. v \<noteq> deviceStatusReady \<and>
              (\<exists>raw. fs_readfile fs (path_join [rebellionsSysfsClassPath, n, ''status'']) = Inr raw
                \<and> atoi (trim_space raw) = Some v)))
    \<and> (fst (healthForDevice api fs n) \<noteq> Unhealthy api \<longrightarrow> fst (healthForDevice api fs n) = Healthy api)
    \<and> (snd (healthForDevice api fs n) = deviceStatusUnreadable \<longleftrightarrow>
         (\<exists>err. readDeviceStatus fs n = Inl err))
    \<and> (\<forall>v. snd (healthForDevice api fs n) = deviceStatusName v \<longleftrightarrow> readDeviceStatus fs n = Inr v)"
proof -
  have ex: "(\<exists>v. v \<noteq> deviceStatusReady \<and>
      (\<exists>raw. fs_readfile fs (path_join [rebellionsSysfsClassPath, n, ''status'']) = Inr raw
        \<and> atoi (trim_space raw) = Some v))
    \<longleftrightarrow> (\<exists>v. v \<noteq> deviceStatusReady \<and> readDeviceStatus fs n = Inr v)"
    by (simp only: readDeviceStatus_Inr)
  show ?thesis
  proof (cases "readDeviceStatus fs n")
    case (Inl err)
    with assms deviceStatusName_readable show ?thesis
      unfolding ex by (simp add: healthForDevice_error [OF Inl] api_ok_def not_sym)
  next
    case (Inr v)
    with assms deviceStatusName_readable deviceStatusName_inj [of v] show ?thesis
      unfolding ex by (auto simp: healthForDevice_read [OF Inr] api_ok_def)
  qed
qed

text \<open>Both branches occur: a readable fault is unhealthy, a missing file is healthy.\<close>

definition fault_fs :: filesystem where
  "fault_fs = empty_fs\<lparr>fs_readfile := (\<lambda>p. if p = ''/sys/class/rebellions/rbln0/status''
     then Inr (''3'' @ [CHR 0x0A]) else Inl NotExist)\<rparr>"

theorem healthForDevice_fails_open_witness:
  "healthForDevice sample_api fault_fs ''rbln0'' = (''Unhealthy'', ''FAULT'')
   \<and> fst (healthForDevice sample_api fault_fs ''rbln1'') \<noteq> Unhealthy sample_api"
proof
  have path: "path_join [rebellionsSysfsClassPath, ''rbln0'', ''status'']
      = ''/sys/class/rebellions/rbln0/status''"
    "path_join [rebellionsSysfsClassPath, ''rbln1'', ''status'']
      = ''/sys/class/rebellions/rbln1/status''" by code_simp+
  have three: "atoi (trim_space (''3'' @ [CHR 0x0A])) = Some 3" by code_simp
  have read: "fs_readfile fault_fs ''/sys/class/rebellions/rbln0/status'' = Inr (''3'' @ [CHR 0x0A])"
    by (simp add: fault_fs_def)
  have "\<exists>v. v \<noteq> deviceStatusReady \<and>
      (\<exists>raw. fs_readfile fault_fs (path_join [rebellionsSysfsClassPath, ''rbln0'', ''status'']) = Inr raw
        \<and> atoi (trim_space raw) = Some v)"
    unfolding path read using three by (auto simp: deviceStatusReady_def)
  then have "fst (healthForDevice sample_api fault_fs ''rbln0'') = Unhealthy sample_api"
    using healthForDevice_fails_open [OF sample_api_ok, of fault_fs "''rbln0''"] by blast
  moreover have "readDeviceStatus fault_fs ''rbln0'' = Inr 3"
    unfolding readDeviceStatus_Inr path read using three by simp
  then have "snd (healthForDevice sample_api fault_fs ''rbln0'') = deviceStatusName 3"
    using healthForDevice_fails_open [OF sample_api_ok, of fault_fs "''rbln0''"] by blast
  moreover have "deviceStatusName 3 = ''FAULT''" by code_simp
  ultimately show "healthForDevice sample_api fault_fs ''rbln0'' = (''Unhealthy'', ''FAULT'')"
    by (simp add: prod_eq_iff sample_api_def)
  show "fst (healthForDevice sample_api fault_fs ''rbln1'') \<noteq> Unhealthy sample_api"
    using healthForDevice_fails_open [OF sample_api_ok, of fault_fs "''rbln1''"]
    unfolding path by (simp add: fault_fs_def empty_fs_def)
qed

end
