(* ===== verification/Sriov.thy ===== *)
theory Sriov imports Consts begin

text \<open>
  \<open>cmd/rbln-device-plugin/sriov.go\<close>: the SR-IOV class of a device, read from sysfs, and the
  resource name of a partition mode.  The constructors of \<open>sriov_error\<close> are the error returns of
  \<open>probeSRIOV\<close>; the wrapped error keeps its kind.
\<close>

section \<open>Operations\<close>

definition sriovPCISysfsDevicesPath :: string where
  "sriovPCISysfsDevicesPath = ''/sys/bus/pci/devices''"

datatype sriovClass = sriovClassNone | sriovClassVF | sriovClassHostingPF

record sriovInfo =
  sriov_class :: sriovClass
  parentPFBusID :: string
  numVFs :: int

datatype sriov_error =
    ReadPhysfn string fs_error
  | ParentNumVFs string string fs_error
  | StatPhysfn string fs_error
  | ReadNumVFs string fs_error

definition readSriovNumVFs :: "filesystem \<Rightarrow> string \<Rightarrow> (fs_error, int) go_result" where
  "readSriovNumVFs fs pciBusID =
     (let numVFsPath = path_join [sriovPCISysfsDevicesPath, pciBusID, ''sriov_numvfs''] in
      case fs_readfile fs numVFsPath of
        Inl err \<Rightarrow> Inl err
      | Inr raw \<Rightarrow>
          (case atoi (trim_space raw) of
             None \<Rightarrow> Inl (FsError (''parse '' @ numVFsPath))
           | Some n \<Rightarrow> Inr n))"

definition probeSRIOV :: "filesystem \<Rightarrow> string \<Rightarrow> (sriov_error, sriovInfo) go_result" where
  "probeSRIOV fs pciBusID =
     (let none = \<lparr>sriov_class = sriovClassNone, parentPFBusID = [], numVFs = 0\<rparr>;
          physfnPath = path_join [sriovPCISysfsDevicesPath, pciBusID, ''physfn''] in
      if pciBusID = [] then Inr none
      else (case fs_lstat fs physfnPath of
          Inr _ \<Rightarrow>
            (case fs_readlink fs physfnPath of
               Inl err \<Rightarrow> Inl (ReadPhysfn pciBusID err)
             | Inr target \<Rightarrow>
                 (let parent = path_base target in
                  case readSriovNumVFs fs parent of
                    Inl err \<Rightarrow> Inl (ParentNumVFs parent pciBusID err)
                  | Inr n \<Rightarrow>
                      Inr \<lparr>sriov_class = sriovClassVF, parentPFBusID = parent, numVFs = n\<rparr>))
        | Inl err \<Rightarrow>
            if err \<noteq> NotExist then Inl (StatPhysfn pciBusID err)
            else (case readSriovNumVFs fs pciBusID of
                Inl err \<Rightarrow> if err = NotExist then Inr none else Inl (ReadNumVFs pciBusID err)
              | Inr n \<Rightarrow>
                  if n > 0
                  then Inr \<lparr>sriov_class = sriovClassHostingPF, parentPFBusID = [], numVFs = n\<rparr>
                  else Inr none)))"

definition vfResourceName :: "int \<Rightarrow> (int, string) go_result" where
  "vfResourceName n =
     (if n = 1 \<or> n = 4 then Inr (VFResourceNamePrefix @ itoa n) else Inl n)"

section \<open>readSriovNumVFs\<close>

lemma readSriovNumVFs_Inr:
  "readSriovNumVFs fs b = Inr n \<longleftrightarrow>
     (\<exists>raw. fs_readfile fs (path_join [sriovPCISysfsDevicesPath, b, ''sriov_numvfs'']) = Inr raw
        \<and> atoi (trim_space raw) = Some n)"
  by (auto simp: readSriovNumVFs_def Let_def split: sum.splits option.splits)

lemma readSriovNumVFs_missing:
  "readSriovNumVFs fs b = Inl NotExist \<longleftrightarrow>
     fs_readfile fs (path_join [sriovPCISysfsDevicesPath, b, ''sriov_numvfs'']) = Inl NotExist"
  by (auto simp: readSriovNumVFs_def Let_def split: sum.splits option.splits)

section \<open>The classification\<close>

definition physfn_path :: "string \<Rightarrow> string" where
  "physfn_path b = path_join [sriovPCISysfsDevicesPath, b, ''physfn'']"

lemma probeSRIOV_vf:
  "b \<noteq> [] \<Longrightarrow> fs_lstat fs (physfn_path b) = Inr () \<Longrightarrow> probeSRIOV fs b =
     (case fs_readlink fs (physfn_path b) of
        Inl err \<Rightarrow> Inl (ReadPhysfn b err)
      | Inr target \<Rightarrow>
          (case readSriovNumVFs fs (path_base target) of
             Inl err \<Rightarrow> Inl (ParentNumVFs (path_base target) b err)
           | Inr n \<Rightarrow> Inr \<lparr>sriov_class = sriovClassVF, parentPFBusID = path_base target, numVFs = n\<rparr>))"
  by (simp add: probeSRIOV_def physfn_path_def Let_def cong: sum.case_cong)

lemma probeSRIOV_pf:
  "b \<noteq> [] \<Longrightarrow> fs_lstat fs (physfn_path b) = Inl NotExist \<Longrightarrow> probeSRIOV fs b =
     (case readSriovNumVFs fs b of
        Inl err \<Rightarrow> if err = NotExist
          then Inr \<lparr>sriov_class = sriovClassNone, parentPFBusID = [], numVFs = 0\<rparr>
          else Inl (ReadNumVFs b err)
      | Inr n \<Rightarrow> if n > 0 then Inr \<lparr>sriov_class = sriovClassHostingPF, parentPFBusID = [], numVFs = n\<rparr>
          else Inr \<lparr>sriov_class = sriovClassNone, parentPFBusID = [], numVFs = 0\<rparr>)"
  by (simp add: probeSRIOV_def physfn_path_def Let_def)

lemma probeSRIOV_stat_error:
  "b \<noteq> [] \<Longrightarrow> fs_lstat fs (physfn_path b) = Inl (FsError e) \<Longrightarrow>
     probeSRIOV fs b = Inl (StatPhysfn b (FsError e))"
  by (simp add: probeSRIOV_def physfn_path_def Let_def)

lemma probeSRIOV_empty:
  "probeSRIOV fs [] = Inr \<lparr>sriov_class = sriovClassNone, parentPFBusID = [], numVFs = 0\<rparr>"
  by (simp add: probeSRIOV_def)

lemma physfn_cases:
  obtains (empty) "b = []" | (vf) "b \<noteq> []" "fs_lstat fs (physfn_path b) = Inr ()"
  | (pf) "b \<noteq> []" "fs_lstat fs (physfn_path b) = Inl NotExist"
  | (err) e where "b \<noteq> []" "fs_lstat fs (physfn_path b) = Inl (FsError e)"
  by (metis fs_error.exhaust obj_sumE unit.exhaust)

lemmas probeSRIOV_branches =
  probeSRIOV_vf probeSRIOV_pf probeSRIOV_stat_error probeSRIOV_empty

lemma probeSRIOV_VF_iff:
  "probeSRIOV fs b = Inr \<lparr>sriov_class = sriovClassVF, parentPFBusID = p, numVFs = n\<rparr> \<longleftrightarrow>
     b \<noteq> [] \<and> fs_lstat fs (physfn_path b) = Inr ()
     \<and> (\<exists>target. fs_readlink fs (physfn_path b) = Inr target \<and> p = path_base target)
     \<and> readSriovNumVFs fs p = Inr n"
  by (rule physfn_cases [where b = b and fs = fs])
    (auto simp: probeSRIOV_branches split: sum.splits if_splits)

lemma probeSRIOV_Hosting_iff:
  "(\<exists>info. probeSRIOV fs b = Inr info \<and> sriov_class info = sriovClassHostingPF) \<longleftrightarrow>
     b \<noteq> [] \<and> fs_lstat fs (physfn_path b) = Inl NotExist
     \<and> (\<exists>n>0. readSriovNumVFs fs b = Inr n)"
  by (rule physfn_cases [where b = b and fs = fs])
    (auto simp: probeSRIOV_branches split: sum.splits if_splits)

lemma probeSRIOV_None_iff:
  "(\<exists>info. probeSRIOV fs b = Inr info \<and> sriov_class info = sriovClassNone) \<longleftrightarrow>
     b = [] \<or> (fs_lstat fs (physfn_path b) = Inl NotExist
       \<and> (readSriovNumVFs fs b = Inl NotExist \<or> (\<exists>n\<le>0. readSriovNumVFs fs b = Inr n)))"
  by (rule physfn_cases [where b = b and fs = fs])
    (auto simp: probeSRIOV_branches split: sum.splits if_splits)

lemma probeSRIOV_info:
  "probeSRIOV fs b = Inr info \<Longrightarrow>
     (sriov_class info \<noteq> sriovClassVF \<longrightarrow> parentPFBusID info = [])
     \<and> (sriov_class info = sriovClassNone \<longrightarrow> numVFs info = 0)
     \<and> (sriov_class info = sriovClassHostingPF \<longrightarrow> 0 < numVFs info)"
  by (rule physfn_cases [where b = b and fs = fs])
    (auto simp: probeSRIOV_branches split: sum.splits if_splits)

lemma probeSRIOV_total_iff:
  "(\<exists>err. probeSRIOV fs b = Inl err) \<longleftrightarrow>
     b \<noteq> [] \<and>
     ((\<exists>e. fs_lstat fs (physfn_path b) = Inl (FsError e))
      \<or> (fs_lstat fs (physfn_path b) = Inr () \<and>
          ((\<exists>e. fs_readlink fs (physfn_path b) = Inl e)
           \<or> (\<exists>target e. fs_readlink fs (physfn_path b) = Inr target
                \<and> readSriovNumVFs fs (path_base target) = Inl e)))
      \<or> (fs_lstat fs (physfn_path b) = Inl NotExist
          \<and> (\<exists>e. readSriovNumVFs fs b = Inl (FsError e))))"
proof -
  have ne: "e \<noteq> NotExist \<longleftrightarrow> (\<exists>m. e = FsError m)" for e by (cases e) auto
  show ?thesis
    by (rule physfn_cases [where b = b and fs = fs])
      (auto simp: probeSRIOV_branches ne split: sum.splits if_splits)
qed

section \<open>vfResourceName\<close>

lemma vfResourceName_Inr:
  "vfResourceName n = Inr r \<longleftrightarrow> n \<in> {1, 4} \<and> r = VFResourceNamePrefix @ itoa n"
  by (auto simp: vfResourceName_def)

lemma vfResourceName_inj: "vfResourceName m = Inr r \<Longrightarrow> vfResourceName n = Inr r \<Longrightarrow> m = n"
  by (simp add: vfResourceName_Inr itoa_inject)

lemma vfResourceName_not_generic: "vfResourceName n = Inr r \<Longrightarrow> r \<noteq> GenericResourceName"
  by (auto simp: vfResourceName_Inr VFResourceNamePrefix_def)

text \<open>A file system with one VF-hosting PF, two of its VFs, and a plain device.\<close>

definition sriov_fs :: filesystem where
  "sriov_fs = empty_fs
     \<lparr>fs_lstat := (\<lambda>p. if p \<in> {''/sys/bus/pci/devices/0000:3b:00.1/physfn'',
          ''/sys/bus/pci/devices/0000:3b:00.2/physfn''} then Inr () else Inl NotExist),
      fs_readlink := (\<lambda>p. if p = ''/sys/bus/pci/devices/0000:3b:00.1/physfn''
          then Inr ''../0000:3b:00.0''
          else if p = ''/sys/bus/pci/devices/0000:3b:00.2/physfn'' then Inr ''../0000:3b:00.0''
          else Inl NotExist),
      fs_readfile := (\<lambda>p. if p = ''/sys/bus/pci/devices/0000:3b:00.0/sriov_numvfs''
          then Inr (''4'' @ [CHR 0x0A]) else Inl NotExist)\<rparr>"

end
