(* ===== verification/Slog.thy ===== *)
theory Slog imports GoStrings begin

text \<open>
  The part of Go's \<open>log/slog\<close> the program decides on: levels, and records with their message and
  attributes.  An attribute value is a string, a list of strings, a number, an error (its text), or
  a measured duration, whose value is not modelled.
\<close>

type_synonym slog_level = int

definition LevelDebug :: slog_level where "LevelDebug = -4"
definition LevelInfo :: slog_level where "LevelInfo = 0"
definition LevelWarn :: slog_level where "LevelWarn = 4"
definition LevelError :: slog_level where "LevelError = 8"

lemmas slog_level_defs = LevelDebug_def LevelInfo_def LevelWarn_def LevelError_def

datatype log_value = LString string | LStrings "string list" | LInt int | LErr string | LElapsed

type_synonym log_attrs = "(string \<times> log_value) list"

record log_record =
  lr_level :: slog_level
  lr_msg :: string
  lr_attrs :: log_attrs

end
