(* ===== verification/Inventory.thy ===== *)
theory Inventory imports Status Sriov Slog begin

text \<open>
  \<open>cmd/rbln-device-plugin/inventory.go\<close>: discovery, inventory differences, log attributes and
  the conversion to kubelet devices.  The result of \<open>getDevices\<close> (package \<open>rblndevice\<close>) is an
  argument.  The log records of a scan are the value of \<open>discoverDeviceGroups_log\<close>, one list per
  iteration of the loop of \<open>discoverDeviceGroups\<close>.
\<close>

section \<open>Discovery\<close>

datatype resource_error = UnsupportedPartition string string int

definition resourceForDevice ::
    "rblnDevice \<Rightarrow> sriovInfo \<Rightarrow> (resource_error, string \<times> bool) go_result" where
  "resourceForDevice device sriov =
     (case sriov_class sriov of
        sriovClassVF \<Rightarrow>
          (case vfResourceName (numVFs sriov) of
             Inl n \<Rightarrow> Inl (UnsupportedPartition (Name device) (parentPFBusID sriov) n)
           | Inr resourceName \<Rightarrow> Inr (resourceName, True))
      | sriovClassHostingPF \<Rightarrow> Inr ([], False)
      | sriovClassNone \<Rightarrow> Inr (GenericResourceName, True))"

definition discover_device ::
    "kubelet_api \<Rightarrow> filesystem \<Rightarrow> rblnDevice \<Rightarrow> deviceGroup go_map \<Rightarrow> deviceGroup go_map" where
  "discover_device api fs device groups =
     (case probeSRIOV fs (PCIBusID device) of
        Inl _ \<Rightarrow> groups
      | Inr sriov \<Rightarrow>
          (case resourceForDevice device sriov of
             Inl _ \<Rightarrow> groups
           | Inr (resourceName, advertise) \<Rightarrow>
               if \<not> advertise then groups
               else (let group = (case map_of groups resourceName of
                              Some g \<Rightarrow> g
                            | None \<Rightarrow> \<lparr>ResourceName = resourceName, Devices = []\<rparr>);
                         (health, statusName) = healthForDevice api fs (Name device);
                         group = group\<lparr>Devices := AList.update (Name device)
                            \<lparr>Info = device, Health = health, StatusName = statusName,
                             ParentPFBusID = parentPFBusID sriov\<rparr> (Devices group)\<rparr>
                     in AList.update resourceName group groups)))"

definition discoverDeviceGroups ::
    "kubelet_api \<Rightarrow> filesystem \<Rightarrow> (string, rblnDevice list) go_result \<Rightarrow> deviceGroup go_map" where
  "discoverDeviceGroups api fs getDevices =
     (case getDevices of
        Inl _ \<Rightarrow> []
      | Inr devices \<Rightarrow> fold (discover_device api fs) devices [])"

section \<open>The records of a scan\<close>

fun sriov_error_text :: "sriov_error \<Rightarrow> string" where
  "sriov_error_text (ReadPhysfn b err) = ''read physfn symlink of '' @ b @ '': '' @ err_text err"
| "sriov_error_text (ParentNumVFs parent b err) =
     ''read sriov_numvfs of parent PF '' @ parent @ '' for VF '' @ b @ '': '' @ err_text err"
| "sriov_error_text (StatPhysfn b err) = ''stat physfn of '' @ b @ '': '' @ err_text err"
| "sriov_error_text (ReadNumVFs b err) = ''read sriov_numvfs of '' @ b @ '': '' @ err_text err"

fun resource_error_text :: "resource_error \<Rightarrow> string" where
  "resource_error_text (UnsupportedPartition name parent n) =
     ''VF '' @ name @ '' (parent PF '' @ parent @ ''): unsupported SR-IOV partition mode with '' @ itoa n
     @ '' VFs per PF: supported modes are 1 and 4''"

definition healthForDevice_log :: "filesystem \<Rightarrow> string \<Rightarrow> log_record list" where
  "healthForDevice_log fs deviceName =
     (case readDeviceStatus fs deviceName of
        Inl err \<Rightarrow> [\<lparr>lr_level = LevelDebug, lr_msg = ''Failed to read device status; assuming healthy'',
           lr_attrs = [(''err'', LErr (err_text err)), (''device'', LString deviceName)]\<rparr>]
      | Inr _ \<Rightarrow> [])"

definition discover_device_log :: "filesystem \<Rightarrow> rblnDevice \<Rightarrow> log_record list" where
  "discover_device_log fs device =
     (case probeSRIOV fs (PCIBusID device) of
        Inl err \<Rightarrow> [\<lparr>lr_level = LevelError, lr_msg = ''Skipping device with indeterminate SR-IOV state'',
           lr_attrs = [(''err'', LErr (sriov_error_text err)), (''device'', LString (Name device)),
             (''pciBusID'', LString (PCIBusID device))]\<rparr>]
      | Inr sriov \<Rightarrow>
          (case resourceForDevice device sriov of
             Inl err \<Rightarrow> [\<lparr>lr_level = LevelError,
               lr_msg = ''Skipping VF with unsupported SR-IOV partition mode'',
               lr_attrs = [(''err'', LErr (resource_error_text err)), (''device'', LString (Name device)),
                 (''pciBusID'', LString (PCIBusID device)), (''parentPFBusID'', LString (parentPFBusID sriov)),
                 (''numVFs'', LInt (numVFs sriov))]\<rparr>]
           | Inr (resourceName, advertise) \<Rightarrow>
               if \<not> advertise
               then [\<lparr>lr_level = LevelDebug, lr_msg = ''Excluding VF-hosting PF from advertisement'',
                 lr_attrs = [(''device'', LString (Name device)), (''pciBusID'', LString (PCIBusID device)),
                   (''numVFs'', LInt (numVFs sriov))]\<rparr>]
               else healthForDevice_log fs (Name device)))"

definition discoverDeviceGroups_log ::
    "filesystem \<Rightarrow> (string, rblnDevice list) go_result \<Rightarrow> log_record list" where
  "discoverDeviceGroups_log fs getDevices =
     (case getDevices of
        Inl err \<Rightarrow> [\<lparr>lr_level = LevelError,
          lr_msg = ''Device discovery failed; reporting zero devices until it recovers'',
          lr_attrs = [(''err'', LErr err)]\<rparr>]
      | Inr devices \<Rightarrow> concat (map (discover_device_log fs) devices))"

section \<open>Inventory differences\<close>

record deviceStateChange =
  change_Device :: npuDevice
  PreviousHealth :: string
  PreviousStatus :: string

record deviceInventoryDelta =
  Added :: "npuDevice list"
  Removed :: "string list"
  Changed :: "deviceStateChange list"

definition isEmpty :: "deviceInventoryDelta \<Rightarrow> bool" where
  "isEmpty d \<longleftrightarrow> length (Added d) = 0 \<and> length (Removed d) = 0 \<and> length (Changed d) = 0"

definition diff_current ::
    "npuDevice go_map \<Rightarrow> npuDevice go_map \<Rightarrow> string \<Rightarrow> deviceInventoryDelta \<Rightarrow>
     deviceInventoryDelta" where
  "diff_current previous current i delta =
     (let device = device_at current i in
      case map_of previous i of
        None \<Rightarrow> delta\<lparr>Added := Added delta @ [device]\<rparr>
      | Some b \<Rightarrow>
          if Health b \<noteq> Health device \<or> StatusName b \<noteq> StatusName device
          then delta\<lparr>Changed := Changed delta @ [\<lparr>change_Device = device,
                 PreviousHealth = Health b, PreviousStatus = StatusName b\<rparr>]\<rparr>
          else delta)"

definition diff_previous ::
    "npuDevice go_map \<Rightarrow> string \<Rightarrow> deviceInventoryDelta \<Rightarrow> deviceInventoryDelta" where
  "diff_previous current i delta =
     (if map_of current i = None then delta\<lparr>Removed := Removed delta @ [i]\<rparr> else delta)"

definition diffDeviceInventories ::
    "npuDevice go_map \<Rightarrow> npuDevice go_map \<Rightarrow> deviceInventoryDelta" where
  "diffDeviceInventories previous current =
     fold (diff_previous current) (sortedDeviceIDs previous)
       (fold (diff_current previous current) (sortedDeviceIDs current)
         \<lparr>Added = [], Removed = [], Changed = []\<rparr>)"

section \<open>Logging and counting\<close>

definition deviceLogAttrs :: "npuDevice \<Rightarrow> log_attrs" where
  "deviceLogAttrs device =
     [(''device'', LString (Name (Info device))),
      (''product'', LString (ProductName (Info device))),
      (''pciDeviceID'', LString (PCIDeviceID (Info device))),
      (''pciBusID'', LString (PCIBusID (Info device))),
      (''numa'', LString (PCINumaNode (Info device))),
      (''health'', LString (Health device)),
      (''status'', LString (StatusName device))]"

definition levelForHealth :: "kubelet_api \<Rightarrow> string \<Rightarrow> slog_level" where
  "levelForHealth api health = (if health = Unhealthy api then LevelWarn else LevelInfo)"

definition healthCounts :: "kubelet_api \<Rightarrow> npuDevice go_map \<Rightarrow> int \<times> int" where
  "healthCounts api devices =
     fold (\<lambda>(_, device) (healthy, unhealthy).
         if Health device = Unhealthy api then (healthy, unhealthy + 1)
         else (healthy + 1, unhealthy)) devices (0, 0)"

section \<open>Kubelet devices\<close>

record pluginDevice =
  pd_ID :: string
  pd_Health :: string
  pd_Topology :: "int list option"

definition topologyForDevice :: "string \<Rightarrow> int list option" where
  "topologyForDevice numaNode =
     (if numaNode = [] then None
      else (case atoi numaNode of None \<Rightarrow> None | Some i \<Rightarrow> Some [i]))"

definition toPluginDevice :: "kubelet_api \<Rightarrow> npuDevice \<Rightarrow> pluginDevice" where
  "toPluginDevice api device =
     (let health = (if Health device = [] then Healthy api else Health device)
      in \<lparr>pd_ID = Name (Info device), pd_Health = health,
          pd_Topology = topologyForDevice (PCINumaNode (Info device))\<rparr>)"

definition clonePluginDevices :: "kubelet_api \<Rightarrow> npuDevice go_map \<Rightarrow> pluginDevice list" where
  "clonePluginDevices api devices =
     map (\<lambda>i. toPluginDevice api (device_at devices i)) (sortedDeviceIDs devices)"

definition resourceSlug :: "string \<Rightarrow> string" where
  "resourceSlug resourceName =
     (let slug = go_to_lower resourceName;
          slug = replace_char slug (CHR ''/'') (CHR ''-'');
          slug = replace_char slug (CHR ''.'') (CHR ''-'')
      in replace_char slug (CHR ''_'') (CHR ''-''))"

section \<open>Which resource a device is advertised under\<close>

text \<open>The resource and the parent function of a device, when it is advertised.\<close>

definition advertised :: "filesystem \<Rightarrow> rblnDevice \<Rightarrow> (string \<times> string) option" where
  "advertised fs device =
     (case probeSRIOV fs (PCIBusID device) of
        Inl _ \<Rightarrow> None
      | Inr sriov \<Rightarrow>
          (case resourceForDevice device sriov of
             Inr (r, True) \<Rightarrow> Some (r, parentPFBusID sriov)
           | _ \<Rightarrow> None))"

definition discovered :: "kubelet_api \<Rightarrow> filesystem \<Rightarrow> rblnDevice \<Rightarrow> npuDevice" where
  "discovered api fs device =
     \<lparr>Info = device, Health = fst (healthForDevice api fs (Name device)),
      StatusName = snd (healthForDevice api fs (Name device)),
      ParentPFBusID = (case advertised fs device of None \<Rightarrow> [] | Some (_, p) \<Rightarrow> p)\<rparr>"

lemma advertised_iff:
  "advertised fs d = Some (r, p) \<longleftrightarrow>
     (\<exists>n. probeSRIOV fs (PCIBusID d) = Inr \<lparr>sriov_class = sriovClassVF, parentPFBusID = p, numVFs = n\<rparr>
        \<and> vfResourceName n = Inr r)
     \<or> (\<exists>info. probeSRIOV fs (PCIBusID d) = Inr info \<and> sriov_class info = sriovClassNone)
        \<and> r = GenericResourceName \<and> p = []"
proof (cases "probeSRIOV fs (PCIBusID d)")
  case (Inl e)
  then show ?thesis by (simp add: advertised_def)
next
  case (Inr info)
  show ?thesis
  proof (cases "sriov_class info")
    case sriovClassNone
    with Inr probeSRIOV_info [OF Inr] show ?thesis
      by (auto simp: advertised_def resourceForDevice_def)
  next
    case sriovClassVF
    with Inr show ?thesis
      by (cases info) (auto simp: advertised_def resourceForDevice_def split: sum.splits)
  next
    case sriovClassHostingPF
    with Inr show ?thesis by (auto simp: advertised_def resourceForDevice_def)
  qed
qed

lemma advertised_resource:
  "advertised fs d = Some (r, p) \<Longrightarrow>
     r \<in> {GenericResourceName, VFResourceNamePrefix @ ''1'', VFResourceNamePrefix @ ''4''}"
proof -
  have "itoa 1 = ''1''" "itoa 4 = ''4''" by code_simp+
  then show "advertised fs d = Some (r, p) \<Longrightarrow> ?thesis"
    by (auto simp: advertised_iff vfResourceName_Inr)
qed

lemma discover_device_cases:
  "discover_device api fs d groups =
     (case advertised fs d of
        None \<Rightarrow> groups
      | Some (r, p) \<Rightarrow>
          (let g = (case map_of groups r of Some g \<Rightarrow> g | None \<Rightarrow> \<lparr>ResourceName = r, Devices = []\<rparr>)
           in AList.update r (g\<lparr>Devices := AList.update (Name d) (discovered api fs d) (Devices g)\<rparr>)
                groups))"
proof (cases "probeSRIOV fs (PCIBusID d)")
  case (Inl e)
  then show ?thesis by (simp add: discover_device_def advertised_def)
next
  case (Inr info)
  then show ?thesis
    by (cases "resourceForDevice d info")
      (auto simp: discover_device_def advertised_def discovered_def split_beta Let_def
        split: sum.split option.split bool.split)
qed

end
