(* ===== verification/Discovery.thy ===== *)
theory Discovery imports Inventory begin

text \<open>
  What one discovery scan yields: the well-formedness of the resource groups, which device
  each group holds under a name, and the resource a device is advertised under, in terms of the
  SR-IOV files.
\<close>

section \<open>Well-formed groups\<close>

text \<open>A device map is keyed by device name.\<close>

definition named_devices :: "npuDevice go_map \<Rightarrow> bool" where
  "named_devices ds \<longleftrightarrow> go_map_ok ds \<and> (\<forall>(n, d)\<in>set ds. Name (Info d) = n)"

definition group_ok :: "string \<Rightarrow> deviceGroup \<Rightarrow> bool" where
  "group_ok r g \<longleftrightarrow> ResourceName g = r \<and> Devices g \<noteq> [] \<and> named_devices (Devices g)"

definition groups_ok :: "deviceGroup go_map \<Rightarrow> bool" where
  "groups_ok groups \<longleftrightarrow> go_map_ok groups \<and> (\<forall>(r, g)\<in>set groups. group_ok r g)"

lemma named_devices_Nil [simp, shape_intros]: "named_devices []"
  by (simp add: named_devices_def)

lemma set_AList_update: "x \<in> set (AList.update k v m) \<Longrightarrow> x = (k, v) \<or> x \<in> set m"
  by (induction m) (auto split: if_splits)

lemma named_devices_update [shape_intros]:
  "named_devices ds \<Longrightarrow> Name (Info d) = n \<Longrightarrow> named_devices (AList.update n d ds)"
  by (auto simp: named_devices_def go_map_ok_update dest!: set_AList_update)

lemma named_devices_at:
  "named_devices ds \<Longrightarrow> map_of ds n = Some d \<Longrightarrow> Name (Info d) = n"
  by (auto simp: named_devices_def dest: map_of_SomeD)

lemma groups_ok_Nil [simp, shape_intros]: "groups_ok []"
  by (simp add: groups_ok_def)

lemma groups_ok_update [shape_intros]:
  "groups_ok groups \<Longrightarrow> group_ok r g \<Longrightarrow> groups_ok (AList.update r g groups)"
  by (auto simp: groups_ok_def go_map_ok_update dest!: set_AList_update)

lemma groups_ok_at: "groups_ok groups \<Longrightarrow> map_of groups r = Some g \<Longrightarrow> group_ok r g"
  by (auto simp: groups_ok_def dest: map_of_SomeD)

lemma AList_update_nonempty [simp]: "AList.update k v m \<noteq> []"
  by (cases m) auto

lemma discovered_name [simp]: "Info (discovered api fs d) = d"
  by (simp add: discovered_def)

lemma discover_device_ok:
  assumes "groups_ok groups"
  shows "groups_ok (discover_device api fs d groups)"
proof (cases "advertised fs d")
  case (Some rp)
  obtain r p where rp: "rp = (r, p)" by (cases rp)
  have "group_ok r (g\<lparr>Devices := AList.update (Name d) (discovered api fs d) (Devices g)\<rparr>)"
    if "g = (case map_of groups r of Some g \<Rightarrow> g | None \<Rightarrow> \<lparr>ResourceName = r, Devices = []\<rparr>)" for g
    using that groups_ok_at [OF assms, of r]
    by (auto simp: group_ok_def named_devices_update split: option.splits)
  then show ?thesis
    using Some assms by (simp add: discover_device_cases rp Let_def groups_ok_update)
qed (simp add: discover_device_cases assms)

lemma fold_discover_ok: "groups_ok groups \<Longrightarrow> groups_ok (fold (discover_device api fs) ds groups)"
  by (induction ds arbitrary: groups) (auto simp: discover_device_ok)

lemma discoverDeviceGroups_ok: "groups_ok (discoverDeviceGroups api fs getDevices)"
  by (simp add: discoverDeviceGroups_def fold_discover_ok split: sum.split)

section \<open>The contents of the groups\<close>

definition group_device :: "deviceGroup go_map \<Rightarrow> string \<Rightarrow> string \<Rightarrow> npuDevice option" where
  "group_device groups r n = Option.bind (map_of groups r) (\<lambda>g. map_of (Devices g) n)"

definition resource_of :: "filesystem \<Rightarrow> rblnDevice \<Rightarrow> string option" where
  "resource_of fs d = map_option fst (advertised fs d)"

lemma group_device_step:
  "group_device (discover_device api fs d groups) r n =
     (if resource_of fs d = Some r \<and> Name d = n then Some (discovered api fs d)
      else group_device groups r n)"
  by (cases "advertised fs d"; cases "map_of groups r")
    (auto simp: discover_device_cases group_device_def resource_of_def go_map_simps Let_def
      split: option.splits)

lemma group_device_fold:
  "group_device (fold (discover_device api fs) ds groups) r n =
     (case find (\<lambda>d. resource_of fs d = Some r \<and> Name d = n) (rev ds) of
        Some d \<Rightarrow> Some (discovered api fs d) | None \<Rightarrow> group_device groups r n)"
proof (induction ds rule: rev_induct)
  case (snoc d ds)
  then show ?case by (simp add: group_device_step)
qed simp

lemma group_device_Nil [simp]: "group_device [] r n = None"
  by (simp add: group_device_def)

lemma find_SomeD: "find P xs = Some x \<Longrightarrow> x \<in> set xs \<and> P x"
  by (auto simp: find_Some_iff)

lemma group_device_discover:
  "group_device (discoverDeviceGroups api fs (Inr ds)) r n =
     map_option (discovered api fs) (find (\<lambda>d. resource_of fs d = Some r \<and> Name d = n) (rev ds))"
  by (simp add: discoverDeviceGroups_def group_device_fold split: option.split)

lemma group_exists_iff:
  assumes "groups_ok groups"
  shows "map_of groups r \<noteq> None \<longleftrightarrow> (\<exists>n d. group_device groups r n = Some d)"
proof
  assume "map_of groups r \<noteq> None"
  then obtain g where g: "map_of groups r = Some g" by auto
  then obtain n d where "(n, d) \<in> set (Devices g)"
    using groups_ok_at [OF assms g] by (metis group_ok_def list.set_sel(1) surj_pair)
  then have "map_of (Devices g) n \<noteq> None" by (metis map_of_eq_None_iff fst_conv image_eqI)
  with g show "\<exists>n d. group_device groups r n = Some d" by (auto simp: group_device_def)
qed (auto simp: group_device_def bind_eq_Some_conv)

lemma resource_listed_iff:
  "map_of (discoverDeviceGroups api fs (Inr ds)) r \<noteq> None \<longleftrightarrow> (\<exists>d\<in>set ds. resource_of fs d = Some r)"
proof -
  have "(\<exists>n d. find (\<lambda>d. resource_of fs d = Some r \<and> Name d = n) (rev ds) = Some d)
      \<longleftrightarrow> (\<exists>d\<in>set ds. resource_of fs d = Some r)" (is "?L \<longleftrightarrow> ?R")
  proof
    assume ?R
    then obtain d where d: "d \<in> set (rev ds)" "resource_of fs d = Some r" by auto
    then have "find (\<lambda>e. resource_of fs e = Some r \<and> Name e = Name d) (rev ds) \<noteq> None"
      unfolding find_None_iff by blast
    then show ?L by blast
  qed (auto dest!: find_SomeD)
  then show ?thesis
    unfolding group_exists_iff [OF discoverDeviceGroups_ok] group_device_discover by auto
qed

lemma find_unique_name:
  assumes "distinct (map f ds)" "d \<in> set ds" "P d"
  shows "find (\<lambda>e. P e \<and> f e = f d) (rev ds) = Some d"
proof -
  have "find (\<lambda>e. P e \<and> f e = f d) (rev ds) \<noteq> None"
    unfolding find_None_iff using assms by auto
  then obtain e where e: "find (\<lambda>e. P e \<and> f e = f d) (rev ds) = Some e" by auto
  then have "e \<in> set (rev ds) \<and> f e = f d" by (auto dest!: find_SomeD)
  then show ?thesis using assms e by (auto simp: distinct_map inj_on_def)
qed

lemma find_absent_name:
  assumes "distinct (map f ds)" "d \<in> set ds" "\<not> P d"
  shows "find (\<lambda>e. P e \<and> f e = f d) (rev ds) = None"
  unfolding find_None_iff using assms by (auto simp: distinct_map inj_on_def)


section \<open>Properties\<close>

text \<open>
  C22: a scan groups the reported devices faithfully.  The groups are well formed (one group per
  resource, carrying that resource's name, never empty, each device under its own name); under a
  resource and a name stands the device of that name the scan met last among those advertised under
  the resource, with the health and status read for it; and a failed device query yields no group.
\<close>

theorem discovery_groups:
  "groups_ok (discoverDeviceGroups api fs getDevices)
   \<and> group_device (discoverDeviceGroups api fs (Inr ds)) r n
       = map_option (discovered api fs)
           (find (\<lambda>d. resource_of fs d = Some r \<and> Name d = n) (rev ds))
   \<and> discoverDeviceGroups api fs (Inl err) = []"
  using discoverDeviceGroups_ok group_device_discover by (simp add: discoverDeviceGroups_def)

lemma discovered_eq:
  "advertised fs d = Some (r, p) \<Longrightarrow> discovered api fs d = x \<longleftrightarrow>
     x = \<lparr>Info = d, Health = fst (healthForDevice api fs (Name d)),
          StatusName = snd (healthForDevice api fs (Name d)), ParentPFBusID = p\<rparr>"
  by (auto simp: discovered_def)

lemma group_device_unique:
  assumes "distinct (map Name ds)" "d \<in> set ds"
  shows "group_device (discoverDeviceGroups api fs (Inr ds)) r (Name d) = Some x \<longleftrightarrow>
    (\<exists>p. advertised fs d = Some (r, p)
      \<and> x = \<lparr>Info = d, Health = fst (healthForDevice api fs (Name d)),
              StatusName = snd (healthForDevice api fs (Name d)), ParentPFBusID = p\<rparr>)"
proof (cases "resource_of fs d = Some r")
  case True
  then obtain p where p: "advertised fs d = Some (r, p)" by (auto simp: resource_of_def)
  show ?thesis
    using find_unique_name [OF assms, of "\<lambda>e. resource_of fs e = Some r"] True discovered_eq [OF p, of api x]
    by (auto simp: group_device_discover p)
next
  case False
  then have "advertised fs d \<noteq> Some (r, p)" for p by (auto simp: resource_of_def)
  with False show ?thesis
    using find_absent_name [OF assms, of "\<lambda>e. resource_of fs e = Some r"]
    by (auto simp: group_device_discover)
qed

text \<open>
  C20: the resource of a device is decided by its SR-IOV files alone.  A device of the scan is in the
  group of a resource exactly when either its \<open>physfn\<close> link exists and resolves, the VF count of
  the function it points to can be read and is 1 or 4, and the resource is the partition resource
  of that count with that function recorded as parent; or the link is known to be absent (or the
  device has no PCI address), its own VF count is absent or not positive, and the resource is the
  generic one.  Every other device, a function hosting VFs or one whose files cannot be read, is in
  no group.
\<close>

theorem discovery_classification:
  assumes "distinct (map Name ds)" "d \<in> set ds"
  shows "group_device (discoverDeviceGroups api fs (Inr ds)) r (Name d) = Some x \<longleftrightarrow>
    (\<exists>p. x = \<lparr>Info = d, Health = fst (healthForDevice api fs (Name d)),
              StatusName = snd (healthForDevice api fs (Name d)), ParentPFBusID = p\<rparr>
      \<and> (let b = PCIBusID d in
          (b \<noteq> [] \<and> fs_lstat fs (physfn_path b) = Inr ()
            \<and> (\<exists>target. fs_readlink fs (physfn_path b) = Inr target \<and> p = path_base target)
            \<and> (\<exists>n. readSriovNumVFs fs p = Inr n \<and> n \<in> {1, 4} \<and> r = VFResourceNamePrefix @ itoa n))
        \<or> (r = GenericResourceName \<and> p = []
            \<and> (b = [] \<or> (fs_lstat fs (physfn_path b) = Inl NotExist
                \<and> (readSriovNumVFs fs b = Inl NotExist \<or> (\<exists>n\<le>0. readSriovNumVFs fs b = Inr n)))))))"
  unfolding group_device_unique [OF assms] advertised_iff probeSRIOV_VF_iff probeSRIOV_None_iff
    vfResourceName_Inr Let_def by blast

definition sriov_devices :: "rblnDevice list" where
  "sriov_devices =
     [\<lparr>Name = ''rbln0'', ProductName = ''RBLN-CA25'', PCIDeviceID = ''1250'',
        PCIBusID = ''0000:3b:00.0'', PCINumaNode = ''0'', SID = ''S0''\<rparr>,
      \<lparr>Name = ''rbln1'', ProductName = ''RBLN-CA25'', PCIDeviceID = ''1251'',
        PCIBusID = ''0000:3b:00.1'', PCINumaNode = ''0'', SID = ''S0''\<rparr>,
      \<lparr>Name = ''rbln2'', ProductName = ''RBLN-CA25'', PCIDeviceID = ''1250'',
        PCIBusID = ''0000:5e:00.0'', PCINumaNode = ''1'', SID = ''S1''\<rparr>]"

theorem discovery_classification_witness:
  "map_option ParentPFBusID
     (group_device (discoverDeviceGroups sample_api sriov_fs (Inr sriov_devices))
       ''rebellions.ai/npu-vf4'' ''rbln1'') = Some ''0000:3b:00.0''"
proof -
  have d: "distinct (map Name sriov_devices)" "sriov_devices ! 1 \<in> set sriov_devices"
    by (simp_all add: sriov_devices_def)
  have n: "Name (sriov_devices ! 1) = ''rbln1''" "PCIBusID (sriov_devices ! 1) = ''0000:3b:00.1''"
    by (simp_all add: sriov_devices_def)
  have files: "fs_lstat sriov_fs (physfn_path ''0000:3b:00.1'') = Inr ()"
    "fs_readlink sriov_fs (physfn_path ''0000:3b:00.1'') = Inr ''../0000:3b:00.0''"
    "path_base ''../0000:3b:00.0'' = ''0000:3b:00.0''"
    "readSriovNumVFs sriov_fs ''0000:3b:00.0'' = Inr 4"
    "''rebellions.ai/npu-vf4'' = VFResourceNamePrefix @ itoa 4"
    by code_simp+
  let ?x = "\<lparr>Info = sriov_devices ! 1, Health = fst (healthForDevice sample_api sriov_fs ''rbln1''),
    StatusName = snd (healthForDevice sample_api sriov_fs ''rbln1''), ParentPFBusID = ''0000:3b:00.0''\<rparr>"
  have "group_device (discoverDeviceGroups sample_api sriov_fs (Inr sriov_devices))
      (VFResourceNamePrefix @ itoa 4) ''rbln1'' = Some ?x"
    unfolding discovery_classification [OF d, unfolded n Let_def]
    by (rule exI [of _ "''0000:3b:00.0''"], rule conjI [OF refl], rule disjI1) (use files in auto)
  then show ?thesis using files(5) by simp
qed

end
