(* ===== verification/InventoryDelta.thy ===== *)
theory InventoryDelta imports Discovery begin

text \<open>
  The difference of two device maps, the counts, and the list sent to the kubelet: what
  \<open>diffDeviceInventories\<close>, \<open>healthCounts\<close> and \<open>clonePluginDevices\<close> compute.
\<close>

section \<open>Differences\<close>

text \<open>What the log reports of a device: its health and status name.\<close>

definition reported :: "npuDevice go_map \<Rightarrow> string \<Rightarrow> (string \<times> string) option" where
  "reported ds i = map_option (\<lambda>d. (Health d, StatusName d)) (map_of ds i)"

definition state_change :: "npuDevice go_map \<Rightarrow> npuDevice go_map \<Rightarrow> string \<Rightarrow> deviceStateChange" where
  "state_change previous current i =
     \<lparr>change_Device = device_at current i, PreviousHealth = Health (device_at previous i),
      PreviousStatus = StatusName (device_at previous i)\<rparr>"

definition has_changed :: "npuDevice go_map \<Rightarrow> npuDevice go_map \<Rightarrow> string \<Rightarrow> bool" where
  "has_changed previous current i \<longleftrightarrow>
     map_of previous i \<noteq> None
     \<and> (Health (device_at previous i) \<noteq> Health (device_at current i)
        \<or> StatusName (device_at previous i) \<noteq> StatusName (device_at current i))"

lemma fold_diff_current:
  "fold (diff_current previous current) ids delta =
     delta\<lparr>Added := Added delta @ map (device_at current) (filter (\<lambda>i. map_of previous i = None) ids),
           Changed := Changed delta
             @ map (state_change previous current) (filter (has_changed previous current) ids)\<rparr>"
proof (induction ids arbitrary: delta)
  case (Cons i ids)
  then show ?case
    by (cases "map_of previous i")
      (auto simp: diff_current_def state_change_def has_changed_def device_at_Some Let_def)
qed simp

lemma fold_diff_previous:
  "fold (diff_previous current) ids delta =
     delta\<lparr>Removed := Removed delta @ filter (\<lambda>i. map_of current i = None) ids\<rparr>"
  by (induction ids arbitrary: delta) (auto simp: diff_previous_def)

lemma diff_fields:
  "diffDeviceInventories previous current =
     \<lparr>Added = map (device_at current)
        (filter (\<lambda>i. map_of previous i = None) (sortedDeviceIDs current)),
      Removed = filter (\<lambda>i. map_of current i = None) (sortedDeviceIDs previous),
      Changed = map (state_change previous current)
        (filter (has_changed previous current) (sortedDeviceIDs current))\<rparr>"
  by (simp add: diffDeviceInventories_def fold_diff_current fold_diff_previous)

lemma diff_isEmpty:
  "isEmpty (diffDeviceInventories previous current) \<longleftrightarrow> reported previous = reported current"
proof -
  have "reported previous i = reported current i \<longleftrightarrow>
      (i \<in> fst ` set current \<longrightarrow> map_of previous i \<noteq> None \<and> \<not> has_changed previous current i)
      \<and> (i \<in> fst ` set previous \<longrightarrow> map_of current i \<noteq> None)" for i
    by (cases "map_of previous i"; cases "map_of current i")
      (auto simp: reported_def has_changed_def device_at_Some keys_iff_map_of)
  then show ?thesis
    by (auto simp: isEmpty_def diff_fields filter_empty_conv fun_eq_iff)
qed

text \<open>Replaying a difference on the reported states.\<close>

definition replay ::
    "deviceInventoryDelta \<Rightarrow> (string \<Rightarrow> (string \<times> string) option) \<Rightarrow> string \<Rightarrow> (string \<times> string) option"
  where
  "replay delta view i =
     (case find (\<lambda>d. Name (Info d) = i) (Added delta @ map change_Device (Changed delta)) of
        Some d \<Rightarrow> Some (Health d, StatusName d)
      | None \<Rightarrow> if i \<in> set (Removed delta) then None else view i)"

lemma find_device_at:
  assumes "named_devices ds" "set ids \<subseteq> fst ` set ds"
  shows "find (\<lambda>d. Name (Info d) = i) (map (device_at ds) ids)
    = (if i \<in> set ids then Some (device_at ds i) else None)"
  using assms(2)
proof (induction ids)
  case (Cons j ids)
  then have "Name (Info (device_at ds j)) = j"
    using named_devices_at [OF assms(1), of j] device_at_key [of j ds] by simp
  with Cons show ?case by auto
qed simp

lemma replay_diff:
  assumes "named_devices current"
  shows "replay (diffDeviceInventories previous current) (reported previous) = reported current"
proof
  fix i
  let ?new = "filter (\<lambda>i. map_of previous i = None) (sortedDeviceIDs current)"
  let ?chg = "filter (has_changed previous current) (sortedDeviceIDs current)"
  let ?delta = "diffDeviceInventories previous current"
  have added: "Added ?delta @ map change_Device (Changed ?delta) = map (device_at current) (?new @ ?chg)"
    by (simp add: diff_fields state_change_def)
  have found: "find (\<lambda>d. Name (Info d) = i) (map (device_at current) (?new @ ?chg))
      = (if i \<in> set (?new @ ?chg) then Some (device_at current i) else None)"
    by (rule find_device_at [OF assms]) auto
  have gone: "i \<in> set (Removed ?delta) \<longleftrightarrow> i \<in> fst ` set previous \<and> map_of current i = None"
    by (auto simp: diff_fields)
  have r: "replay ?delta (reported previous) i =
      (if i \<in> set (?new @ ?chg) then Some (Health (device_at current i), StatusName (device_at current i))
       else if i \<in> fst ` set previous \<and> map_of current i = None then None else reported previous i)"
    unfolding replay_def added found gone by simp
  show "replay (diffDeviceInventories previous current) (reported previous) i = reported current i"
    unfolding r
    by (cases "map_of previous i"; cases "map_of current i")
      (auto simp: keys_iff_map_of reported_def has_changed_def device_at_Some)
qed

text \<open>
  The difference of two device maps is exact.  \<open>Added\<close> holds the devices of the new map whose
  identifier the old one lacks, \<open>Removed\<close> the identifiers the new one lacks, \<open>Changed\<close> the
  devices of both whose health or status name differs, with the old values, all in the order of the
  identifiers; and the difference is empty exactly when both maps report the same identifiers with
  the same health and status name.
\<close>

theorem diffDeviceInventories_exact:
  "Added (diffDeviceInventories previous current)
     = map (device_at current) (filter (\<lambda>i. map_of previous i = None) (sortedDeviceIDs current))
   \<and> Removed (diffDeviceInventories previous current)
     = filter (\<lambda>i. map_of current i = None) (sortedDeviceIDs previous)
   \<and> Changed (diffDeviceInventories previous current)
     = map (state_change previous current)
         (filter (has_changed previous current) (sortedDeviceIDs current))
   \<and> (isEmpty (diffDeviceInventories previous current) \<longleftrightarrow> reported previous = reported current)"
  by (simp add: diff_isEmpty) (simp add: diff_fields)

text \<open>
  C27: the differences lose no transition.  Replaying the difference of two device maps on the health
  and status the first one reports gives exactly what the second one reports.
\<close>

theorem diff_replay_roundtrip:
  assumes "named_devices current"
  shows "replay (diffDeviceInventories previous current) (reported previous) = reported current"
  by (rule replay_diff [OF assms])

definition delta_device :: "string \<Rightarrow> string \<Rightarrow> string \<Rightarrow> npuDevice" where
  "delta_device n h st = zeroNPUDevice
     \<lparr>Info := (Info zeroNPUDevice)\<lparr>Name := n\<rparr>, Health := h, StatusName := st\<rparr>"

definition delta_before :: "npuDevice go_map" where
  "delta_before = [(''rbln0'', delta_device ''rbln0'' ''Healthy'' ''READY''),
     (''rbln1'', delta_device ''rbln1'' ''Healthy'' ''READY'')]"

definition delta_after :: "npuDevice go_map" where
  "delta_after = [(''rbln2'', delta_device ''rbln2'' ''Healthy'' ''READY''),
     (''rbln1'', delta_device ''rbln1'' ''Unhealthy'' ''FAULT'')]"

lemma delta_after_named: "named_devices delta_after"
  by (simp add: named_devices_def go_map_ok_def delta_after_def delta_device_def zeroNPUDevice_def)

theorem diff_replay_roundtrip_witness:
  "replay (diffDeviceInventories delta_before delta_after) (reported delta_before) ''rbln1''
     = Some (''Unhealthy'', ''FAULT'')
   \<and> Removed (diffDeviceInventories delta_before delta_after) = [''rbln0'']"
proof
  show "replay (diffDeviceInventories delta_before delta_after) (reported delta_before) ''rbln1''
     = Some (''Unhealthy'', ''FAULT'')"
    unfolding diff_replay_roundtrip [OF delta_after_named]
    by (simp add: reported_def delta_after_def delta_device_def)
  show "Removed (diffDeviceInventories delta_before delta_after) = [''rbln0'']" by code_simp
qed

section \<open>Counts\<close>

lemma fold_healthCounts:
  "fold (\<lambda>(_, device) (healthy, unhealthy).
       if Health device = Unhealthy api then (healthy, unhealthy + 1)
       else (healthy + 1, unhealthy)) ds (h, u)
   = (h + int (length (filter (\<lambda>(_, d). Health d \<noteq> Unhealthy api) ds)),
      u + int (length (filter (\<lambda>(_, d). Health d = Unhealthy api) ds)))"
  by (induction ds arbitrary: h u) auto

lemma healthCounts_eq:
  "healthCounts api ds =
     (int (length (filter (\<lambda>(_, d). Health d \<noteq> Unhealthy api) ds)),
      int (length (filter (\<lambda>(_, d). Health d = Unhealthy api) ds)))"
  by (simp add: healthCounts_def fold_healthCounts)

lemma healthCounts_sum: "fst (healthCounts api ds) + snd (healthCounts api ds) = int (length ds)"
proof -
  have "length (filter (\<lambda>(_, d). Health d \<noteq> Unhealthy api) ds)
      + length (filter (\<lambda>(_, d). Health d = Unhealthy api) ds) = length ds"
    by (induction ds) auto
  then show ?thesis by (simp add: healthCounts_eq)
qed

section \<open>The list sent to the kubelet\<close>

lemma clonePluginDevices_ids:
  assumes "named_devices ds"
  shows "map pd_ID (clonePluginDevices api ds) = sortedDeviceIDs ds"
proof -
  have "Name (Info (device_at ds i)) = i" if "i \<in> set (sortedDeviceIDs ds)" for i
    using that named_devices_at [OF assms, of i] device_at_key [of i ds] by simp
  then show ?thesis
    by (auto simp: clonePluginDevices_def toPluginDevice_def Let_def intro: map_idI)
qed

lemma sortedDeviceIDs_cong:
  "go_map_ok ds \<Longrightarrow> go_map_ok ds' \<Longrightarrow> map_of ds = map_of ds' \<Longrightarrow> sortedDeviceIDs ds = sortedDeviceIDs ds'"
  unfolding sortedDeviceIDs_keys by (rule sorted_keys_cong) (metis dom_map_of_conv_image_fst)+

lemma clonePluginDevices_cong:
  "go_map_ok ds \<Longrightarrow> go_map_ok ds' \<Longrightarrow> map_of ds = map_of ds' \<Longrightarrow>
     clonePluginDevices api ds = clonePluginDevices api ds'"
  by (simp add: clonePluginDevices_def sortedDeviceIDs_cong [of ds ds'] device_at_def)

text \<open>
  C28: the device list for the kubelet is a function of the device map as a map.  It lists every
  device exactly once, in the order of the identifiers, whatever order the map is iterated in;
  the health of a device is the one recorded, healthy where none is recorded; and a device carries a
  NUMA node exactly when its recorded node is a decimal integer of 64 bits, which is then its only
  node.
\<close>

theorem clonePluginDevices_faithful:
  assumes "named_devices ds" "go_map_ok ds'" "map_of ds = map_of ds'"
  shows "clonePluginDevices api ds = clonePluginDevices api ds'
    \<and> map pd_ID (clonePluginDevices api ds) = sortedDeviceIDs ds
    \<and> distinct (map pd_ID (clonePluginDevices api ds))
    \<and> (\<forall>p\<in>set (clonePluginDevices api ds).
         \<exists>d. map_of ds (pd_ID p) = Some d
           \<and> pd_Health p = (if Health d = [] then Healthy api else Health d)
           \<and> (\<forall>ns. pd_Topology p = Some ns \<longleftrightarrow> (\<exists>k. atoi (PCINumaNode (Info d)) = Some k \<and> ns = [k])))"
proof (intro conjI)
  have ok: "go_map_ok ds" using assms(1) by (simp add: named_devices_def)
  show "clonePluginDevices api ds = clonePluginDevices api ds'"
    by (rule clonePluginDevices_cong [OF ok assms(2,3)])
  show "map pd_ID (clonePluginDevices api ds) = sortedDeviceIDs ds"
    by (rule clonePluginDevices_ids [OF assms(1)])
  then show "distinct (map pd_ID (clonePluginDevices api ds))" using ok by simp
  have atoi_empty: "atoi [] = None" by code_simp
  show "\<forall>p\<in>set (clonePluginDevices api ds).
         \<exists>d. map_of ds (pd_ID p) = Some d
           \<and> pd_Health p = (if Health d = [] then Healthy api else Health d)
           \<and> (\<forall>ns. pd_Topology p = Some ns \<longleftrightarrow> (\<exists>k. atoi (PCINumaNode (Info d)) = Some k \<and> ns = [k]))"
  proof
    fix p assume "p \<in> set (clonePluginDevices api ds)"
    then obtain i where i: "i \<in> fst ` set ds" "p = toPluginDevice api (device_at ds i)"
      by (auto simp: clonePluginDevices_def)
    have "pd_ID p = i"
      using i named_devices_at [OF assms(1) device_at_key [OF i(1)]] by (simp add: toPluginDevice_def Let_def)
    then show "\<exists>d. map_of ds (pd_ID p) = Some d
           \<and> pd_Health p = (if Health d = [] then Healthy api else Health d)
           \<and> (\<forall>ns. pd_Topology p = Some ns \<longleftrightarrow> (\<exists>k. atoi (PCINumaNode (Info d)) = Some k \<and> ns = [k]))"
      using i device_at_key [OF i(1)] atoi_empty
      by (auto simp: toPluginDevice_def topologyForDevice_def Let_def split: option.split)
  qed
qed

theorem clonePluginDevices_faithful_witness:
  "map pd_ID (clonePluginDevices sample_api delta_after) = [''rbln1'', ''rbln2'']
   \<and> clonePluginDevices sample_api delta_after = clonePluginDevices sample_api (rev delta_after)"
proof -
  have r: "go_map_ok (rev delta_after)" "map_of delta_after = map_of (rev delta_after)"
    by (simp_all add: go_map_ok_def delta_after_def fun_eq_iff)
  have "sortedDeviceIDs delta_after = [''rbln1'', ''rbln2'']" by code_simp
  then show ?thesis
    using clonePluginDevices_faithful [OF delta_after_named r, of sample_api] by metis
qed

end
