(* ===== verification/World.thy ===== *)
theory World imports InventoryDelta begin

text \<open>
  The operating system and the kubelet as the plugin lifecycle uses them: the files of the
  device-plugin directory, the sockets with a listener, the registrations the kubelet accepted and
  the log.  Every fallible call consumes one tick; \<open>w_fault\<close> gives the failure the n-th
  call meets, if any, so that a theorem for every \<open>w_fault\<close> covers every pattern of failures.
\<close>

section \<open>State\<close>

record register_request =
  rr_Version :: string
  rr_Endpoint :: string
  rr_ResourceName :: string
  rr_PreferredAvailable :: bool

record world =
  w_paths :: "string list"
  w_listening :: "string list"
  w_registered :: "register_request list"
  w_logs :: "log_record list"
  w_clock :: nat
  w_fault :: "nat \<Rightarrow> string option"

definition empty_world :: world where
  "empty_world = \<lparr>w_paths = [], w_listening = [], w_registered = [], w_logs = [], w_clock = 0,
     w_fault = (\<lambda>_. None)\<rparr>"

section \<open>System calls\<close>

definition sys_tick :: "world \<Rightarrow> fs_error option \<times> world" where
  "sys_tick w = (map_option FsError (w_fault w (w_clock w)), w\<lparr>w_clock := Suc (w_clock w)\<rparr>)"

definition os_remove :: "string \<Rightarrow> world \<Rightarrow> fs_error option \<times> world" where
  "os_remove path w =
     (case sys_tick w of
        (Some err, w) \<Rightarrow> (Some err, w)
      | (None, w) \<Rightarrow>
          if path \<in> set (w_paths w) then (None, w\<lparr>w_paths := removeAll path (w_paths w)\<rparr>)
          else (Some NotExist, w))"

text \<open>\<open>net.Listen\<close> on a Unix socket fails when the path exists.\<close>

definition net_listen :: "string \<Rightarrow> world \<Rightarrow> fs_error option \<times> world" where
  "net_listen path w =
     (case sys_tick w of
        (Some err, w) \<Rightarrow> (Some err, w)
      | (None, w) \<Rightarrow>
          if path \<in> set (w_paths w) then (Some (FsError ''bind: address already in use''), w)
          else (None, w\<lparr>w_paths := w_paths w @ [path], w_listening := w_listening w @ [path]\<rparr>))"

text \<open>
  Closing a Unix listener the first time unlinks its path, ignoring the result; closing it again
  does nothing.
\<close>

definition listener_close :: "string \<Rightarrow> world \<Rightarrow> world" where
  "listener_close path w =
     (if path \<in> set (w_listening w)
      then snd (os_remove path (w\<lparr>w_listening := removeAll path (w_listening w)\<rparr>)) else w)"

definition kubelet_register :: "register_request \<Rightarrow> world \<Rightarrow> fs_error option \<times> world" where
  "kubelet_register request w =
     (case sys_tick w of
        (Some err, w) \<Rightarrow> (Some err, w)
      | (None, w) \<Rightarrow> (None, w\<lparr>w_registered := w_registered w @ [request]\<rparr>))"

definition emit :: "slog_level \<Rightarrow> string \<Rightarrow> log_attrs \<Rightarrow> world \<Rightarrow> world" where
  "emit level msg attrs w =
     w\<lparr>w_logs := w_logs w @ [\<lparr>lr_level = level, lr_msg = msg, lr_attrs = attrs\<rparr>]\<rparr>"

definition emit_all :: "log_record list \<Rightarrow> world \<Rightarrow> world" where
  "emit_all records w = w\<lparr>w_logs := w_logs w @ records\<rparr>"

section \<open>What each call changes\<close>

named_theorems world_simps \<open>fields of the world after a call\<close>

lemma sys_tick_fields [world_simps]:
  "w_paths (snd (sys_tick w)) = w_paths w" "w_listening (snd (sys_tick w)) = w_listening w"
  "w_registered (snd (sys_tick w)) = w_registered w" "w_logs (snd (sys_tick w)) = w_logs w"
  "w_fault (snd (sys_tick w)) = w_fault w" "fst (sys_tick w) \<noteq> Some NotExist"
  by (auto simp: sys_tick_def)

lemma sys_tick_ok: "w_fault w (w_clock w) = None \<Longrightarrow> sys_tick w = (None, w\<lparr>w_clock := Suc (w_clock w)\<rparr>)"
  by (simp add: sys_tick_def)

lemma emit_fields [world_simps]:
  "w_paths (emit l m a w) = w_paths w" "w_listening (emit l m a w) = w_listening w"
  "w_registered (emit l m a w) = w_registered w" "w_fault (emit l m a w) = w_fault w"
  "w_clock (emit l m a w) = w_clock w"
  by (simp_all add: emit_def)

lemma emit_all_fields [world_simps]:
  "w_paths (emit_all rs w) = w_paths w" "w_listening (emit_all rs w) = w_listening w"
  "w_registered (emit_all rs w) = w_registered w" "w_fault (emit_all rs w) = w_fault w"
  "w_clock (emit_all rs w) = w_clock w"
  by (simp_all add: emit_all_def)

lemma os_remove_fields [world_simps]:
  "w_listening (snd (os_remove p w)) = w_listening w"
  "w_registered (snd (os_remove p w)) = w_registered w" "w_logs (snd (os_remove p w)) = w_logs w"
  "w_fault (snd (os_remove p w)) = w_fault w"
  by (auto simp: os_remove_def sys_tick_def split: option.split)

lemma os_remove_paths:
  "set (w_paths (snd (os_remove p w))) =
     (case fst (os_remove p w) of None \<Rightarrow> set (w_paths w) - {p} | Some _ \<Rightarrow> set (w_paths w))"
  by (auto simp: os_remove_def sys_tick_def split: option.split)

lemma os_remove_other [world_simps]:
  "q \<noteq> p \<Longrightarrow> q \<in> set (w_paths (snd (os_remove p w))) \<longleftrightarrow> q \<in> set (w_paths w)"
  by (auto simp: os_remove_paths split: option.split)

lemma os_remove_gone:
  "fst (os_remove p w) = None \<or> fst (os_remove p w) = Some NotExist \<Longrightarrow>
     p \<notin> set (w_paths (snd (os_remove p w)))"
  by (auto simp: os_remove_def sys_tick_def split: option.splits if_splits)

lemma net_listen_fields [world_simps]:
  "w_registered (snd (net_listen p w)) = w_registered w" "w_logs (snd (net_listen p w)) = w_logs w"
  "w_fault (snd (net_listen p w)) = w_fault w"
  by (auto simp: net_listen_def sys_tick_def split: option.split)

lemma net_listen_listening:
  "set (w_listening (snd (net_listen p w))) =
     (case fst (net_listen p w) of None \<Rightarrow> insert p (set (w_listening w)) | Some _ \<Rightarrow> set (w_listening w))"
  "set (w_paths (snd (net_listen p w))) =
     (case fst (net_listen p w) of None \<Rightarrow> insert p (set (w_paths w)) | Some _ \<Rightarrow> set (w_paths w))"
  by (auto simp: net_listen_def sys_tick_def split: option.split)

lemma listener_close_fields [world_simps]:
  "set (w_listening (listener_close p w)) = set (w_listening w) - {p}"
  "w_registered (listener_close p w) = w_registered w" "w_logs (listener_close p w) = w_logs w"
  "w_fault (listener_close p w) = w_fault w"
  by (auto simp: listener_close_def world_simps)

lemma listener_close_other [world_simps]:
  "q \<noteq> p \<Longrightarrow> q \<in> set (w_paths (listener_close p w)) \<longleftrightarrow> q \<in> set (w_paths w)"
  by (simp add: listener_close_def world_simps)

lemma kubelet_register_fields [world_simps]:
  "w_paths (snd (kubelet_register r w)) = w_paths w"
  "w_listening (snd (kubelet_register r w)) = w_listening w"
  "w_logs (snd (kubelet_register r w)) = w_logs w" "w_fault (snd (kubelet_register r w)) = w_fault w"
  by (auto simp: kubelet_register_def sys_tick_def split: option.split)

lemma kubelet_register_registered [world_simps]:
  "w_registered (snd (kubelet_register r w)) =
     w_registered w @ (if fst (kubelet_register r w) = None then [r] else [])"
  by (auto simp: kubelet_register_def sys_tick_def split: option.split)

end
