(* ===== verification/Channel.thy ===== *)
theory Channel imports Prelude begin

text \<open>
  Buffered Go channels, as lists with the oldest message first, and the contract of a mailbox that
  keeps only its newest message.  An operation that would block gives \<open>None\<close>.
\<close>

definition chan_send :: "nat \<Rightarrow> 'm list \<Rightarrow> 'm \<Rightarrow> 'm list option" where
  "chan_send cap ch x = (if length ch < cap then Some (ch @ [x]) else None)"

definition chan_recv :: "'m list \<Rightarrow> ('m \<times> 'm list) option" where
  "chan_recv ch = (case ch of [] \<Rightarrow> None | x # xs \<Rightarrow> Some (x, xs))"

section \<open>The contract\<close>

locale newest_mailbox =
  fixes put :: "'m \<Rightarrow> 'c \<Rightarrow> 'c option"
    and get :: "'c \<Rightarrow> ('m \<times> 'c) option"
    and ok :: "'c \<Rightarrow> bool"
  assumes put_never_blocks: "ok c \<Longrightarrow> \<exists>c'. put x c = Some c' \<and> ok c'"
    and get_after_put: "ok c \<Longrightarrow> put x c = Some c' \<Longrightarrow>
      \<exists>c''. get c' = Some (x, c'') \<and> get c'' = None"
begin

fun put_all :: "'m list \<Rightarrow> 'c \<Rightarrow> 'c option" where
  "put_all [] c = Some c"
| "put_all (x # xs) c = Option.bind (put x c) (put_all xs)"

lemma put_all_never_blocks: "ok c \<Longrightarrow> \<exists>c'. put_all xs c = Some c' \<and> ok c'"
proof (induction xs arbitrary: c)
  case (Cons x xs)
  with put_never_blocks [OF Cons.prems, of x] show ?case by auto
qed simp

lemma put_all_append: "put_all (xs @ ys) c = Option.bind (put_all xs c) (put_all ys)"
proof (induction xs arbitrary: c)
  case (Cons x xs)
  then show ?case by (cases "put x c") auto
qed simp

lemma get_newest:
  assumes "ok c" "xs \<noteq> []"
  shows "\<exists>c' c''. put_all xs c = Some c' \<and> get c' = Some (last xs, c'') \<and> get c'' = None"
proof -
  obtain c1 where c1: "put_all (butlast xs) c = Some c1" "ok c1"
    using put_all_never_blocks [OF assms(1)] by blast
  obtain c2 where c2: "put (last xs) c1 = Some c2" using put_never_blocks [OF c1(2)] by blast
  have "put_all xs c = put_all (butlast xs @ [last xs]) c" using assms(2) by simp
  then have "put_all xs c = Some c2" by (simp only: put_all_append) (simp add: c1 c2)
  then show ?thesis using get_after_put [OF c1(2) c2] by blast
qed

end

end
