(* ===== verification/Plugin.thy ===== *)
theory Plugin imports World Channel begin

text \<open>
  \<open>cmd/rbln-device-plugin/plugin.go\<close>, the lifecycle of a resource plugin: construction,
  \<open>Start\<close>, \<open>Stop\<close>, \<open>register\<close>, \<open>UpdateDevices\<close> and its log.
  \<open>p_stopCh\<close> says that \<open>stopCh\<close> is closed, \<open>p_server\<close> and \<open>p_listener\<close> that the
  pointers are set.  The goroutine in \<open>server.Serve\<close> is the listening socket of the world.
\<close>

section \<open>State\<close>

record cdiHandler =
  cdi_root :: string

record resourcePlugin =
  p_resourceName :: string
  p_socketPath :: string
  p_kubeletSocket :: string
  p_cdi :: "cdiHandler option"
  p_devices :: "npuDevice go_map"
  p_updateCh :: "pluginDevice list list"
  p_stopCh :: bool
  p_server :: bool
  p_listener :: bool

definition cloneDeviceMap :: "npuDevice go_map \<Rightarrow> npuDevice go_map" where
  "cloneDeviceMap devices =
     map (\<lambda>(i, device). (i, \<lparr>Info = Info device, Health = Health device,
        StatusName = StatusName device, ParentPFBusID = ParentPFBusID device\<rparr>)) devices"

definition NewResourcePlugin ::
    "string \<Rightarrow> string \<Rightarrow> string \<Rightarrow> cdiHandler option \<Rightarrow> npuDevice go_map \<Rightarrow> resourcePlugin" where
  "NewResourcePlugin resourceName socketPath kubeletSocket cdi devices =
     \<lparr>p_resourceName = resourceName, p_socketPath = socketPath, p_kubeletSocket = kubeletSocket,
      p_cdi = cdi, p_devices = cloneDeviceMap devices, p_updateCh = [], p_stopCh = False,
      p_server = False, p_listener = False\<rparr>"

definition plugin_emit ::
    "resourcePlugin \<Rightarrow> slog_level \<Rightarrow> string \<Rightarrow> log_attrs \<Rightarrow> world \<Rightarrow> world" where
  "plugin_emit p level msg attrs =
     emit level msg ((''resourceName'', LString (p_resourceName p)) # attrs)"

section \<open>Stop\<close>

definition plugin_Stop :: "resourcePlugin \<Rightarrow> world \<Rightarrow> fs_error option \<times> resourcePlugin \<times> world" where
  "plugin_Stop p w =
     (let p = p\<lparr>p_stopCh := True\<rparr>;
          w = (if p_server p then listener_close (p_socketPath p) w else w);
          w = (if p_listener p then listener_close (p_socketPath p) w else w)
      in case os_remove (p_socketPath p) w of
           (Some err, w) \<Rightarrow> (if err \<noteq> NotExist then Some err else None, p, w)
         | (None, w) \<Rightarrow> (None, p, w))"

section \<open>Registration\<close>

datatype plugin_error =
    MkdirFailed fs_error
  | RemoveFailed fs_error
  | ListenFailed string fs_error
  | ConnectFailed string fs_error
  | RegisterFailed string fs_error

text \<open>The options of the plugin: whether \<open>GetPreferredAllocation\<close> is available.\<close>

definition preferredAllocationOptions :: bool where
  [simp]: "preferredAllocationOptions = True"

definition GetDevicePluginOptions :: "resourcePlugin \<Rightarrow> bool" where
  "GetDevicePluginOptions p = preferredAllocationOptions"

definition register_request_of :: "kubelet_api \<Rightarrow> resourcePlugin \<Rightarrow> register_request" where
  "register_request_of api p =
     \<lparr>rr_Version = ApiVersion api, rr_Endpoint = path_base (p_socketPath p),
      rr_ResourceName = p_resourceName p, rr_PreferredAvailable = preferredAllocationOptions\<rparr>"

definition close_connection :: "resourcePlugin \<Rightarrow> world \<Rightarrow> world" where
  "close_connection p w =
     (case sys_tick w of
        (Some err, w) \<Rightarrow> plugin_emit p LevelWarn ''Failed to close kubelet registration connection''
           [(''err'', LErr (err_text err)), (''kubeletSocket'', LString (p_kubeletSocket p))] w
      | (None, w) \<Rightarrow> w)"

definition log_registered :: "kubelet_api \<Rightarrow> resourcePlugin \<Rightarrow> world \<Rightarrow> world" where
  "log_registered api p w =
     (let deviceIDs = sortedDeviceIDs (p_devices p);
          (healthy, unhealthy) = healthCounts api (p_devices p);
          w = plugin_emit p LevelInfo ''Registered device plugin with kubelet''
                [(''deviceCount'', LInt (int (length (p_devices p)))),
                 (''healthyCount'', LInt healthy), (''unhealthyCount'', LInt unhealthy),
                 (''socketPath'', LString (p_socketPath p))] w
      in fold (\<lambda>i w. let device = device_at (p_devices p) i in
              plugin_emit p (levelForHealth api (Health device)) ''Device exposed''
                (deviceLogAttrs device) w) deviceIDs w)"

definition plugin_register ::
    "kubelet_api \<Rightarrow> resourcePlugin \<Rightarrow> world \<Rightarrow> plugin_error option \<times> world" where
  "plugin_register api p w =
     (case sys_tick w of
        (Some err, w) \<Rightarrow> (Some (ConnectFailed (p_kubeletSocket p) err), w)
      | (None, w) \<Rightarrow>
          (case kubelet_register (register_request_of api p) w of
             (Some err, w) \<Rightarrow>
               (Some (RegisterFailed (p_resourceName p) err), close_connection p w)
           | (None, w) \<Rightarrow> (None, close_connection p (log_registered api p w))))"

section \<open>Start\<close>

definition plugin_Start ::
    "kubelet_api \<Rightarrow> resourcePlugin \<Rightarrow> world \<Rightarrow> plugin_error option \<times> resourcePlugin \<times> world" where
  "plugin_Start api p w =
     (case sys_tick w of
        (Some err, w) \<Rightarrow> (Some (MkdirFailed err), p, w)
      | (None, w) \<Rightarrow>
          (case os_remove (p_socketPath p) w of
             (removed, w) \<Rightarrow>
               if removed \<noteq> None \<and> removed \<noteq> Some NotExist
               then (Some (RemoveFailed (the removed)), p, w)
               else
                 (case net_listen (p_socketPath p) w of
                    (Some err, w) \<Rightarrow> (Some (ListenFailed (p_socketPath p) err), p, w)
                  | (None, w) \<Rightarrow>
                      (let p = p\<lparr>p_listener := True, p_server := True\<rparr> in
                       case plugin_register api p w of
                         (Some err, w) \<Rightarrow> (case plugin_Stop p w of (_, p, w) \<Rightarrow> (Some err, p, w))
                       | (None, w) \<Rightarrow> (None, p, w)))))"

section \<open>UpdateDevices\<close>

definition updateCh_cap :: nat where "updateCh_cap = 1"

definition push_update ::
    "pluginDevice list \<Rightarrow> pluginDevice list list \<Rightarrow> pluginDevice list list option" where
  "push_update current ch =
     (case chan_send updateCh_cap ch current of
        Some ch \<Rightarrow> Some ch
      | None \<Rightarrow>
          (let ch = (case chan_recv ch of Some (_, ch) \<Rightarrow> ch | None \<Rightarrow> ch)
           in chan_send updateCh_cap ch current))"

definition log_with :: "resourcePlugin \<Rightarrow> int \<Rightarrow> int \<Rightarrow> slog_level \<Rightarrow> string \<Rightarrow> log_attrs \<Rightarrow> world \<Rightarrow> world"
  where
  "log_with p healthy unhealthy level msg attrs =
     plugin_emit p level msg
       ([(''deviceCount'', LInt (healthy + unhealthy)), (''healthyCount'', LInt healthy),
         (''unhealthyCount'', LInt unhealthy)] @ attrs)"

definition logInventoryDelta ::
    "kubelet_api \<Rightarrow> resourcePlugin \<Rightarrow> deviceInventoryDelta \<Rightarrow> int \<Rightarrow> int \<Rightarrow> world \<Rightarrow> world" where
  "logInventoryDelta api p delta healthy unhealthy w =
     (if isEmpty delta then w
      else
        (let log = log_with p healthy unhealthy;
             w = fold (\<lambda>device. log (levelForHealth api (Health device))
                    ''Device appeared in inventory'' (deviceLogAttrs device)) (Added delta) w;
             w = fold (\<lambda>i. log LevelWarn
                    ''Device disappeared from inventory; it is no longer allocatable''
                    [(''device'', LString i)]) (Removed delta) w
         in fold (\<lambda>c. log (levelForHealth api (Health (change_Device c))) ''Device state changed''
                    (deviceLogAttrs (change_Device c)
                     @ [(''previousHealth'', LString (PreviousHealth c)),
                        (''previousStatus'', LString (PreviousStatus c))])) (Changed delta) w))"

definition UpdateDevices ::
    "kubelet_api \<Rightarrow> npuDevice go_map \<Rightarrow> resourcePlugin \<Rightarrow> world \<Rightarrow> (resourcePlugin \<times> world) option"
  where
  "UpdateDevices api devices p w =
     (let delta = diffDeviceInventories (p_devices p) devices;
          p = p\<lparr>p_devices := cloneDeviceMap devices\<rparr>;
          current = clonePluginDevices api (p_devices p);
          (healthy, unhealthy) = healthCounts api (p_devices p);
          w = logInventoryDelta api p delta healthy unhealthy w
      in map_option (\<lambda>ch. (p\<lparr>p_updateCh := ch\<rparr>, w)) (push_update current (p_updateCh p)))"

end
