(* ===== verification/Cdi.thy ===== *)
theory Cdi imports Plugin begin

text \<open>
  \<open>cmd/rbln-device-plugin/cdi.go\<close>.  The CDI library is not part of the repository: the two
  functions the program calls are the parameter \<open>cdi_library\<close>.  The listing of the CDI
  directory is a parameter too; removals go through the world.
\<close>

section \<open>Operations\<close>

record cdi_library =
  qualifiedName :: "string \<Rightarrow> string \<Rightarrow> string \<Rightarrow> string"
  updateAnnotations ::
    "string go_map \<Rightarrow> string \<Rightarrow> string \<Rightarrow> string list \<Rightarrow> (string, string go_map) go_result"

type_synonym dir_listing = "string \<Rightarrow> (fs_error, (string \<times> bool) list) go_result"

definition NewCDIHandler :: "string \<Rightarrow> cdiHandler" where
  "NewCDIHandler root = \<lparr>cdi_root = root\<rparr>"

definition cdi_class :: "cdiHandler \<Rightarrow> string" where "cdi_class cdi = CDIClass"
definition cdi_vendor :: "cdiHandler \<Rightarrow> string" where "cdi_vendor cdi = CDIVendor"

fun cleanup_loop ::
    "string \<Rightarrow> string \<Rightarrow> (string \<times> bool) list \<Rightarrow> world \<Rightarrow> fs_error option \<times> world" where
  "cleanup_loop root pre [] w = (None, w)"
| "cleanup_loop root pre ((name, dir) # entries) w =
     (if dir \<or> \<not> has_prefix name pre then cleanup_loop root pre entries w
      else (case os_remove (path_join [root, name]) w of
          (Some err, w) \<Rightarrow>
            if err \<noteq> NotExist then (Some err, w) else cleanup_loop root pre entries w
        | (None, w) \<Rightarrow> cleanup_loop root pre entries w))"

definition cleanupTransientSpecs ::
    "dir_listing \<Rightarrow> cdiHandler \<Rightarrow> world \<Rightarrow> fs_error option \<times> world" where
  "cleanupTransientSpecs read_dir cdi w =
     (case read_dir (cdi_root cdi) of
        Inl err \<Rightarrow> if err = NotExist then (None, w) else (Some err, w)
      | Inr entries \<Rightarrow>
          cleanup_loop (cdi_root cdi) (cdi_vendor cdi @ ''-'' @ cdi_class cdi @ ''_'') entries w)"

definition cdi_Initialize :: "dir_listing \<Rightarrow> cdiHandler \<Rightarrow> world \<Rightarrow> fs_error option \<times> world" where
  "cdi_Initialize = cleanupTransientSpecs"

text \<open>A nil map of annotations is the empty map.\<close>

definition RuntimeAnnotations :: "cdi_library \<Rightarrow> cdiHandler \<Rightarrow> (string, string go_map) go_result" where
  "RuntimeAnnotations lib cdi =
     updateAnnotations lib [] (cdi_vendor cdi) (cdi_class cdi)
       [qualifiedName lib (cdi_vendor cdi) (cdi_class cdi) BaseCDIDevice]"

definition RDSAnnotations ::
    "cdi_library \<Rightarrow> cdiHandler \<Rightarrow> string go_map \<Rightarrow> (string, string go_map) go_result" where
  "RDSAnnotations lib cdi annotations =
     updateAnnotations lib annotations (cdi_vendor cdi) RDSCDIClass
       [qualifiedName lib (cdi_vendor cdi) RDSCDIClass RDSCDIAllDevice]"

section \<open>The cleanup\<close>

text \<open>Removing a list of paths, absent ones included, up to the first error.\<close>

fun remove_all :: "string list \<Rightarrow> world \<Rightarrow> fs_error option \<times> world" where
  "remove_all [] w = (None, w)"
| "remove_all (p # ps) w =
     (case os_remove p w of
        (r, w) \<Rightarrow> if r = None \<or> r = Some NotExist then remove_all ps w else (r, w))"

definition spec_paths :: "string \<Rightarrow> string \<Rightarrow> (string \<times> bool) list \<Rightarrow> string list" where
  "spec_paths root pre entries =
     map (\<lambda>e. path_join [root, fst e]) (filter (\<lambda>e. \<not> snd e \<and> has_prefix (fst e) pre) entries)"

lemma cleanup_loop_remove_all:
  "cleanup_loop root pre entries w = remove_all (spec_paths root pre entries) w"
proof (induction entries arbitrary: w)
  case (Cons e entries)
  obtain name dir where e: "e = (name, dir)" by fastforce
  show ?case
    using Cons.IH
    by (cases "os_remove (path_join [root, name]) w"; cases "fst (os_remove (path_join [root, name]) w)")
      (auto simp: e spec_paths_def)
qed (simp add: spec_paths_def)

lemma remove_all_fields:
  assumes "remove_all ps w = (r, w')"
  shows "w_listening w' = w_listening w \<and> w_registered w' = w_registered w \<and> w_logs w' = w_logs w
    \<and> w_fault w' = w_fault w \<and> r \<noteq> Some NotExist \<and> set (w_paths w') \<subseteq> set (w_paths w)
    \<and> set (w_paths w) \<subseteq> set (w_paths w') \<union> set ps \<and> (r = None \<longrightarrow> set (w_paths w') \<inter> set ps = {})"
  using assms
proof (induction ps arbitrary: w)
  case (Cons p ps)
  obtain e w1 where rm: "os_remove p w = (e, w1)" by fastforce
  note f = os_remove_fields [of p w, unfolded rm snd_conv] os_remove_paths [of p w, unfolded rm fst_conv snd_conv]
    os_remove_gone [of p w, unfolded rm fst_conv snd_conv]
  show ?case
  proof (cases "e = None \<or> e = Some NotExist")
    case True
    with Cons.prems rm have "remove_all ps w1 = (r, w')" by simp
    from Cons.IH [OF this] f True show ?thesis by (auto split: option.splits)
  next
    case False
    with Cons.prems rm f show ?thesis by (auto split: option.splits)
  qed
qed simp

lemma cdi_Initialize_fields:
  assumes "cdi_Initialize read_dir cdi w = (r, w')"
  shows "w_listening w' = w_listening w" "w_registered w' = w_registered w" "w_logs w' = w_logs w"
    "w_fault w' = w_fault w" "set (w_paths w') \<subseteq> set (w_paths w)"
  using assms remove_all_fields
  by (auto simp: cdi_Initialize_def cleanupTransientSpecs_def cleanup_loop_remove_all
      split: sum.splits if_splits)

text \<open>
  C39: the cleanup of the CDI directory removes the plugin's own specs and nothing else.  When it
  reports no error, no listed plain file whose name starts with \<open>rebellions.ai-npu_\<close> is left;
  whatever it reports, every other path, every listener, registration and log record is untouched.
  A directory that does not exist is no error, and a file that disappears meanwhile is none either.
\<close>

theorem cleanup_removes_own_specs:
  assumes "cdi_Initialize read_dir cdi w = (r, w')" "read_dir (cdi_root cdi) = Inr entries"
  shows "(r = None \<longrightarrow> set (spec_paths (cdi_root cdi) ''rebellions.ai-npu_'' entries) \<inter> set (w_paths w') = {})
    \<and> set (w_paths w') - set (spec_paths (cdi_root cdi) ''rebellions.ai-npu_'' entries)
      = set (w_paths w) - set (spec_paths (cdi_root cdi) ''rebellions.ai-npu_'' entries)
    \<and> w_listening w' = w_listening w \<and> w_registered w' = w_registered w \<and> w_logs w' = w_logs w
    \<and> r \<noteq> Some NotExist
    \<and> cdi_Initialize (\<lambda>_. Inl NotExist) cdi w = (None, w)"
proof -
  have pre: "cdi_vendor cdi @ ''-'' @ cdi_class cdi @ ''_'' = ''rebellions.ai-npu_''"
    by (simp add: cdi_vendor_def cdi_class_def CDIVendor_def CDIClass_def)
  have "remove_all (spec_paths (cdi_root cdi) ''rebellions.ai-npu_'' entries) w = (r, w')"
    using assms unfolding cdi_Initialize_def cleanupTransientSpecs_def pre cleanup_loop_remove_all by simp
  from remove_all_fields [OF this] show ?thesis
    by (auto simp: cdi_Initialize_def cleanupTransientSpecs_def)
qed

definition cdi_world :: world where
  "cdi_world = empty_world\<lparr>w_paths := [''/var/run/cdi/rebellions.ai-npu_1.yaml'', ''/var/run/cdi/other.yaml'']\<rparr>"

definition cdi_listing :: dir_listing where
  "cdi_listing _ = Inr [(''rebellions.ai-npu_0.yaml'', False), (''rebellions.ai-npu_1.yaml'', False),
     (''other.yaml'', False), (''rebellions.ai-npu_dir'', True)]"

theorem cleanup_removes_own_specs_witness:
  "''/var/run/cdi/rebellions.ai-npu_1.yaml''
     \<notin> set (w_paths (snd (cdi_Initialize cdi_listing (NewCDIHandler ''/var/run/cdi'') cdi_world)))
   \<and> ''/var/run/cdi/other.yaml''
     \<in> set (w_paths (snd (cdi_Initialize cdi_listing (NewCDIHandler ''/var/run/cdi'') cdi_world)))"
proof -
  let ?cdi = "NewCDIHandler ''/var/run/cdi''"
  let ?run = "cdi_Initialize cdi_listing ?cdi cdi_world"
  let ?entries = "[(''rebellions.ai-npu_0.yaml'', False), (''rebellions.ai-npu_1.yaml'', False),
     (''other.yaml'', False), (''rebellions.ai-npu_dir'', True)]"
  have e: "cdi_listing (cdi_root ?cdi) = Inr ?entries" by (simp add: cdi_listing_def)
  have paths: "spec_paths (cdi_root ?cdi) ''rebellions.ai-npu_'' ?entries
      = [''/var/run/cdi/rebellions.ai-npu_0.yaml'', ''/var/run/cdi/rebellions.ai-npu_1.yaml'']"
    by code_simp
  have none: "fst ?run = None" by code_simp
  have "?run = (fst ?run, snd ?run)" by simp
  from cleanup_removes_own_specs [OF this e, unfolded paths] none
  have c: "set [''/var/run/cdi/rebellions.ai-npu_0.yaml'', ''/var/run/cdi/rebellions.ai-npu_1.yaml'']
      \<inter> set (w_paths (snd ?run)) = {}"
    "set (w_paths (snd ?run)) - set [''/var/run/cdi/rebellions.ai-npu_0.yaml'', ''/var/run/cdi/rebellions.ai-npu_1.yaml'']
      = set (w_paths cdi_world) - set [''/var/run/cdi/rebellions.ai-npu_0.yaml'', ''/var/run/cdi/rebellions.ai-npu_1.yaml'']"
    by blast+
  have "''/var/run/cdi/other.yaml'' \<in> set (w_paths cdi_world)
      - set [''/var/run/cdi/rebellions.ai-npu_0.yaml'', ''/var/run/cdi/rebellions.ai-npu_1.yaml'']"
    by (simp add: cdi_world_def)
  with c show ?thesis by (metis Diff_iff Int_iff empty_iff list.set_intros)
qed

end
