(* ===== verification/Allocation.thy ===== *)
theory Allocation imports Cdi begin

text \<open>
  The allocation handlers of \<open>cmd/rbln-device-plugin/plugin.go\<close>: \<open>Allocate\<close>,
  \<open>allocateContainer\<close>, the device specs with their polling loop, and the RDS check.  The node
  is a parameter: what \<open>os.Stat\<close> says of a path at a time, the names in \<open>/dev\<close>, how much
  longer than asked a sleep takes, the RSD group library and the CDI library.  Time is in milliseconds
  and passes only while the loop sleeps.  The result of the RSD group call may depend on all
  calls before it.  An \<open>alloc_event\<close> is a log record or an operation on the innermost open
  trace span; \<open>SpanStart\<close> opens a child of it.
\<close>

section \<open>The node and the state\<close>

record node_env =
  n_stat :: "nat \<Rightarrow> string \<Rightarrow> (fs_error, bool) go_result"
  n_dev :: "nat \<Rightarrow> string list"
  n_jitter :: "nat \<Rightarrow> nat"
  n_rsdGroup :: "string list list \<Rightarrow> string list \<Rightarrow> (string, string) go_result"
  n_cdi :: cdi_library

datatype alloc_error =
    NoDeviceIDs
  | NoCDIHandler
  | NotManaged string string
  | MissingPCIBusID string
  | RsdGroupFailed "string list" string
  | RsdDeviceNode string fs_error
  | RblnDeviceNode string fs_error
  | RuntimeAnnotationsFailed string

text \<open>The description of an error status: the text of an error or a constant.\<close>

datatype span_status = ErrorText alloc_error | StatusText string

datatype alloc_event =
    SpanStart string log_attrs
  | SpanAttributes log_attrs
  | SpanError alloc_error
  | SpanStatus span_status
  | SpanEnd
  | StartingAllocation "string list" "string list"
  | RecreatedGroup "string list" string
  | CompletedAllocation "string list" "string list" string
  | AllocationFailed alloc_error "string list"
  | FoundRDS "string list"
  | AddedRDSAnnotations

record alloc_state =
  as_now :: nat
  as_rsdCalls :: "string list list"
  as_events :: "alloc_event list"

definition alloc_log :: "alloc_event \<Rightarrow> alloc_state \<Rightarrow> alloc_state" where
  "alloc_log e s = s\<lparr>as_events := as_events s @ [e]\<rparr>"

definition attrResourceName :: string where "attrResourceName = ''rbln.resource_name''"
definition attrDeviceIDs :: string where "attrDeviceIDs = ''rbln.device.ids''"
definition attrDeviceCount :: string where "attrDeviceCount = ''rbln.device.count''"
definition attrBusIDs :: string where "attrBusIDs = ''rbln.device.bus_ids''"
definition attrRsdHostPath :: string where "attrRsdHostPath = ''rbln.rsd.host_path''"

section \<open>Waiting for a device node\<close>

definition deviceNodePollTimeout :: nat where "deviceNodePollTimeout = 5000"
definition deviceNodePollInterval :: nat where "deviceNodePollInterval = 100"

function wait_poll :: "node_env \<Rightarrow> string \<Rightarrow> nat \<Rightarrow> nat \<Rightarrow> (fs_error, bool) go_result \<times> nat" where
  "wait_poll node hostPath deadline now =
     (case n_stat node now hostPath of
        Inr fi \<Rightarrow> (Inr fi, now)
      | Inl err \<Rightarrow>
          if err \<noteq> NotExist then (Inl err, now)
          else if now > deadline then (Inl err, now)
          else wait_poll node hostPath deadline (now + deviceNodePollInterval + n_jitter node now))"
  by pat_completeness auto
termination
  by (relation "measure (\<lambda>(node, hostPath, deadline, now). Suc deadline - now)")
    (auto simp: deviceNodePollInterval_def)

declare wait_poll.simps [simp del]

definition waitForDeviceNode ::
    "node_env \<Rightarrow> string \<Rightarrow> nat \<Rightarrow> (fs_error, bool) go_result \<times> nat" where
  "waitForDeviceNode node hostPath now = wait_poll node hostPath (now + deviceNodePollTimeout) now"

section \<open>Device specs\<close>

record device_spec =
  ContainerPath :: string
  HostPath :: string
  Permissions :: string

definition newDeviceSpec ::
    "node_env \<Rightarrow> string \<Rightarrow> string \<Rightarrow> nat \<Rightarrow> (fs_error, device_spec) go_result \<times> nat" where
  "newDeviceSpec node containerPath hostPath now =
     (case waitForDeviceNode node hostPath now of
        (Inl err, now) \<Rightarrow> (Inl err, now)
      | (Inr _, now) \<Rightarrow>
          (Inr \<lparr>ContainerPath = containerPath, HostPath = hostPath, Permissions = ''rw''\<rparr>, now))"

fun rbln_specs ::
    "node_env \<Rightarrow> npuDevice list \<Rightarrow> device_spec list \<Rightarrow> nat \<Rightarrow>
     (alloc_error, device_spec list) go_result \<times> nat" where
  "rbln_specs node [] specs now = (Inr specs, now)"
| "rbln_specs node (device # devices) specs now =
     (let devicePath = ''/dev/'' @ Name (Info device) in
      case newDeviceSpec node devicePath devicePath now of
        (Inl err, now) \<Rightarrow> (Inl (RblnDeviceNode devicePath err), now)
      | (Inr rblnSpec, now) \<Rightarrow> rbln_specs node devices (specs @ [rblnSpec]) now)"

definition deviceSpecsForDevices ::
    "node_env \<Rightarrow> npuDevice list \<Rightarrow> string \<Rightarrow> nat \<Rightarrow>
     (alloc_error, device_spec list) go_result \<times> nat" where
  "deviceSpecsForDevices node devices hostRsdPath now =
     (if hostRsdPath \<noteq> [] then
        (case newDeviceSpec node ''/dev/rsd0'' hostRsdPath now of
           (Inl err, now) \<Rightarrow> (Inl (RsdDeviceNode hostRsdPath err), now)
         | (Inr rsdSpec, now) \<Rightarrow> rbln_specs node devices [rsdSpec] now)
      else rbln_specs node devices [] now)"

section \<open>One container\<close>

fun select_loop ::
    "string \<Rightarrow> npuDevice go_map \<Rightarrow> string list \<Rightarrow> npuDevice list \<Rightarrow>
     (alloc_error, npuDevice list) go_result" where
  "select_loop resourceName devices [] selected = Inr selected"
| "select_loop resourceName devices (i # ids) selected =
     (case map_of devices i of
        None \<Rightarrow> Inl (NotManaged resourceName i)
      | Some device \<Rightarrow> select_loop resourceName devices ids (selected @ [device]))"

definition selectedDevices ::
    "resourcePlugin \<Rightarrow> string list \<Rightarrow> (alloc_error, npuDevice list) go_result" where
  "selectedDevices p deviceIDs = select_loop (p_resourceName p) (p_devices p) deviceIDs []"

fun bus_loop :: "npuDevice list \<Rightarrow> string list \<Rightarrow> (alloc_error, string list) go_result" where
  "bus_loop [] busIDs = Inr busIDs"
| "bus_loop (device # devices) busIDs =
     (if PCIBusID (Info device) = [] then Inl (MissingPCIBusID (Name (Info device)))
      else bus_loop devices (busIDs @ [PCIBusID (Info device)]))"

definition rsdGroupFn ::
    "node_env \<Rightarrow> string list \<Rightarrow> alloc_state \<Rightarrow> (string, string) go_result \<times> alloc_state" where
  "rsdGroupFn node busIDs s =
     (n_rsdGroup node (as_rsdCalls s) busIDs, s\<lparr>as_rsdCalls := as_rsdCalls s @ [busIDs]\<rparr>)"

record container_response =
  Annotations :: "string go_map"
  DeviceSpecs :: "device_spec list"

text \<open>The function between the start and the end of its span.\<close>

definition container_steps ::
    "node_env \<Rightarrow> resourcePlugin \<Rightarrow> string list \<Rightarrow> alloc_state \<Rightarrow>
     (alloc_error, container_response) go_result \<times> alloc_state" where
  "container_steps node p deviceIDs s =
     (if deviceIDs = [] then (Inl NoDeviceIDs, s)
      else (case p_cdi p of
        None \<Rightarrow> (Inl NoCDIHandler, s)
      | Some cdi \<Rightarrow>
          (case selectedDevices p deviceIDs of
             Inl err \<Rightarrow> (Inl err, s)
           | Inr selected \<Rightarrow>
               (case bus_loop selected [] of
                  Inl err \<Rightarrow> (Inl err, s)
                | Inr busIDs \<Rightarrow>
                    (let busIDs = sort busIDs;
                         s = alloc_log (SpanAttributes [(attrBusIDs, LStrings busIDs)]) s;
                         s = alloc_log (StartingAllocation deviceIDs busIDs) s in
                     case rsdGroupFn node busIDs s of
                       (Inl err, s) \<Rightarrow> (Inl (RsdGroupFailed busIDs err), s)
                     | (Inr hostRsdPath, s) \<Rightarrow>
                         (let s = alloc_log (SpanAttributes [(attrRsdHostPath, LString hostRsdPath)]) s;
                              s = alloc_log (RecreatedGroup busIDs hostRsdPath) s in
                          case deviceSpecsForDevices node selected hostRsdPath (as_now s) of
                            (Inl err, now) \<Rightarrow> (Inl err, s\<lparr>as_now := now\<rparr>)
                          | (Inr deviceSpecs, now) \<Rightarrow>
                              (case RuntimeAnnotations (n_cdi node) cdi of
                                 Inl err \<Rightarrow> (Inl (RuntimeAnnotationsFailed err), s\<lparr>as_now := now\<rparr>)
                               | Inr annotations \<Rightarrow>
                                   (Inr \<lparr>Annotations = annotations, DeviceSpecs = deviceSpecs\<rparr>,
                                    alloc_log (CompletedAllocation deviceIDs busIDs hostRsdPath)
                                      (s\<lparr>as_now := now\<rparr>)))))))))"

definition recordErr :: "alloc_error \<Rightarrow> alloc_state \<Rightarrow> alloc_state" where
  "recordErr err s = alloc_log (SpanStatus (ErrorText err)) (alloc_log (SpanError err) s)"

definition container_span :: "resourcePlugin \<Rightarrow> string list \<Rightarrow> alloc_event" where
  "container_span p deviceIDs = SpanStart ''allocateContainer''
     [(attrResourceName, LString (p_resourceName p)), (attrDeviceIDs, LStrings deviceIDs),
      (attrDeviceCount, LInt (int (length deviceIDs)))]"

definition allocateContainer ::
    "node_env \<Rightarrow> resourcePlugin \<Rightarrow> string list \<Rightarrow> alloc_state \<Rightarrow>
     (alloc_error, container_response) go_result \<times> alloc_state" where
  "allocateContainer node p deviceIDs s =
     (case container_steps node p deviceIDs (alloc_log (container_span p deviceIDs) s) of
        (Inl err, s) \<Rightarrow> (Inl err, alloc_log SpanEnd (recordErr err s))
      | (Inr response, s) \<Rightarrow> (Inr response, alloc_log SpanEnd s))"

section \<open>The request\<close>

text \<open>\<open>filepath.Glob\<close> on \<open>/dev/rblnfs*\<close> gives the matching names in order.\<close>

definition rds_glob :: "node_env \<Rightarrow> nat \<Rightarrow> string list" where
  "rds_glob node now =
     map ((@) ''/dev/'') (sort (filter (\<lambda>name. has_prefix name ''rblnfs'') (n_dev node now)))"

definition rdsDevicePresent :: "node_env \<Rightarrow> alloc_state \<Rightarrow> bool \<times> alloc_state" where
  "rdsDevicePresent node s =
     (let paths = rds_glob node (as_now s);
          found = filter (\<lambda>path. n_stat node (as_now s) path = Inr False) paths
      in if length found = 0 then (False, s) else (True, alloc_log (FoundRDS found) s))"

datatype allocate_error = InvalidArgument alloc_error | InternalRDS string

fun allocate_loop ::
    "node_env \<Rightarrow> resourcePlugin \<Rightarrow> string list list \<Rightarrow> container_response list \<Rightarrow> alloc_state \<Rightarrow>
     (allocate_error, container_response list) go_result \<times> alloc_state" where
  "allocate_loop node p [] responses s = (Inr responses, s)"
| "allocate_loop node p (deviceIDs # requests) responses s =
     (case allocateContainer node p deviceIDs s of
        (Inl err, s) \<Rightarrow>
          (Inl (InvalidArgument err),
           alloc_log (AllocationFailed err deviceIDs)
             (alloc_log (SpanStatus (StatusText ''container allocation failed''))
               (alloc_log (SpanError err) s)))
      | (Inr response, s) \<Rightarrow>
          (case rdsDevicePresent node s of
             (False, s) \<Rightarrow> allocate_loop node p requests (responses @ [response]) s
           | (True, s) \<Rightarrow>
               (case RDSAnnotations (n_cdi node) (the (p_cdi p)) (Annotations response) of
                  Inl err \<Rightarrow> (Inl (InternalRDS err), s)
                | Inr annotations \<Rightarrow>
                    allocate_loop node p requests
                      (responses @ [response\<lparr>Annotations := annotations\<rparr>])
                      (alloc_log AddedRDSAnnotations s))))"

definition Allocate ::
    "node_env \<Rightarrow> resourcePlugin \<Rightarrow> string list list \<Rightarrow> alloc_state \<Rightarrow>
     (allocate_error, container_response list) go_result \<times> alloc_state" where
  "Allocate node p requests s =
     (case allocate_loop node p requests []
         (alloc_log (SpanStart ''Allocate'' [(attrResourceName, LString (p_resourceName p))]) s) of
        (r, s) \<Rightarrow> (r, alloc_log SpanEnd s))"

end
