(* ===== verification/AllocationFacts.thy ===== *)
theory AllocationFacts imports Allocation begin

text \<open>
  Properties of the allocation handlers: the polling loop against its sequence of polls, the
  contents of a container response, the one RSD group call per container, and the request as a
  whole.
\<close>

section \<open>The polling loop\<close>

primrec poll_time :: "node_env \<Rightarrow> nat \<Rightarrow> nat \<Rightarrow> nat" where
  "poll_time node start 0 = start"
| "poll_time node start (Suc k) =
     poll_time node start k + deviceNodePollInterval + n_jitter node (poll_time node start k)"

lemma poll_time_ge: "start + deviceNodePollInterval * k \<le> poll_time node start k"
  by (induction k) auto

lemma poll_time_mono: "j \<le> k \<Longrightarrow> poll_time node start j \<le> poll_time node start k"
  by (induction k) (auto simp: le_Suc_eq)

text \<open>The loop polls on while the node is missing and the deadline has not passed.\<close>

definition keeps_polling :: "node_env \<Rightarrow> string \<Rightarrow> nat \<Rightarrow> nat \<Rightarrow> nat \<Rightarrow> bool" where
  "keeps_polling node path deadline start k \<longleftrightarrow>
     (\<forall>j<k. n_stat node (poll_time node start j) path = Inl NotExist
        \<and> poll_time node start j \<le> deadline)"

definition poll_stops :: "node_env \<Rightarrow> string \<Rightarrow> nat \<Rightarrow> nat \<Rightarrow> bool" where
  "poll_stops node path deadline now \<longleftrightarrow>
     n_stat node now path \<noteq> Inl NotExist \<or> deadline < now"

lemma wait_poll_stop:
  "poll_stops node path deadline now \<Longrightarrow> wait_poll node path deadline now = (n_stat node now path, now)"
  by (subst wait_poll.simps) (auto simp: poll_stops_def split: sum.split)

lemma wait_poll_go:
  "\<not> poll_stops node path deadline now \<Longrightarrow> wait_poll node path deadline now
     = wait_poll node path deadline (now + deviceNodePollInterval + n_jitter node now)"
  by (subst wait_poll.simps) (auto simp: poll_stops_def)

lemma wait_poll_at:
  "keeps_polling node path deadline start k \<Longrightarrow>
     wait_poll node path deadline start = wait_poll node path deadline (poll_time node start k)"
proof (induction k)
  case (Suc k)
  then have "keeps_polling node path deadline start k"
    "\<not> poll_stops node path deadline (poll_time node start k)"
    by (auto simp: keeps_polling_def poll_stops_def)
  with Suc.IH show ?case by (simp add: wait_poll_go)
qed simp

lemma poll_stops_eventually:
  "\<exists>k\<le>Suc (deadline div deviceNodePollInterval). poll_stops node path deadline (poll_time node start k)
     \<and> keeps_polling node path deadline start k"
proof -
  let ?k = "Suc (deadline div deviceNodePollInterval)"
  have i: "0 < deviceNodePollInterval" by (simp add: deviceNodePollInterval_def)
  have "deadline < deviceNodePollInterval * ?k"
    using i by (metis add.commute dividend_less_div_times mult.commute mult_Suc_right)
  then have "poll_stops node path deadline (poll_time node start ?k)"
    using poll_time_ge [of start ?k node] by (simp add: poll_stops_def)
  then obtain k where k: "k \<le> ?k" "poll_stops node path deadline (poll_time node start k)"
    "\<forall>j<k. \<not> poll_stops node path deadline (poll_time node start j)"
    using ex_least_nat_le [of "\<lambda>k. poll_stops node path deadline (poll_time node start k)" ?k] by blast
  then show ?thesis by (auto simp: keeps_polling_def poll_stops_def intro!: exI [of _ k])
qed

lemma waitForDeviceNode_poll:
  obtains k where
    "waitForDeviceNode node path start = (n_stat node (poll_time node start k) path, poll_time node start k)"
    "keeps_polling node path (start + deviceNodePollTimeout) start k"
    "poll_stops node path (start + deviceNodePollTimeout) (poll_time node start k)"
proof -
  obtain k where k: "poll_stops node path (start + deviceNodePollTimeout) (poll_time node start k)"
    "keeps_polling node path (start + deviceNodePollTimeout) start k"
    using poll_stops_eventually by blast
  have "waitForDeviceNode node path start
      = (n_stat node (poll_time node start k) path, poll_time node start k)"
    unfolding waitForDeviceNode_def wait_poll_at [OF k(2)] by (rule wait_poll_stop [OF k(1)])
  with k that show ?thesis by blast
qed

text \<open>
  C35: waiting for a device node ends and is exact.  There is one poll, at most the fifty-second,
  at which the loop stops: every poll before it found the node missing, none of them after the
  deadline of five seconds, and at this one the node is there, its state is unreadable, or the deadline
  has passed.  The result is what this poll saw, at the time of this poll.
\<close>

theorem waitForDeviceNode_exact:
  "\<exists>k\<le>51. waitForDeviceNode node path start
      = (n_stat node (poll_time node start k) path, poll_time node start k)
    \<and> keeps_polling node path (start + deviceNodePollTimeout) start k
    \<and> poll_stops node path (start + deviceNodePollTimeout) (poll_time node start k)"
proof -
  let ?d = "start + deviceNodePollTimeout"
  obtain k where w: "waitForDeviceNode node path start
      = (n_stat node (poll_time node start k) path, poll_time node start k)"
    and k: "keeps_polling node path ?d start k" "poll_stops node path ?d (poll_time node start k)"
    by (rule waitForDeviceNode_poll)
  have "k \<le> 51"
  proof (rule ccontr)
    assume "\<not> k \<le> 51"
    then have "poll_time node start 51 \<le> ?d" using k(1) by (simp add: keeps_polling_def)
    then show False
      using poll_time_ge [of start 51 node] by (simp add: deviceNodePollTimeout_def deviceNodePollInterval_def)
  qed
  with w k show ?thesis by blast
qed

text \<open>
  The wait is bounded.  It never ends before it began, and when no sleep takes more than
  \<open>j\<close> milliseconds longer than asked, at most 5100 + \<open>j\<close> milliseconds have passed at
  its end.
\<close>

theorem waitForDeviceNode_bounded:
  assumes "\<forall>t. n_jitter node t \<le> j"
  shows "start \<le> snd (waitForDeviceNode node path start)
    \<and> snd (waitForDeviceNode node path start) \<le> start + 5100 + j"
proof -
  let ?d = "start + deviceNodePollTimeout"
  obtain k where w: "waitForDeviceNode node path start
      = (n_stat node (poll_time node start k) path, poll_time node start k)"
    and k: "keeps_polling node path ?d start k" by (rule waitForDeviceNode_poll)
  have "poll_time node start k \<le> start + 5100 + j"
  proof (cases k)
    case (Suc i)
    have "poll_time node start i \<le> ?d" using k Suc by (simp add: keeps_polling_def)
    moreover have "n_jitter node (poll_time node start i) \<le> j" using assms by blast
    ultimately show ?thesis
      by (simp add: Suc deviceNodePollTimeout_def deviceNodePollInterval_def)
  qed simp
  then show ?thesis using w poll_time_mono [of 0 k node start] by simp
qed

text \<open>A node on which the device files appear after a while.\<close>

definition slow_node :: node_env where
  "slow_node = \<lparr>n_stat = (\<lambda>t path. if path \<in> {''/dev/rsd3'', ''/dev/rbln0'', ''/dev/rbln1'', ''/dev/rblnfs0''}
       then (if 250 \<le> t then Inr False else Inl NotExist) else Inl NotExist),
     n_dev = (\<lambda>_. [''rblnfs0'', ''rbln0'', ''rbln1'']), n_jitter = (\<lambda>t. t mod 7),
     n_rsdGroup = (\<lambda>calls ids. if length ids > 2 then Inl ''no group'' else Inr ''/dev/rsd3''),
     n_cdi = \<lparr>qualifiedName = (\<lambda>vendor cls name. vendor @ ''/'' @ cls @ ''='' @ name),
       updateAnnotations = (\<lambda>annotations plugin dev names.
          Inr (AList.update (''cdi.k8s.io/'' @ plugin @ ''_'' @ dev) (go_join '','' names) annotations))\<rparr>\<rparr>"

theorem waitForDeviceNode_bounded_witness:
  "snd (waitForDeviceNode slow_node ''/dev/rbln9'' 7) \<le> 7 + 5100 + 7
   \<and> fst (waitForDeviceNode slow_node ''/dev/rbln9'' 7) = Inl NotExist"
proof
  have "t mod 7 \<le> 7" for t :: nat by (metis mod_le_divisor zero_less_numeral)
  then have "\<forall>t. n_jitter slow_node t \<le> 7" by (simp add: slow_node_def)
  from waitForDeviceNode_bounded [OF this, of 7 "''/dev/rbln9''"]
  show "snd (waitForDeviceNode slow_node ''/dev/rbln9'' 7) \<le> 7 + 5100 + 7" by blast
  obtain k where "waitForDeviceNode slow_node ''/dev/rbln9'' 7
      = (n_stat slow_node (poll_time slow_node 7 k) ''/dev/rbln9'', poll_time slow_node 7 k)"
    by (rule waitForDeviceNode_poll)
  then show "fst (waitForDeviceNode slow_node ''/dev/rbln9'' 7) = Inl NotExist"
    by (simp add: slow_node_def)
qed

section \<open>Selection and bus identifiers\<close>

lemma select_loop_find:
  "select_loop res devices ids acc =
     (case find (\<lambda>i. map_of devices i = None) ids of
        Some i \<Rightarrow> Inl (NotManaged res i)
      | None \<Rightarrow> Inr (acc @ map (device_at devices) ids))"
  by (induction ids arbitrary: acc) (auto simp: device_at_def split: option.split)

lemma bus_loop_find:
  "bus_loop ds acc =
     (case find (\<lambda>d. PCIBusID (Info d) = []) ds of
        Some d \<Rightarrow> Inl (MissingPCIBusID (Name (Info d)))
      | None \<Rightarrow> Inr (acc @ map (\<lambda>d. PCIBusID (Info d)) ds))"
  by (induction ds arbitrary: acc) (auto split: option.split)

section \<open>Device specs\<close>

definition rw_spec :: "string \<Rightarrow> string \<Rightarrow> device_spec" where
  "rw_spec containerPath hostPath =
     \<lparr>ContainerPath = containerPath, HostPath = hostPath, Permissions = ''rw''\<rparr>"

lemma newDeviceSpec_Inr:
  "newDeviceSpec node c h now = (Inr spec, now') \<Longrightarrow>
     spec = rw_spec c h \<and> now \<le> now' \<and> n_stat node now' h \<in> range Inr"
proof -
  assume a: "newDeviceSpec node c h now = (Inr spec, now')"
  obtain k where "waitForDeviceNode node h now
      = (n_stat node (poll_time node now k) h, poll_time node now k)" by (rule waitForDeviceNode_poll)
  with a poll_time_mono [of 0 k node now] show ?thesis
    by (auto simp: newDeviceSpec_def rw_spec_def split: sum.splits)
qed

lemma rbln_specs_Inr:
  "rbln_specs node ds acc now = (Inr specs, now') \<Longrightarrow>
     specs = acc @ map (\<lambda>d. rw_spec (''/dev/'' @ Name (Info d)) (''/dev/'' @ Name (Info d))) ds
     \<and> now \<le> now'
     \<and> (\<forall>d\<in>set ds. \<exists>t\<le>now'. n_stat node t (''/dev/'' @ Name (Info d)) \<in> range Inr)"
proof (induction ds arbitrary: acc now)
  case (Cons d ds)
  let ?path = "''/dev/'' @ Name (Info d)"
  obtain spec t where n: "newDeviceSpec node ?path ?path now = (Inr spec, t)"
    "rbln_specs node ds (acc @ [spec]) t = (Inr specs, now')"
    using Cons.prems by (auto simp: Let_def split: prod.splits sum.splits)
  note one = newDeviceSpec_Inr [OF n(1)]
  note rest = Cons.IH [OF n(2)]
  show ?case
    using one rest by (auto intro: exI [of _ t])
qed simp

lemma deviceSpecs_Inr:
  assumes "deviceSpecsForDevices node ds host now = (Inr specs, now')"
  shows "specs = (if host = [] then [] else [rw_spec ''/dev/rsd0'' host])
       @ map (\<lambda>d. rw_spec (''/dev/'' @ Name (Info d)) (''/dev/'' @ Name (Info d))) ds
     \<and> now \<le> now'
     \<and> (\<forall>spec\<in>set specs. \<exists>t\<le>now'. n_stat node t (HostPath spec) \<in> range Inr)"
proof (cases "host = []")
  case True
  with assms rbln_specs_Inr [of node ds "[]" now specs now'] show ?thesis
    by (auto simp: deviceSpecsForDevices_def rw_spec_def)
next
  case False
  then obtain spec t where n: "newDeviceSpec node ''/dev/rsd0'' host now = (Inr spec, t)"
    "rbln_specs node ds [spec] t = (Inr specs, now')"
    using assms by (auto simp: deviceSpecsForDevices_def split: prod.splits sum.splits)
  note one = newDeviceSpec_Inr [OF n(1)]
  note rest = rbln_specs_Inr [OF n(2)]
  have "\<exists>u\<le>now'. n_stat node u host \<in> range Inr" using one rest by (intro exI [of _ t]) auto
  with False one rest show ?thesis by (auto simp: rw_spec_def)
qed

end
