(* ===== verification/AllocateProps.thy ===== *)
theory AllocateProps imports AllocationFacts Samples begin

text \<open>
  What \<open>allocateContainer\<close> and \<open>Allocate\<close> promise: the checks before the RSD group call,
  the contents of a response, and all-or-nothing over the containers of a request.
\<close>

section \<open>One container\<close>

text \<open>The first check of the code that refuses a container request, if any.\<close>

definition container_refused :: "resourcePlugin \<Rightarrow> string list \<Rightarrow> alloc_error option" where
  "container_refused p deviceIDs =
     (if deviceIDs = [] then Some NoDeviceIDs
      else if p_cdi p = None then Some NoCDIHandler
      else (case find (\<lambda>i. map_of (p_devices p) i = None) deviceIDs of
              Some i \<Rightarrow> Some (NotManaged (p_resourceName p) i)
            | None \<Rightarrow> map_option (\<lambda>d. MissingPCIBusID (Name (Info d)))
                (find (\<lambda>d. PCIBusID (Info d) = []) (map (device_at (p_devices p)) deviceIDs))))"

definition container_bus :: "resourcePlugin \<Rightarrow> string list \<Rightarrow> string list" where
  "container_bus p deviceIDs =
     sort (map (\<lambda>i. PCIBusID (Info (device_at (p_devices p) i))) deviceIDs)"

definition container_specs :: "resourcePlugin \<Rightarrow> string \<Rightarrow> string list \<Rightarrow> device_spec list" where
  "container_specs p host deviceIDs =
     (if host = [] then [] else [rw_spec ''/dev/rsd0'' host])
     @ map (\<lambda>i. let path = ''/dev/'' @ Name (Info (device_at (p_devices p) i)) in rw_spec path path) deviceIDs"

lemma container_steps_refused:
  assumes "container_refused p ids = Some err"
  shows "container_steps node p ids s = (Inl err, s)"
proof (cases "ids = [] \<or> p_cdi p = None")
  case True
  with assms show ?thesis by (auto simp: container_refused_def container_steps_def split: if_splits)
next
  case False
  then obtain cdi where c: "ids \<noteq> []" "p_cdi p = Some cdi" by auto
  show ?thesis
  proof (cases "find (\<lambda>i. map_of (p_devices p) i = None) ids")
    case (Some i)
    with assms c show ?thesis
      by (simp add: container_refused_def container_steps_def selectedDevices_def select_loop_find)
  next
    case None
    with assms c obtain d where "find (\<lambda>d. PCIBusID (Info d) = []) (map (device_at (p_devices p)) ids) = Some d"
      "err = MissingPCIBusID (Name (Info d))" by (auto simp: container_refused_def)
    with None c show ?thesis
      by (simp add: container_steps_def selectedDevices_def select_loop_find bus_loop_find)
  qed
qed

lemma allocateContainer_accepted:
  assumes "container_refused p ids = None"
  shows "\<exists>cdi. p_cdi p = Some cdi \<and> ids \<noteq> []
    \<and> (\<forall>i\<in>set ids. map_of (p_devices p) i \<noteq> None \<and> PCIBusID (Info (device_at (p_devices p) i)) \<noteq> [])
    \<and> selectedDevices p ids = Inr (map (device_at (p_devices p)) ids)
    \<and> bus_loop (map (device_at (p_devices p)) ids) []
        = Inr (map (\<lambda>i. PCIBusID (Info (device_at (p_devices p) i))) ids)"
proof -
  have f: "find (\<lambda>i. map_of (p_devices p) i = None) ids = None"
    "find (\<lambda>d. PCIBusID (Info d) = []) (map (device_at (p_devices p)) ids) = None" "ids \<noteq> []" "p_cdi p \<noteq> None"
    using assms by (auto simp: container_refused_def split: if_splits option.splits)
  moreover from f(1,2) have "\<forall>i\<in>set ids. map_of (p_devices p) i \<noteq> None"
    "\<forall>i\<in>set ids. PCIBusID (Info (device_at (p_devices p) i)) \<noteq> []"
    unfolding find_None_iff by auto
  ultimately show ?thesis
    by (simp add: selectedDevices_def select_loop_find bus_loop_find comp_def)
qed

lemma alloc_log_fields [simp]:
  "as_rsdCalls (alloc_log e s) = as_rsdCalls s" "as_now (alloc_log e s) = as_now s"
  "as_events (alloc_log e s) = as_events s @ [e]"
  by (simp_all add: alloc_log_def)

lemma container_steps_runs:
  assumes "container_refused p ids = None" "container_steps node p ids s = (r, s')"
  defines "bus \<equiv> container_bus p ids"
  defines "span1 \<equiv> [SpanAttributes [(attrBusIDs, LStrings bus)], StartingAllocation ids bus]"
    and "span2 \<equiv> \<lambda>host. [SpanAttributes [(attrRsdHostPath, LString host)], RecreatedGroup bus host]"
  shows "as_rsdCalls s' = as_rsdCalls s @ [bus]"
    and "r = Inl err \<Longrightarrow> \<exists>more. as_events s' = as_events s @ span1 @ more
       \<and> (more = [] \<or> (\<exists>host. n_rsdGroup node (as_rsdCalls s) bus = Inr host \<and> more = span2 host))"
    and "r = Inr response \<Longrightarrow> \<exists>host cdi. n_rsdGroup node (as_rsdCalls s) bus = Inr host
       \<and> p_cdi p = Some cdi \<and> RuntimeAnnotations (n_cdi node) cdi = Inr (Annotations response)
       \<and> DeviceSpecs response = container_specs p host ids
       \<and> (\<forall>spec\<in>set (DeviceSpecs response). \<exists>t\<le>as_now s'. n_stat node t (HostPath spec) \<in> range Inr)
       \<and> as_events s' = as_events s @ span1 @ span2 host @ [CompletedAllocation ids bus host]"
proof -
  let ?ds = "map (device_at (p_devices p)) ids"
  obtain cdi where c: "p_cdi p = Some cdi" "ids \<noteq> []" "selectedDevices p ids = Inr ?ds"
    "bus_loop ?ds [] = Inr (map (\<lambda>i. PCIBusID (Info (device_at (p_devices p) i))) ids)"
    using allocateContainer_accepted [OF assms(1)] by blast
  define s1 where "s1 = alloc_log (StartingAllocation ids bus) (alloc_log (SpanAttributes [(attrBusIDs, LStrings bus)]) s)"
  have s1: "as_rsdCalls s1 = as_rsdCalls s" "as_events s1 = as_events s @ span1"
    by (simp_all add: s1_def span1_def)
  define s2 where "s2 = s1\<lparr>as_rsdCalls := as_rsdCalls s1 @ [bus]\<rparr>"
  have s2: "as_rsdCalls s2 = as_rsdCalls s @ [bus]" "as_events s2 = as_events s @ span1"
    by (simp_all add: s2_def s1)
  have s: "rsdGroupFn node bus s1 = (n_rsdGroup node (as_rsdCalls s) bus, s2)"
    by (simp add: rsdGroupFn_def s2_def s1)
  define s3 where "s3 host = alloc_log (RecreatedGroup bus host)
    (alloc_log (SpanAttributes [(attrRsdHostPath, LString host)]) s2)" for host
  have s3: "as_rsdCalls (s3 host) = as_rsdCalls s @ [bus]"
    "as_events (s3 host) = as_events s @ span1 @ span2 host" for host
    by (simp_all add: s3_def s2 span2_def)
  note run = assms(2) [unfolded container_steps_def c option.case sum.case if_not_P [OF c(2)] Let_def
      container_bus_def [symmetric] bus_def [symmetric] s1_def [symmetric] s prod.case s3_def [symmetric]]
  consider (group) e where "n_rsdGroup node (as_rsdCalls s) bus = Inl e" "r = Inl (RsdGroupFailed bus e)" "s' = s2"
    | (specs) host e now where "n_rsdGroup node (as_rsdCalls s) bus = Inr host" "r = Inl e" "s' = (s3 host)\<lparr>as_now := now\<rparr>"
    | (completed) host specs response' where "n_rsdGroup node (as_rsdCalls s) bus = Inr host"
        "deviceSpecsForDevices node ?ds host (as_now (s3 host)) = (Inr specs, as_now s')"
        "RuntimeAnnotations (n_cdi node) cdi = Inr (Annotations response')" "DeviceSpecs response' = specs" "r = Inr response'"
        "s' = alloc_log (CompletedAllocation ids bus host) ((s3 host)\<lparr>as_now := as_now s'\<rparr>)"
  proof (cases "n_rsdGroup node (as_rsdCalls s) bus")
    case (Inl e)
    with run show thesis by (intro group [of e]) auto
  next
    case (Inr host)
    obtain d now where d: "deviceSpecsForDevices node ?ds host (as_now (s3 host)) = (d, now)" by fastforce
    show thesis
    proof (cases d)
      case (Inl e)
      with run Inr d show thesis by (intro specs [of host e now]) auto
    next
      case d': (Inr ds)
      show thesis
      proof (cases "RuntimeAnnotations (n_cdi node) cdi")
        case (Inl e)
        with run Inr d d' show thesis by (intro specs [of host _ now]) auto
      next
        case ann: (Inr a)
        with run Inr d d' show thesis
          by (intro completed [of host ds "\<lparr>Annotations = a, DeviceSpecs = ds\<rparr>"]) auto
      qed
    qed
  qed
  then have outcome: "as_rsdCalls s' = as_rsdCalls s @ [bus]
    \<and> (case r of
         Inl err \<Rightarrow> \<exists>more. as_events s' = as_events s @ span1 @ more
           \<and> (more = [] \<or> (\<exists>host. n_rsdGroup node (as_rsdCalls s) bus = Inr host \<and> more = span2 host))
       | Inr response \<Rightarrow> \<exists>host cdi. n_rsdGroup node (as_rsdCalls s) bus = Inr host
           \<and> p_cdi p = Some cdi \<and> RuntimeAnnotations (n_cdi node) cdi = Inr (Annotations response)
           \<and> DeviceSpecs response = container_specs p host ids
           \<and> (\<forall>spec\<in>set (DeviceSpecs response). \<exists>t\<le>as_now s'. n_stat node t (HostPath spec) \<in> range Inr)
           \<and> as_events s' = as_events s @ span1 @ span2 host @ [CompletedAllocation ids bus host])"
  proof cases
    case (completed host specs response')
    note sp = deviceSpecs_Inr [OF completed(2)]
    have "DeviceSpecs response' = container_specs p host ids"
      using sp completed by (simp add: container_specs_def Let_def comp_def)
    moreover have "as_events s' = as_events s @ span1 @ span2 host @ [CompletedAllocation ids bus host]"
      "as_rsdCalls s' = as_rsdCalls s @ [bus]"
      by (subst completed(6), simp add: s3)+
    ultimately show ?thesis using c(1) sp completed(1,3,4,5) by auto
  qed (auto simp: s2 s3)
  then show "as_rsdCalls s' = as_rsdCalls s @ [bus]" by blast
  show "\<exists>more. as_events s' = as_events s @ span1 @ more
       \<and> (more = [] \<or> (\<exists>host. n_rsdGroup node (as_rsdCalls s) bus = Inr host \<and> more = span2 host))" if "r = Inl err"
    using outcome that by simp
  show "\<exists>host cdi. n_rsdGroup node (as_rsdCalls s) bus = Inr host
       \<and> p_cdi p = Some cdi \<and> RuntimeAnnotations (n_cdi node) cdi = Inr (Annotations response)
       \<and> DeviceSpecs response = container_specs p host ids
       \<and> (\<forall>spec\<in>set (DeviceSpecs response). \<exists>t\<le>as_now s'. n_stat node t (HostPath spec) \<in> range Inr)
       \<and> as_events s' = as_events s @ span1 @ span2 host @ [CompletedAllocation ids bus host]" if "r = Inr response"
    using outcome that by simp
qed

lemma recordErr_fields [simp]:
  "as_rsdCalls (recordErr err s) = as_rsdCalls s" "as_now (recordErr err s) = as_now s"
  "as_events (recordErr err s) = as_events s @ [SpanError err, SpanStatus (ErrorText err)]"
  by (simp_all add: recordErr_def)

lemma allocateContainer_refused:
  assumes "container_refused p ids = Some err"
  shows "allocateContainer node p ids s
    = (Inl err, alloc_log SpanEnd (recordErr err (alloc_log (container_span p ids) s)))"
  by (simp add: allocateContainer_def container_steps_refused [OF assms])

text \<open>An accepted container, in terms of the steps between the ends of its span.\<close>

lemma allocateContainer_runs:
  assumes "container_refused p ids = None" "allocateContainer node p ids s = (r, s')"
  obtains t where "container_steps node p ids (alloc_log (container_span p ids) s) = (r, t)"
    "as_rsdCalls s' = as_rsdCalls s @ [container_bus p ids]" "as_now s' = as_now t"
    "as_events s' = as_events t @ (case r of Inl err \<Rightarrow> [SpanError err, SpanStatus (ErrorText err), SpanEnd]
        | Inr _ \<Rightarrow> [SpanEnd])"
proof -
  obtain r1 t where run: "container_steps node p ids (alloc_log (container_span p ids) s) = (r1, t)" by fastforce
  with container_steps_runs(1) [OF assms(1) run] assms(2) that [of t] show thesis
    by (cases r1) (auto simp: allocateContainer_def)
qed

text \<open>
  The checks of a container request come before any effect.  A request without devices, without
  a CDI handler, with a device the plugin does not manage or one without PCI address is refused with
  the error of the first such check, neither the clock nor the RSD groups change, nothing is logged, and
  its span holds just the error; every other request makes exactly one RSD group call, on the
  sorted PCI addresses of its devices.
\<close>

theorem allocateContainer_checks:
  "case container_refused p ids of
     Some err \<Rightarrow> (\<exists>s'. allocateContainer node p ids s = (Inl err, s') \<and> as_now s' = as_now s
       \<and> as_rsdCalls s' = as_rsdCalls s
       \<and> as_events s' = as_events s @ [container_span p ids, SpanError err, SpanStatus (ErrorText err), SpanEnd])
   | None \<Rightarrow> as_rsdCalls (snd (allocateContainer node p ids s)) = as_rsdCalls s @ [container_bus p ids]"
proof (cases "container_refused p ids")
  case None
  obtain r s' where run: "allocateContainer node p ids s = (r, s')" by fastforce
  show ?thesis by (rule allocateContainer_runs [OF None run]) (simp add: None run)
qed (simp add: allocateContainer_refused)

text \<open>
  C34: a container that is allocated gets what it asked for.  The response mounts the RSD group node
  as \<open>/dev/rsd0\<close>, when the group has one, and then the node of every requested device in the
  order of the request, each at its own path and with read-write permission; every mounted
  host path was seen to exist; and the annotations are those of the CDI runtime device.
\<close>

theorem allocateContainer_response:
  assumes "allocateContainer node p ids s = (Inr response, s')"
  shows "container_refused p ids = None
    \<and> (\<exists>host cdi. n_rsdGroup node (as_rsdCalls s) (container_bus p ids) = Inr host
       \<and> p_cdi p = Some cdi \<and> RuntimeAnnotations (n_cdi node) cdi = Inr (Annotations response)
       \<and> DeviceSpecs response = container_specs p host ids)
    \<and> (\<forall>spec\<in>set (DeviceSpecs response). \<exists>t\<le>as_now s'. n_stat node t (HostPath spec) \<in> range Inr)"
proof -
  have none: "container_refused p ids = None"
    using assms allocateContainer_refused [of p ids _ node s] by (cases "container_refused p ids") auto
  obtain t where t: "container_steps node p ids (alloc_log (container_span p ids) s) = (Inr response, t)"
    "as_now s' = as_now t" by (rule allocateContainer_runs [OF none assms])
  from container_steps_runs(3) [OF none t(1) refl] none t(2) show ?thesis by auto
qed

definition alloc_plugin :: resourcePlugin where
  "alloc_plugin = NewResourcePlugin ''rebellions.ai/npu'' ''npu.sock'' ''kubelet.sock''
     (Some (NewCDIHandler ''/var/run/cdi''))
     [(''rbln0'', sample_device ''rbln0'' ''0000:82:00.0'' ''0'' ''S0''),
      (''rbln1'', sample_device ''rbln1'' ''0000:01:00.0'' ''0'' ''S0'')]"

definition alloc_init :: alloc_state where
  "alloc_init = \<lparr>as_now = 0, as_rsdCalls = [], as_events = []\<rparr>"

lemma alloc_run: "\<exists>response s'. allocateContainer slow_node alloc_plugin [''rbln0'', ''rbln1''] alloc_init = (Inr response, s')"
proof -
  have "\<not> isl (fst (allocateContainer slow_node alloc_plugin [''rbln0'', ''rbln1''] alloc_init))" by code_simp
  then show ?thesis
    by (cases "allocateContainer slow_node alloc_plugin [''rbln0'', ''rbln1''] alloc_init";
        cases "fst (allocateContainer slow_node alloc_plugin [''rbln0'', ''rbln1''] alloc_init)") auto
qed

theorem allocateContainer_response_witness:
  "\<exists>response s'. allocateContainer slow_node alloc_plugin [''rbln0'', ''rbln1''] alloc_init = (Inr response, s')
     \<and> map ContainerPath (DeviceSpecs response) = [''/dev/rsd0'', ''/dev/rbln0'', ''/dev/rbln1'']"
proof -
  obtain response s' where run:
    "allocateContainer slow_node alloc_plugin [''rbln0'', ''rbln1''] alloc_init = (Inr response, s')"
    using alloc_run by blast
  from allocateContainer_response [OF run] obtain host where h:
    "n_rsdGroup slow_node (as_rsdCalls alloc_init) (container_bus alloc_plugin [''rbln0'', ''rbln1'']) = Inr host"
    "DeviceSpecs response = container_specs alloc_plugin host [''rbln0'', ''rbln1'']" by blast
  have "container_bus alloc_plugin [''rbln0'', ''rbln1''] = [''0000:01:00.0'', ''0000:82:00.0'']" by code_simp
  with h(1) have "host = ''/dev/rsd3''" by (simp add: slow_node_def)
  moreover have "map ContainerPath (container_specs alloc_plugin ''/dev/rsd3'' [''rbln0'', ''rbln1''])
      = [''/dev/rsd0'', ''/dev/rbln0'', ''/dev/rbln1'']" by code_simp
  ultimately show ?thesis using run h(2) by auto
qed

section \<open>The whole request\<close>

definition allocated_for :: "resourcePlugin \<Rightarrow> string list \<Rightarrow> container_response \<Rightarrow> bool" where
  "allocated_for p ids response \<longleftrightarrow>
     container_refused p ids = None \<and> (\<exists>host. DeviceSpecs response = container_specs p host ids)"

lemma rdsDevicePresent_calls [simp]:
  "as_rsdCalls (snd (rdsDevicePresent node s)) = as_rsdCalls s"
  by (simp add: rdsDevicePresent_def Let_def alloc_log_def)

lemma container_step:
  assumes "allocateContainer node p ids s = (Inr response, s1)"
  shows "allocated_for p ids response" "as_rsdCalls s1 = as_rsdCalls s @ [container_bus p ids]"
proof -
  have none: "container_refused p ids = None"
    using assms allocateContainer_refused [of p ids _ node s] by (cases "container_refused p ids") auto
  obtain t where t: "container_steps node p ids (alloc_log (container_span p ids) s) = (Inr response, t)"
    "as_rsdCalls s1 = as_rsdCalls s @ [container_bus p ids]" by (rule allocateContainer_runs [OF none assms])
  from container_steps_runs(3) [OF none t(1) refl] none show "allocated_for p ids response"
    by (auto simp: allocated_for_def)
  show "as_rsdCalls s1 = as_rsdCalls s @ [container_bus p ids]" by (rule t(2))
qed

lemma allocate_loop_Cons:
  assumes "allocate_loop node p (ids # reqs) acc s = (r, s')"
  obtains
    (failed) err s1 where "allocateContainer node p ids s = (Inl err, s1)" "r = Inl (InvalidArgument err)"
      "as_rsdCalls s' = as_rsdCalls s1"
  | (rds) response s1 err where "allocateContainer node p ids s = (Inr response, s1)"
      "r = Inl (InternalRDS err)" "as_rsdCalls s' = as_rsdCalls s1"
  | (more) response s1 response' s2 where "allocateContainer node p ids s = (Inr response, s1)"
      "DeviceSpecs response' = DeviceSpecs response" "as_rsdCalls s2 = as_rsdCalls s1"
      "allocate_loop node p reqs (acc @ [response']) s2 = (r, s')"
proof -
  obtain x s1 where c: "allocateContainer node p ids s = (x, s1)" by fastforce
  show ?thesis
  proof (cases x)
    case (Inl err)
    with assms c show ?thesis by (intro failed [of err s1]) (auto simp: alloc_log_def)
  next
    case (Inr response)
    obtain b s2 where d: "rdsDevicePresent node s1 = (b, s2)" by fastforce
    then have calls: "as_rsdCalls s2 = as_rsdCalls s1" using rdsDevicePresent_calls [of node s1] by simp
    show ?thesis
    proof (cases b)
      case False
      with assms c Inr d calls show ?thesis by (intro more [of response s1 response s2]) auto
    next
      case True
      show ?thesis
      proof (cases "RDSAnnotations (n_cdi node) (the (p_cdi p)) (Annotations response)")
        case Inl2: (Inl err)
        with assms c Inr d calls True show ?thesis by (intro rds [of response s1 err]) auto
      next
        case Inr2: (Inr annotations)
        with assms c Inr d calls True show ?thesis
          by (intro more [of response s1 "response\<lparr>Annotations := annotations\<rparr>"
                "alloc_log AddedRDSAnnotations s2"]) (auto simp: alloc_log_def)
      qed
    qed
  qed
qed

lemma allocate_loop_Inr:
  "allocate_loop node p reqs acc s = (Inr responses, s') \<Longrightarrow>
     \<exists>new. responses = acc @ new \<and> list_all2 (allocated_for p) reqs new
       \<and> as_rsdCalls s' = as_rsdCalls s @ map (container_bus p) reqs"
proof (induction reqs arbitrary: acc s)
  case (Cons ids reqs)
  from Cons.prems show ?case
  proof (cases rule: allocate_loop_Cons)
    case (more response s1 response' s2)
    from Cons.IH [OF more(4)] obtain new where n: "responses = (acc @ [response']) @ new"
      "list_all2 (allocated_for p) reqs new"
      "as_rsdCalls s' = as_rsdCalls s2 @ map (container_bus p) reqs" by blast
    have "allocated_for p ids response'"
      using container_step(1) [OF more(1)] more(2) by (simp add: allocated_for_def)
    with n container_step(2) [OF more(1)] more(3) show ?thesis
      by (intro exI [of _ "response' # new"]) simp
  qed simp_all
qed simp

lemma allocate_loop_Inl:
  "allocate_loop node p reqs acc s = (Inl err, s') \<Longrightarrow>
     \<exists>us ids ws. reqs = us @ ids # ws \<and> (\<forall>u\<in>set us. container_refused p u = None)
       \<and> (\<forall>e. container_refused p ids = Some e \<longrightarrow> err = InvalidArgument e)
       \<and> as_rsdCalls s' = as_rsdCalls s @ map (container_bus p) us
           @ (if container_refused p ids = None then [container_bus p ids] else [])"
proof (induction reqs arbitrary: acc s)
  case (Cons ids reqs)
  from Cons.prems show ?case
  proof (cases rule: allocate_loop_Cons)
    case (failed e s1)
    have "as_rsdCalls s1 = as_rsdCalls s @ (if container_refused p ids = None then [container_bus p ids] else [])
        \<and> (\<forall>f. container_refused p ids = Some f \<longrightarrow> err = InvalidArgument f)"
    proof (cases "container_refused p ids")
      case None
      show ?thesis by (rule allocateContainer_runs [OF None failed(1)]) (simp add: None)
    next
      case (Some f)
      with allocateContainer_refused [OF Some, of node s] failed show ?thesis by simp
    qed
    with failed(3) show ?thesis
      by (intro exI [of _ "[]"] exI [of _ ids] exI [of _ reqs]) simp
  next
    case (rds response s1 e)
    with container_step [OF rds(1)] show ?thesis
      by (intro exI [of _ "[]"] exI [of _ ids] exI [of _ reqs]) (simp add: allocated_for_def)
  next
    case (more response s1 response' s2)
    from Cons.IH [OF more(4)] obtain us i ws where n: "reqs = us @ i # ws"
      "\<forall>u\<in>set us. container_refused p u = None"
      "\<forall>e. container_refused p i = Some e \<longrightarrow> err = InvalidArgument e"
      "as_rsdCalls s' = as_rsdCalls s2 @ map (container_bus p) us
           @ (if container_refused p i = None then [container_bus p i] else [])" by blast
    with container_step [OF more(1)] more(3) show ?thesis
      by (intro exI [of _ "ids # us"] exI [of _ i] exI [of _ ws]) (simp add: allocated_for_def)
  qed
qed simp

text \<open>
  C4: \<open>Allocate\<close> is all or nothing.  Either there is one response per container, in the order of
  the request, each with the mounts of its own devices, and the RSD group library was called once per
  container, in this order, on the sorted PCI addresses; or the request fails as a whole at one
  container: those before it passed their checks and had their groups recreated, a container whose checks
  fail is reported as an invalid argument with that error, and none after it was touched.
\<close>

theorem Allocate_all_or_nothing:
  "case Allocate node p reqs s of
     (Inr responses, s') \<Rightarrow> list_all2 (allocated_for p) reqs responses
        \<and> as_rsdCalls s' = as_rsdCalls s @ map (container_bus p) reqs
   | (Inl err, s') \<Rightarrow> (\<exists>us ids ws. reqs = us @ ids # ws \<and> (\<forall>u\<in>set us. container_refused p u = None)
        \<and> (\<forall>e. container_refused p ids = Some e \<longrightarrow> err = InvalidArgument e)
        \<and> as_rsdCalls s' = as_rsdCalls s @ map (container_bus p) us
            @ (if container_refused p ids = None then [container_bus p ids] else []))"
proof -
  let ?s = "alloc_log (SpanStart ''Allocate'' [(attrResourceName, LString (p_resourceName p))]) s"
  obtain r s' where run: "allocate_loop node p reqs [] ?s = (r, s')" by fastforce
  show ?thesis
  proof (cases r)
    case (Inl err)
    from allocate_loop_Inl [OF run [unfolded Inl]] show ?thesis
      by (simp add: Allocate_def run Inl)
  next
    case (Inr responses)
    from allocate_loop_Inr [OF run [unfolded Inr]] show ?thesis
      by (simp add: Allocate_def run Inr)
  qed
qed

theorem Allocate_all_or_nothing_witness:
  "\<exists>responses. fst (Allocate slow_node alloc_plugin [[''rbln0'', ''rbln1''], [''rbln1'']] alloc_init) = Inr responses
     \<and> list_all2 (allocated_for alloc_plugin) [[''rbln0'', ''rbln1''], [''rbln1'']] responses"
proof -
  let ?run = "Allocate slow_node alloc_plugin [[''rbln0'', ''rbln1''], [''rbln1'']] alloc_init"
  have "\<not> isl (fst ?run)" by code_simp
  then obtain responses s' where run: "?run = (Inr responses, s')"
    by (cases "?run"; cases "fst ?run") auto
  from Allocate_all_or_nothing [where node = slow_node and p = alloc_plugin and s = alloc_init
      and reqs = "[[''rbln0'', ''rbln1''], [''rbln1'']]"]
  show ?thesis unfolding run by simp
qed

end
