(* ===== verification/PreferredHandler.thy ===== *)
theory PreferredHandler imports AllocateProps begin

text \<open>
  \<open>GetPreferredAllocation\<close> of \<open>cmd/rbln-device-plugin/plugin.go\<close>, over
  \<open>selectPreferredDeviceIDs\<close>.  The outer \<open>option\<close> is the one of the tree routines below; a
  nil list of identifiers is empty.
\<close>

section \<open>Operations\<close>

record preferred_request =
  AvailableDeviceIDs :: "string list"
  MustIncludeDeviceIDs :: "string list"
  AllocationSize :: int

datatype preferred_event =
    PreferredFallback select_error int
  | SelectedPreferred int "string list"

fun preferred_loop ::
    "filesystem \<Rightarrow> resourcePlugin \<Rightarrow> preferred_request list \<Rightarrow> string list list \<Rightarrow> preferred_event list \<Rightarrow>
     (string list list \<times> preferred_event list) option" where
  "preferred_loop fs p [] responses events = Some (responses, events)"
| "preferred_loop fs p (request # requests) responses events =
     Option.bind
       (selectPreferredDeviceIDs fs (p_resourceName p) (p_devices p) (AvailableDeviceIDs request)
          (MustIncludeDeviceIDs request) (AllocationSize request))
       (\<lambda>result. case result of
          Inl err \<Rightarrow> preferred_loop fs p requests (responses @ [[]])
            (events @ [PreferredFallback err (AllocationSize request)])
        | Inr deviceIDs \<Rightarrow> preferred_loop fs p requests (responses @ [deviceIDs])
            (events @ [SelectedPreferred (AllocationSize request) deviceIDs]))"

definition GetPreferredAllocation ::
    "filesystem \<Rightarrow> resourcePlugin \<Rightarrow> preferred_request list \<Rightarrow>
     (string list list \<times> preferred_event list) option" where
  "GetPreferredAllocation fs p requests = preferred_loop fs p requests [] []"

section \<open>Properties\<close>

definition request_valid :: "resourcePlugin \<Rightarrow> preferred_request \<Rightarrow> bool" where
  "request_valid p request \<longleftrightarrow>
     valid_request (p_devices p) (AvailableDeviceIDs request) (MustIncludeDeviceIDs request)
       (AllocationSize request)"

text \<open>A set of devices of the requested size, as good as any other.\<close>

definition best_answer :: "filesystem \<Rightarrow> resourcePlugin \<Rightarrow> preferred_request \<Rightarrow> string list \<Rightarrow> bool" where
  "best_answer fs p request ids \<longleftrightarrow>
     distinct ids \<and> int (length ids) = AllocationSize request
     \<and> set (MustIncludeDeviceIDs request) \<subseteq> set ids \<and> set ids \<subseteq> set (AvailableDeviceIDs request)
     \<and> (\<forall>T. distinct T \<and> int (length T) = AllocationSize request
          \<and> set (MustIncludeDeviceIDs request) \<subseteq> set T \<and> set T \<subseteq> set (AvailableDeviceIDs request) \<longrightarrow>
          policy_score fs (p_devices p) ids \<le> policy_score fs (p_devices p) T)"

definition request_answered ::
    "filesystem \<Rightarrow> resourcePlugin \<Rightarrow> preferred_request \<Rightarrow> string list \<times> preferred_event \<Rightarrow> bool" where
  "request_answered fs p request answer \<longleftrightarrow>
     (if request_valid p request
      then best_answer fs p request (fst answer)
        \<and> snd answer = SelectedPreferred (AllocationSize request) (fst answer)
      else fst answer = [] \<and> snd answer = PreferredFallback
        (request_error (p_resourceName p) (p_devices p) (AvailableDeviceIDs request)
           (MustIncludeDeviceIDs request) (AllocationSize request)) (AllocationSize request))"

lemma select_best:
  assumes "request_valid p request" "small_inventory fs (p_devices p)"
  obtains ids where "selectPreferredDeviceIDs fs (p_resourceName p) (p_devices p)
      (AvailableDeviceIDs request) (MustIncludeDeviceIDs request) (AllocationSize request) = Some (Inr ids)"
    "best_answer fs p request ids"
proof (rule selectPreferred_spec [where res = "p_resourceName p", OF assms(1) [unfolded request_valid_def] assms(2)])
  let ?sel = "normalize_loop (MustIncludeDeviceIDs request) []"
  fix c
  assume run: "selectPreferredDeviceIDs fs (p_resourceName p) (p_devices p) (AvailableDeviceIDs request)
      (MustIncludeDeviceIDs request) (AllocationSize request) = Some (Inr (?sel @ c))"
    and size: "distinct (?sel @ c)" "int (length (?sel @ c)) = AllocationSize request"
    and new: "set c \<subseteq> set (AvailableDeviceIDs request) - set (MustIncludeDeviceIDs request)"
    and least: "\<And>T. distinct T \<Longrightarrow> int (length T) = AllocationSize request \<Longrightarrow>
       set (MustIncludeDeviceIDs request) \<subseteq> set T \<Longrightarrow> set T \<subseteq> set (AvailableDeviceIDs request) \<Longrightarrow>
       policy_score fs (p_devices p) (?sel @ c) < policy_score fs (p_devices p) T
       \<or> policy_score fs (p_devices p) (?sel @ c) = policy_score fs (p_devices p) T
         \<and> c \<le> sort (filter (\<lambda>i. i \<notin> set (MustIncludeDeviceIDs request)) T)"
  have "set (MustIncludeDeviceIDs request) \<subseteq> set (AvailableDeviceIDs request)"
    using assms(1) by (simp add: request_valid_def valid_request_def)
  then have "set (?sel @ c) \<subseteq> set (AvailableDeviceIDs request)" "set (MustIncludeDeviceIDs request) \<subseteq> set (?sel @ c)"
    using new by (auto simp: set_normalized)
  then have "best_answer fs p request (?sel @ c)"
    unfolding best_answer_def using size least by (metis order.strict_implies_order order_refl)
  with run show thesis by (rule that)
qed

lemma request_answer:
  assumes "small_inventory fs (p_devices p)"
  obtains ids event where "request_answered fs p request (ids, event)"
    "\<And>requests responses events. preferred_loop fs p (request # requests) responses events
       = preferred_loop fs p requests (responses @ [ids]) (events @ [event])"
proof (cases "request_valid p request")
  case True
  from select_best [OF True assms] obtain ids where
    "selectPreferredDeviceIDs fs (p_resourceName p) (p_devices p)
      (AvailableDeviceIDs request) (MustIncludeDeviceIDs request) (AllocationSize request) = Some (Inr ids)"
    "best_answer fs p request ids" by blast
  with True that [of ids "SelectedPreferred (AllocationSize request) ids"] show ?thesis
    by (simp add: request_answered_def)
next
  case False
  note sel = selectPreferred_invalid [OF False [unfolded request_valid_def], of fs "p_resourceName p"]
  from False sel that [of "[]"] show ?thesis by (simp add: request_answered_def)
qed

lemma preferred_loop_answers:
  assumes "small_inventory fs (p_devices p)"
  shows "\<exists>new. preferred_loop fs p requests responses events
       = Some (responses @ map fst new, events @ map snd new)
     \<and> list_all2 (request_answered fs p) requests new"
proof (induction requests arbitrary: responses events)
  case (Cons request requests)
  obtain ids event where a: "request_answered fs p request (ids, event)"
    "\<And>requests responses events. preferred_loop fs p (request # requests) responses events
       = preferred_loop fs p requests (responses @ [ids]) (events @ [event])"
    using request_answer [OF assms] by blast
  obtain new where n: "preferred_loop fs p requests (responses @ [ids]) (events @ [event])
       = Some ((responses @ [ids]) @ map fst new, (events @ [event]) @ map snd new)"
    "list_all2 (request_answered fs p) requests new"
    using Cons.IH by blast
  with a show ?case by (intro exI [of _ "(ids, event) # new"]) simp
qed simp

text \<open>
  C36: \<open>GetPreferredAllocation\<close> never fails.  It gives one answer per container request, in
  order; a valid request is answered with a best set of devices and a debug record of it, any
  other with the empty list and one warning that carries the error of the first check that failed.
\<close>

theorem GetPreferredAllocation_answers:
  assumes "small_inventory fs (p_devices p)"
  shows "\<exists>answers. GetPreferredAllocation fs p requests = Some (map fst answers, map snd answers)
    \<and> list_all2 (request_answered fs p) requests answers"
  using preferred_loop_answers [OF assms, of requests "[]" "[]"] by (simp add: GetPreferredAllocation_def)

definition preferred_plugin :: resourcePlugin where
  "preferred_plugin = NewResourcePlugin ''rebellions.ai/npu'' ''npu.sock'' ''kubelet.sock''
     (Some (NewCDIHandler ''/var/run/cdi'')) sample_devices"

definition preferred_pair :: preferred_request where
  "preferred_pair = \<lparr>AvailableDeviceIDs = sample_ids, MustIncludeDeviceIDs = [], AllocationSize = 2\<rparr>"

lemma preferred_plugin_devices [simp]: "p_devices preferred_plugin = sample_devices"
  by (simp add: preferred_plugin_def NewResourcePlugin_def cloneDeviceMap_def sample_devices_def
      sample_device_def)

lemma preferred_pair_valid: "request_valid preferred_plugin preferred_pair"
  using sample_valid(1) by (simp add: request_valid_def preferred_pair_def)

theorem GetPreferredAllocation_answers_witness:
  "\<exists>ids events. GetPreferredAllocation sample_fs preferred_plugin
       [preferred_pair, preferred_pair\<lparr>AllocationSize := -1\<rparr>] = Some ([ids, []], events)
     \<and> best_answer sample_fs preferred_plugin preferred_pair ids"
proof -
  have "small_inventory sample_fs (p_devices preferred_plugin)" using sample_small by simp
  from GetPreferredAllocation_answers [OF this,
      of "[preferred_pair, preferred_pair\<lparr>AllocationSize := -1\<rparr>]"]
  show ?thesis
    using preferred_pair_valid
    by (auto simp: list_all2_Cons1 request_answered_def request_valid_def valid_request_def)
qed

end
