(* ===== verification/AllocateSpans.thy ===== *)
theory AllocateSpans imports AllocateProps begin

text \<open>
  The trace of an allocation request: one \<open>Allocate\<close> span with one child per container, and the
  failure record.
\<close>

section \<open>Traces\<close>

text \<open>The operations on spans, and the record of a failed container.\<close>

fun is_traced :: "alloc_event \<Rightarrow> bool" where
  "is_traced (SpanStart name attrs) \<longleftrightarrow> True"
| "is_traced (SpanAttributes attrs) \<longleftrightarrow> True"
| "is_traced (SpanError err) \<longleftrightarrow> True"
| "is_traced (SpanStatus status) \<longleftrightarrow> True"
| "is_traced SpanEnd \<longleftrightarrow> True"
| "is_traced (AllocationFailed err ids) \<longleftrightarrow> True"
| "is_traced _ \<longleftrightarrow> False"

definition trace_of :: "alloc_state \<Rightarrow> alloc_event list" where
  "trace_of s = filter is_traced (as_events s)"

definition bus_attributes :: "resourcePlugin \<Rightarrow> string list \<Rightarrow> alloc_event" where
  "bus_attributes p ids = SpanAttributes [(attrBusIDs, LStrings (container_bus p ids))]"

definition host_attributes :: "string \<Rightarrow> alloc_event" where
  "host_attributes host = SpanAttributes [(attrRsdHostPath, LString host)]"

definition good_span :: "resourcePlugin \<Rightarrow> string list \<Rightarrow> string \<Rightarrow> alloc_event list" where
  "good_span p ids host = [container_span p ids, bus_attributes p ids, host_attributes host, SpanEnd]"

definition failed_span :: "resourcePlugin \<Rightarrow> string list \<Rightarrow> alloc_event list \<Rightarrow> alloc_error \<Rightarrow> alloc_event list" where
  "failed_span p ids attrs err =
     container_span p ids # attrs @ [SpanError err, SpanStatus (ErrorText err), SpanEnd]"

text \<open>What a failed container may have noted before it failed.\<close>

definition partial_attributes :: "resourcePlugin \<Rightarrow> string list \<Rightarrow> alloc_event list set" where
  "partial_attributes p ids =
     {[], [bus_attributes p ids]} \<union> (\<lambda>host. [bus_attributes p ids, host_attributes host]) ` UNIV"

lemma trace_of_log [simp]:
  "trace_of (alloc_log e s) = trace_of s @ filter is_traced [e]"
  by (simp add: trace_of_def)

lemma is_traced_container [simp]: "is_traced (container_span p ids)"
  by (simp add: container_span_def)

lemma rdsDevicePresent_trace [simp]: "trace_of (snd (rdsDevicePresent node s)) = trace_of s"
  by (simp add: rdsDevicePresent_def Let_def)

lemma trace_allocated:
  assumes "allocateContainer node p ids s = (Inr response, s')"
  shows "\<exists>host. trace_of s' = trace_of s @ good_span p ids host"
proof -
  have none: "container_refused p ids = None"
    using assms allocateContainer_refused [of p ids _ node s] by (cases "container_refused p ids") auto
  obtain t where t: "container_steps node p ids (alloc_log (container_span p ids) s) = (Inr response, t)"
    "as_events s' = as_events t @ [SpanEnd]"
    by (rule allocateContainer_runs [OF none assms]) simp
  from container_steps_runs(3) [OF none t(1) refl] t(2) show ?thesis
    by (auto simp: trace_of_def good_span_def bus_attributes_def host_attributes_def)
qed

lemma trace_refused:
  assumes "allocateContainer node p ids s = (Inl err, s')"
  shows "\<exists>attrs\<in>partial_attributes p ids. trace_of s' = trace_of s @ failed_span p ids attrs err"
proof (cases "container_refused p ids")
  case (Some e)
  with assms allocateContainer_refused [OF Some, of node s] show ?thesis
    by (intro bexI [of _ "[]"]) (auto simp: trace_of_def failed_span_def partial_attributes_def)
next
  case None
  obtain t where t: "container_steps node p ids (alloc_log (container_span p ids) s) = (Inl err, t)"
    "as_events s' = as_events t @ [SpanError err, SpanStatus (ErrorText err), SpanEnd]"
    by (rule allocateContainer_runs [OF None assms]) simp
  obtain more where more: "as_events t = as_events s @ [container_span p ids, bus_attributes p ids,
      StartingAllocation ids (container_bus p ids)] @ more"
    "more = [] \<or> (\<exists>host. more = [host_attributes host, RecreatedGroup (container_bus p ids) host])"
    using container_steps_runs(2) [OF None t(1) refl] by (auto simp: bus_attributes_def host_attributes_def)
  define attrs where "attrs = bus_attributes p ids # filter is_traced more"
  have "attrs \<in> partial_attributes p ids"
    using more(2) by (auto simp: attrs_def partial_attributes_def host_attributes_def)
  moreover have "trace_of s' = trace_of s @ failed_span p ids attrs err"
    by (simp add: trace_of_def t(2) more(1) failed_span_def attrs_def bus_attributes_def)
  ultimately show ?thesis by blast
qed

section \<open>The request\<close>

definition containers_trace :: "resourcePlugin \<Rightarrow> string list list \<Rightarrow> string list \<Rightarrow> alloc_event list" where
  "containers_trace p reqs hosts = concat (map2 (good_span p) reqs hosts)"

definition request_trace ::
    "resourcePlugin \<Rightarrow> string list list \<Rightarrow> (allocate_error, container_response list) go_result \<Rightarrow>
     alloc_event list \<Rightarrow> bool" where
  "request_trace p reqs r new \<longleftrightarrow>
     (case r of
        Inr responses \<Rightarrow> \<exists>hosts. length hosts = length reqs \<and> new = containers_trace p reqs hosts
      | Inl (InvalidArgument err) \<Rightarrow> \<exists>us ids ws hosts. \<exists>attrs\<in>partial_attributes p ids.
          reqs = us @ ids # ws \<and> length hosts = length us
          \<and> new = containers_trace p us hosts @ failed_span p ids attrs err
              @ [SpanError err, SpanStatus (StatusText ''container allocation failed''), AllocationFailed err ids]
      | Inl (InternalRDS err) \<Rightarrow> \<exists>us ws hosts. us \<noteq> [] \<and> reqs = us @ ws \<and> length hosts = length us
          \<and> new = containers_trace p us hosts)"

lemma request_trace_Cons:
  assumes "request_trace p reqs r new"
  shows "request_trace p (ids # reqs) r (good_span p ids host @ new)"
proof (cases r)
  case (Inr responses)
  with assms obtain hosts where "length hosts = length reqs" "new = containers_trace p reqs hosts"
    by (auto simp: request_trace_def)
  with Inr show ?thesis
    by (auto simp: request_trace_def containers_trace_def intro!: exI [of _ "host # hosts"])
next
  case (Inl e)
  show ?thesis
  proof (cases e)
    case (InvalidArgument err)
    with Inl assms obtain us i ws hosts attrs where n: "attrs \<in> partial_attributes p i" "reqs = us @ i # ws"
      "length hosts = length us" "new = containers_trace p us hosts @ failed_span p i attrs err
        @ [SpanError err, SpanStatus (StatusText ''container allocation failed''), AllocationFailed err i]"
      by (auto simp: request_trace_def)
    then show ?thesis
      unfolding request_trace_def Inl InvalidArgument sum.case allocate_error.case
      by (intro exI [of _ "ids # us"] exI [of _ i] exI [of _ ws] exI [of _ "host # hosts"] bexI [of _ attrs])
        (simp_all add: containers_trace_def)
  next
    case (InternalRDS err)
    with Inl assms obtain us ws hosts where "us \<noteq> []" "reqs = us @ ws" "length hosts = length us"
      "new = containers_trace p us hosts" by (auto simp: request_trace_def)
    then show ?thesis
      unfolding request_trace_def Inl InternalRDS sum.case allocate_error.case
      by (intro exI [of _ "ids # us"] exI [of _ ws] exI [of _ "host # hosts"]) (simp add: containers_trace_def)
  qed
qed

lemma allocate_loop_trace:
  "allocate_loop node p reqs acc s = (r, s') \<Longrightarrow>
     \<exists>new. trace_of s' = trace_of s @ new \<and> request_trace p reqs r new"
proof (induction reqs arbitrary: acc s)
  case Nil
  then show ?case by (auto simp: request_trace_def containers_trace_def)
next
  case (Cons ids reqs)
  obtain x s1 where c: "allocateContainer node p ids s = (x, s1)" by fastforce
  show ?case
  proof (cases x)
    case (Inl err)
    then obtain attrs where a: "attrs \<in> partial_attributes p ids" "trace_of s1 = trace_of s @ failed_span p ids attrs err"
      using trace_refused c by blast
    have "r = Inl (InvalidArgument err)" "trace_of s' = trace_of s1
        @ [SpanError err, SpanStatus (StatusText ''container allocation failed''), AllocationFailed err ids]"
      using Cons.prems c Inl by auto
    moreover have "request_trace p (ids # reqs) (Inl (InvalidArgument err)) (failed_span p ids attrs err
        @ [SpanError err, SpanStatus (StatusText ''container allocation failed''), AllocationFailed err ids])"
      unfolding request_trace_def sum.case allocate_error.case
      by (intro exI [of _ "[]"] exI [of _ ids] exI [of _ reqs] bexI [OF _ a(1)]) (simp add: containers_trace_def)
    ultimately show ?thesis using a(2) by simp
  next
    case (Inr response)
    then obtain host where h: "trace_of s1 = trace_of s @ good_span p ids host"
      using trace_allocated c by blast
    obtain b s2 where d: "rdsDevicePresent node s1 = (b, s2)" by fastforce
    then have t2: "trace_of s2 = trace_of s1" using rdsDevicePresent_trace [of node s1] by simp
    consider (rds) err where "r = Inl (InternalRDS err)" "trace_of s' = trace_of s1"
      | (more) acc' s3 where "trace_of s3 = trace_of s1" "allocate_loop node p reqs acc' s3 = (r, s')"
    proof (cases b)
      case False
      with Cons.prems c Inr d t2 show thesis by (intro more [of s2 "acc @ [response]"]) auto
    next
      case True
      show thesis
      proof (cases "RDSAnnotations (n_cdi node) (the (p_cdi p)) (Annotations response)")
        case Inl2: (Inl err)
        with Cons.prems c Inr d t2 True show thesis by (intro rds [of err]) auto
      next
        case Inr2: (Inr annotations)
        with Cons.prems c Inr d t2 True show thesis
          by (intro more [of "alloc_log AddedRDSAnnotations s2" "acc @ [response\<lparr>Annotations := annotations\<rparr>]"]) auto
      qed
    qed
    then show ?thesis
    proof cases
      case rds
      have "request_trace p (ids # reqs) (Inl (InternalRDS err)) (good_span p ids host)"
        unfolding request_trace_def sum.case allocate_error.case
        by (intro exI [of _ "[ids]"] exI [of _ reqs] exI [of _ "[host]"]) (simp add: containers_trace_def)
      with h rds show ?thesis by (intro exI [of _ "good_span p ids host"]) simp
    next
      case more
      from Cons.IH [OF more(2)] obtain new where "trace_of s' = trace_of s3 @ new" "request_trace p reqs r new"
        by blast
      with h more(1) request_trace_Cons show ?thesis by (intro exI [of _ "good_span p ids host @ new"]) simp
    qed
  qed
qed

text \<open>
  C16: the trace of a request.  \<open>Allocate\<close> opens one span and closes it, and between them stands one
  closed child span per attempted container, in order, with its attributes; a container that fails
  marks its own span and the request's as errors and is recorded once, and no later container is
  attempted.  When the annotations of a present RDS device cannot be made, the request fails too, but neither span
  nor record says so.
\<close>

theorem allocate_trace:
  "case Allocate node p reqs s of (r, s') \<Rightarrow>
     \<exists>new. trace_of s' = trace_of s
         @ SpanStart ''Allocate'' [(attrResourceName, LString (p_resourceName p))] # new @ [SpanEnd]
       \<and> request_trace p reqs r new"
proof -
  let ?s = "alloc_log (SpanStart ''Allocate'' [(attrResourceName, LString (p_resourceName p))]) s"
  obtain r s' where run: "allocate_loop node p reqs [] ?s = (r, s')" by fastforce
  from allocate_loop_trace [OF run] obtain new where "trace_of s' = trace_of ?s @ new" "request_trace p reqs r new"
    by blast
  then show ?thesis by (simp add: Allocate_def run)
qed

end
