(* ===== verification/PluginFacts.thy ===== *)
theory PluginFacts imports Plugin begin

text \<open>
  What \<open>Start\<close>, \<open>Stop\<close>, \<open>register\<close> and \<open>UpdateDevices\<close> of a resource
  plugin leave behind, in every case and under every pattern of failing system calls.
\<close>

section \<open>Cloning and logging\<close>

lemma cloneDeviceMap_id [simp]: "cloneDeviceMap devices = devices"
  by (auto simp: cloneDeviceMap_def intro!: map_idI npuDevice.equality)

lemma plugin_emit_fields [world_simps]:
  "w_paths (plugin_emit p l m a w) = w_paths w" "w_listening (plugin_emit p l m a w) = w_listening w"
  "w_registered (plugin_emit p l m a w) = w_registered w" "w_fault (plugin_emit p l m a w) = w_fault w"
  "w_clock (plugin_emit p l m a w) = w_clock w"
  by (simp_all add: plugin_emit_def world_simps)

lemma fold_emit_fields [world_simps]:
  "w_paths (fold (\<lambda>x. plugin_emit p (l x) (m x) (a x)) xs w) = w_paths w"
  "w_listening (fold (\<lambda>x. plugin_emit p (l x) (m x) (a x)) xs w) = w_listening w"
  "w_registered (fold (\<lambda>x. plugin_emit p (l x) (m x) (a x)) xs w) = w_registered w"
  "w_fault (fold (\<lambda>x. plugin_emit p (l x) (m x) (a x)) xs w) = w_fault w"
  by (induction xs arbitrary: w) (simp_all add: world_simps)

lemma log_registered_fields [world_simps]:
  "w_paths (log_registered api p w) = w_paths w" "w_listening (log_registered api p w) = w_listening w"
  "w_registered (log_registered api p w) = w_registered w" "w_fault (log_registered api p w) = w_fault w"
  by (simp_all add: log_registered_def Let_def split_beta world_simps)

lemma close_connection_fields [world_simps]:
  "w_paths (close_connection p w) = w_paths w" "w_listening (close_connection p w) = w_listening w"
  "w_registered (close_connection p w) = w_registered w" "w_fault (close_connection p w) = w_fault w"
  by (auto simp: close_connection_def sys_tick_def world_simps split: option.split)

section \<open>Stop\<close>

definition stopped :: "resourcePlugin \<Rightarrow> world \<Rightarrow> bool" where
  "stopped p w \<longleftrightarrow> p_stopCh p \<and> p_socketPath p \<notin> set (w_listening w)"

definition serving :: "resourcePlugin \<Rightarrow> world \<Rightarrow> bool" where
  "serving p w \<longleftrightarrow> \<not> p_stopCh p \<and> p_server p \<and> p_listener p
     \<and> p_socketPath p \<in> set (w_listening w) \<and> p_socketPath p \<in> set (w_paths w)"

lemma plugin_Stop_cases:
  assumes "plugin_Stop p w = (r, p', w')"
  shows "p' = p\<lparr>p_stopCh := True\<rparr>"
    "p_server p \<or> p_listener p \<or> p_socketPath p \<notin> set (w_listening w) \<Longrightarrow>
      set (w_listening w') = set (w_listening w) - {p_socketPath p}"
    "q \<noteq> p_socketPath p \<Longrightarrow> q \<in> set (w_listening w') \<longleftrightarrow> q \<in> set (w_listening w)"
    "q \<noteq> p_socketPath p \<Longrightarrow> q \<in> set (w_paths w') \<longleftrightarrow> q \<in> set (w_paths w)"
    "w_registered w' = w_registered w" "w_logs w' = w_logs w" "w_fault w' = w_fault w"
    "r = None \<Longrightarrow> p_socketPath p \<notin> set (w_paths w')" "r \<noteq> Some NotExist"
proof -
  let ?w1 = "if p_server p then listener_close (p_socketPath p) w else w"
  let ?w2 = "if p_listener p then listener_close (p_socketPath p) ?w1 else ?w1"
  have eq: "p' = p\<lparr>p_stopCh := True\<rparr>" "w' = snd (os_remove (p_socketPath p) ?w2)"
    "r = (if fst (os_remove (p_socketPath p) ?w2) = Some NotExist then None
          else fst (os_remove (p_socketPath p) ?w2))"
    using assms by (auto simp: plugin_Stop_def Let_def split: prod.splits option.splits if_splits)
  show "p' = p\<lparr>p_stopCh := True\<rparr>" by (rule eq)
  show "p_server p \<or> p_listener p \<or> p_socketPath p \<notin> set (w_listening w) \<Longrightarrow>
      set (w_listening w') = set (w_listening w) - {p_socketPath p}"
    unfolding eq by (auto simp: world_simps)
  show "q \<noteq> p_socketPath p \<Longrightarrow> q \<in> set (w_listening w') \<longleftrightarrow> q \<in> set (w_listening w)"
    "q \<noteq> p_socketPath p \<Longrightarrow> q \<in> set (w_paths w') \<longleftrightarrow> q \<in> set (w_paths w)"
    "w_registered w' = w_registered w" "w_logs w' = w_logs w" "w_fault w' = w_fault w"
    unfolding eq by (auto simp: world_simps)
  show "r = None \<Longrightarrow> p_socketPath p \<notin> set (w_paths w')"
    using os_remove_gone [of "p_socketPath p" ?w2] by (auto simp: eq(2,3) split: if_splits)
  show "r \<noteq> Some NotExist" by (simp add: eq(3))
qed

section \<open>Registration\<close>

lemma plugin_register_cases:
  assumes "plugin_register api p w = (r, w')"
  shows "w_paths w' = w_paths w" "w_listening w' = w_listening w" "w_fault w' = w_fault w"
    "w_registered w' = w_registered w @ (if r = None then [register_request_of api p] else [])"
proof -
  obtain e w1 where t: "sys_tick w = (e, w1)" by fastforce
  obtain e2 w2 where k: "kubelet_register (register_request_of api p) w1 = (e2, w2)" by fastforce
  show "w_paths w' = w_paths w" "w_listening w' = w_listening w" "w_fault w' = w_fault w"
    "w_registered w' = w_registered w @ (if r = None then [register_request_of api p] else [])"
    using assms sys_tick_fields [of w] kubelet_register_fields [of "register_request_of api p" w1]
      kubelet_register_registered [of "register_request_of api p" w1]
    by (auto simp: plugin_register_def t k world_simps split: option.splits)
qed

section \<open>Start\<close>

lemma plugin_Start_cases:
  assumes "plugin_Start api p w = (r, p', w')" "\<not> p_stopCh p"
  shows "r = None \<Longrightarrow> p' = p\<lparr>p_listener := True, p_server := True\<rparr> \<and> serving p' w'
      \<and> w_registered w' = w_registered w @ [register_request_of api p]"
    "r \<noteq> None \<Longrightarrow> w_registered w' = w_registered w"
    "r \<noteq> None \<Longrightarrow> p_socketPath p \<notin> set (w_listening w) \<Longrightarrow> p_socketPath p \<notin> set (w_listening w')"
    "q \<noteq> p_socketPath p \<Longrightarrow> q \<in> set (w_listening w') \<longleftrightarrow> q \<in> set (w_listening w)"
    "q \<noteq> p_socketPath p \<Longrightarrow> q \<in> set (w_paths w') \<longleftrightarrow> q \<in> set (w_paths w)"
proof -
  let ?p1 = "p\<lparr>p_listener := True, p_server := True\<rparr>"
  obtain e0 w0 where t: "sys_tick w = (e0, w0)" by fastforce
  obtain e1 w1 where rm: "os_remove (p_socketPath p) w0 = (e1, w1)" by fastforce
  obtain e2 w2 where ls: "net_listen (p_socketPath p) w1 = (e2, w2)" by fastforce
  obtain e3 w3 where rg: "plugin_register api ?p1 w2 = (e3, w3)" by fastforce
  obtain e4 p4 w4 where st: "plugin_Stop ?p1 w3 = (e4, p4, w4)" by (metis prod_cases3)
  note tick = sys_tick_fields [of w, unfolded t, simplified]
  note remove = os_remove_fields [of "p_socketPath p" w0, unfolded rm, simplified]
    os_remove_other [of _ "p_socketPath p" w0, unfolded rm, simplified]
  note listen = net_listen_fields [of "p_socketPath p" w1, unfolded ls, simplified]
    net_listen_listening [of "p_socketPath p" w1, unfolded ls, simplified]
  note register = plugin_register_cases [OF rg]
  have stop: "set (w_listening w4) = set (w_listening w3) - {p_socketPath p}"
    "w_registered w4 = w_registered w3"
    "q \<noteq> p_socketPath p \<Longrightarrow> q \<in> set (w_paths w4) \<longleftrightarrow> q \<in> set (w_paths w3)" for q
    using plugin_Stop_cases [OF st] by simp_all
  have req: "register_request_of api ?p1 = register_request_of api p"
    by (simp add: register_request_of_def)
  consider (mkdir_err) err where "r = Some (MkdirFailed err)" "w' = w0"
    | (remove_err) err where "r = Some (RemoveFailed err)" "w' = w1"
    | (listen_err) err where "r = Some (ListenFailed (p_socketPath p) err)" "e2 = Some err" "w' = w2"
    | (register_err) err where "e2 = None" "e3 = Some err" "r = Some err" "w' = w4"
    | (ok) "e2 = None" "e3 = None" "r = None" "p' = ?p1" "w' = w3"
  proof -
    note run = assms(1) [unfolded plugin_Start_def t rm prod.case]
    show ?thesis
    proof (cases e0)
      case (Some err)
      with run show ?thesis by (intro mkdir_err [of err]) auto
    next
      case None
      show ?thesis
      proof (cases "e1 \<noteq> None \<and> e1 \<noteq> Some NotExist")
        case True
        with run None show ?thesis by (intro remove_err [of "the e1"]) auto
      next
        case False
        note run1 = run [unfolded None option.case if_not_P [OF False] ls prod.case]
        show ?thesis
        proof (cases e2)
          case (Some err)
          with run1 show ?thesis by (intro listen_err [of err]) auto
        next
          case e2: None
          note run2 = run1 [unfolded e2 option.case Let_def rg prod.case]
          show ?thesis
          proof (cases e3)
            case (Some err)
            with run2 e2 show ?thesis by (intro register_err [of err]) (auto simp: st)
          next
            case None
            with run2 e2 show ?thesis by (intro ok) auto
          qed
        qed
      qed
    qed
  qed
  then have "(r = None \<longrightarrow> p' = ?p1 \<and> serving p' w'
        \<and> w_registered w' = w_registered w @ [register_request_of api p])
      \<and> (r \<noteq> None \<longrightarrow> w_registered w' = w_registered w
        \<and> (p_socketPath p \<notin> set (w_listening w) \<longrightarrow> p_socketPath p \<notin> set (w_listening w')))
      \<and> (\<forall>q. q \<noteq> p_socketPath p \<longrightarrow> (q \<in> set (w_listening w') \<longleftrightarrow> q \<in> set (w_listening w))
          \<and> (q \<in> set (w_paths w') \<longleftrightarrow> q \<in> set (w_paths w)))"
  proof cases
    case mkdir_err
    then show ?thesis using tick by simp
  next
    case remove_err
    then show ?thesis using tick remove by simp
  next
    case listen_err
    then show ?thesis using tick remove listen by simp
  next
    case register_err
    then show ?thesis using tick remove listen register stop by simp
  next
    case ok
    then show ?thesis using tick remove listen register req assms(2) by (simp add: serving_def)
  qed
  then show "r = None \<Longrightarrow> p' = ?p1 \<and> serving p' w'
      \<and> w_registered w' = w_registered w @ [register_request_of api p]"
    "r \<noteq> None \<Longrightarrow> w_registered w' = w_registered w"
    "r \<noteq> None \<Longrightarrow> p_socketPath p \<notin> set (w_listening w) \<Longrightarrow> p_socketPath p \<notin> set (w_listening w')"
    "q \<noteq> p_socketPath p \<Longrightarrow> q \<in> set (w_listening w') \<longleftrightarrow> q \<in> set (w_listening w)"
    "q \<noteq> p_socketPath p \<Longrightarrow> q \<in> set (w_paths w') \<longleftrightarrow> q \<in> set (w_paths w)"
    by blast+
qed

end
