(* ===== verification/PluginUpdate.thy ===== *)
theory PluginUpdate imports PluginFacts begin

text \<open>
  Properties of the plugin lifecycle and of \<open>UpdateDevices\<close>: registration, stopping, the
  newest-wins channel and the log of inventory changes.
\<close>

section \<open>Lifecycle\<close>

text \<open>
  C24: starting a plugin is all or nothing towards the kubelet.  If \<open>Start\<close> returns no error
  the plugin serves on its socket and the kubelet has received exactly one registration, for this
  resource and the base name of this socket; on any error the kubelet has received none and nothing
  listens on the socket.  No other socket is touched in either case.
\<close>

theorem plugin_start_all_or_nothing:
  assumes "\<not> p_stopCh p" "p_socketPath p \<notin> set (w_listening w)"
  shows "case plugin_Start api p w of (r, p', w') \<Rightarrow>
    (case r of
       None \<Rightarrow> serving p' w' \<and> w_registered w' = w_registered w @ [register_request_of api p]
     | Some err \<Rightarrow> w_registered w' = w_registered w \<and> p_socketPath p \<notin> set (w_listening w'))
    \<and> set (w_listening w') - {p_socketPath p} = set (w_listening w) - {p_socketPath p}
    \<and> set (w_paths w') - {p_socketPath p} = set (w_paths w) - {p_socketPath p}"
proof -
  obtain r p' w' where run: "plugin_Start api p w = (r, p', w')" by (metis prod_cases3)
  note c = plugin_Start_cases [OF run assms(1)]
  have "set (w_listening w') - {p_socketPath p} = set (w_listening w) - {p_socketPath p}"
    "set (w_paths w') - {p_socketPath p} = set (w_paths w) - {p_socketPath p}"
    using c(4,5) by blast+
  with c(1-3) assms(2) show ?thesis unfolding run by (cases r) auto
qed

definition sample_plugin :: resourcePlugin where
  "sample_plugin = NewResourcePlugin ''rebellions.ai/npu'' ''/var/lib/kubelet/device-plugins/npu.sock''
     ''/var/lib/kubelet/device-plugins/kubelet.sock'' (Some \<lparr>cdi_root = ''/var/run/cdi''\<rparr>) delta_before"

definition register_fails_world :: world where
  "register_fails_world = empty_world\<lparr>w_fault := (\<lambda>n. if n = 4 then Some ''connection refused'' else None)\<rparr>"

theorem plugin_start_all_or_nothing_witness:
  "p_socketPath sample_plugin \<notin>
     set (w_listening (snd (snd (plugin_Start sample_api sample_plugin register_fails_world))))
   \<and> fst (plugin_Start sample_api sample_plugin empty_world) = None
   \<and> length (w_registered (snd (snd (plugin_Start sample_api sample_plugin empty_world)))) = 1"
proof -
  have s: "\<not> p_stopCh sample_plugin" "p_socketPath sample_plugin \<notin> set (w_listening empty_world)"
    "p_socketPath sample_plugin \<notin> set (w_listening register_fails_world)"
    by (simp_all add: sample_plugin_def NewResourcePlugin_def empty_world_def register_fails_world_def)
  have fail: "fst (plugin_Start sample_api sample_plugin register_fails_world)
      = Some (RegisterFailed ''rebellions.ai/npu'' (FsError ''connection refused''))"
    and ok: "fst (plugin_Start sample_api sample_plugin empty_world) = None" by code_simp+
  show ?thesis
    using plugin_start_all_or_nothing [OF s(1,3), of sample_api] fail
      plugin_start_all_or_nothing [OF s(1,2), of sample_api] ok
    by (auto simp: split_beta empty_world_def)
qed

text \<open>
  Stopping a plugin is effective and can be repeated.  After \<open>Stop\<close> nothing listens on the
  plugin's socket, even when \<open>Stop\<close> reports an error, and if it reports none the socket file
  is gone; no other socket, no registration and no log record changes; and a second \<open>Stop\<close>
  leaves plugin and sockets as they are.
\<close>

theorem plugin_stop_effective:
  assumes "p_server p \<or> p_listener p \<or> p_socketPath p \<notin> set (w_listening w)"
  shows "case plugin_Stop p w of (r, p1, w1) \<Rightarrow>
    stopped p1 w1
    \<and> set (w_listening w1) = set (w_listening w) - {p_socketPath p}
    \<and> set (w_paths w1) - {p_socketPath p} = set (w_paths w) - {p_socketPath p}
    \<and> w_registered w1 = w_registered w \<and> w_logs w1 = w_logs w
    \<and> (case r of Some _ \<Rightarrow> True | None \<Rightarrow> p_socketPath p \<notin> set (w_paths w1))
    \<and> (case plugin_Stop p1 w1 of (_, p2, w2) \<Rightarrow> p2 = p1 \<and> set (w_listening w2) = set (w_listening w1))"
proof -
  obtain r p1 w1 where run: "plugin_Stop p w = (r, p1, w1)" by (metis prod_cases3)
  obtain r2 p2 w2 where again: "plugin_Stop p1 w1 = (r2, p2, w2)" by (metis prod_cases3)
  note c = plugin_Stop_cases [OF run]
  have "set (w_listening w2) = set (w_listening w1) - {p_socketPath p1}"
    by (rule plugin_Stop_cases(2) [OF again]) (simp add: c(1) c(2) [OF assms])
  then have "p2 = p1 \<and> set (w_listening w2) = set (w_listening w1)"
    using plugin_Stop_cases(1) [OF again] c(1) c(2) [OF assms] by simp
  moreover have "stopped p1 w1" using c(1) c(2) [OF assms] by (simp add: stopped_def)
  moreover have "set (w_paths w1) - {p_socketPath p} = set (w_paths w) - {p_socketPath p}"
    using c(4) by blast
  ultimately show ?thesis
    unfolding run using c(2) [OF assms] c(5,6,8) by (simp add: again split: option.split)
qed

theorem plugin_stop_effective_witness:
  "p_socketPath sample_plugin \<in>
     set (w_listening (snd (snd (plugin_Start sample_api sample_plugin empty_world))))
   \<and> (case plugin_Start sample_api sample_plugin empty_world of (_, p, w) \<Rightarrow>
        case plugin_Stop p w of (_, p1, w1) \<Rightarrow> stopped p1 w1)"
proof -
  obtain r p w where run: "plugin_Start sample_api sample_plugin empty_world = (r, p, w)"
    by (metis prod_cases3)
  obtain e p1 w1 where stop: "plugin_Stop p w = (e, p1, w1)" by (metis prod_cases3)
  have "p_server (fst (snd (plugin_Start sample_api sample_plugin empty_world)))"
    and here: "p_socketPath sample_plugin \<in>
      set (w_listening (snd (snd (plugin_Start sample_api sample_plugin empty_world))))" by code_simp+
  then have "p_server p \<or> p_listener p \<or> p_socketPath p \<notin> set (w_listening w)" by (simp add: run)
  from plugin_stop_effective [OF this] here show ?thesis by (simp add: run stop)
qed

section \<open>The update channel\<close>

lemma push_update_newest: "length ch \<le> 1 \<Longrightarrow> push_update x ch = Some [x]"
  by (cases ch) (auto simp: push_update_def chan_send_def chan_recv_def updateCh_cap_def)

interpretation updates: newest_mailbox push_update chan_recv "\<lambda>ch. length ch \<le> 1"
proof unfold_locales
  show "\<exists>c'. push_update x c = Some c' \<and> length c' \<le> 1" if "length c \<le> 1" for x c
    using push_update_newest [OF that] by simp
  show "\<exists>c''. chan_recv c' = Some (x, c'') \<and> chan_recv c'' = None"
    if "length c \<le> 1" "push_update x c = Some c'" for x c c'
    using push_update_newest [OF that(1), of x] that(2) by (auto simp: chan_recv_def)
qed

fun update_sequence ::
    "kubelet_api \<Rightarrow> npuDevice go_map list \<Rightarrow> resourcePlugin \<Rightarrow> world \<Rightarrow> (resourcePlugin \<times> world) option"
  where
  "update_sequence api [] p w = Some (p, w)"
| "update_sequence api (ds # dss) p w =
     Option.bind (UpdateDevices api ds p w) (\<lambda>(p, w). update_sequence api dss p w)"

lemma UpdateDevices_total:
  "length (p_updateCh p) \<le> 1 \<Longrightarrow>
     \<exists>w'. UpdateDevices api ds p w
       = Some (p\<lparr>p_devices := ds, p_updateCh := [clonePluginDevices api ds]\<rparr>, w')"
  using push_update_newest [of "p_updateCh p"] by (simp add: UpdateDevices_def Let_def split_beta)

lemma UpdateDevices_channel:
  "map_option (\<lambda>(p, w). p_updateCh p) (UpdateDevices api ds p w)
     = push_update (clonePluginDevices api ds) (p_updateCh p)"
  by (simp add: UpdateDevices_def Let_def split_beta option.map_comp comp_def option.map_ident)

lemma UpdateDevices_devices:
  "UpdateDevices api ds p w = Some (p', w') \<Longrightarrow> \<exists>ch. p' = p\<lparr>p_devices := ds, p_updateCh := ch\<rparr>"
  by (auto simp: UpdateDevices_def Let_def split_beta)

lemma update_sequence_channel:
  "map_option (\<lambda>(p, w). p_updateCh p) (update_sequence api dss p w)
     = updates.put_all (map (clonePluginDevices api) dss) (p_updateCh p)"
proof (induction dss arbitrary: p w)
  case (Cons ds dss)
  have "map_option (\<lambda>(p, w). p_updateCh p) (update_sequence api (ds # dss) p w)
      = Option.bind (UpdateDevices api ds p w)
          (\<lambda>(p, w). updates.put_all (map (clonePluginDevices api) dss) (p_updateCh p))"
    by (cases "UpdateDevices api ds p w") (auto simp: Cons.IH)
  also have "\<dots> = Option.bind (map_option (\<lambda>(p, w). p_updateCh p) (UpdateDevices api ds p w))
      (updates.put_all (map (clonePluginDevices api) dss))"
    by (cases "UpdateDevices api ds p w") auto
  finally show ?case by (simp add: UpdateDevices_channel)
qed simp

lemma update_sequence_devices:
  "update_sequence api dss p w = Some (p', w') \<Longrightarrow>
     p_devices p' = (if dss = [] then p_devices p else last dss)"
proof (induction dss arbitrary: p w)
  case (Cons ds dss)
  then obtain q v where q: "UpdateDevices api ds p w = Some (q, v)"
    "update_sequence api dss q v = Some (p', w')" by (auto simp: bind_eq_Some_conv)
  have "p_devices q = ds" using UpdateDevices_devices [OF q(1)] by auto
  with Cons.IH [OF q(2)] show ?case by simp
qed simp

text \<open>
  C25: updates never block and the newest one wins.  Any sequence of inventory updates on a plugin
  whose channel holds at most one list runs to its end, and the channel then yields exactly one
  list, the one of the last inventory.
\<close>

theorem updates_newest_wins:
  assumes "length (p_updateCh p) \<le> 1" "dss \<noteq> []"
  shows "\<exists>p' w'. update_sequence api dss p w = Some (p', w') \<and> p_devices p' = last dss
    \<and> chan_recv (p_updateCh p') = Some (clonePluginDevices api (last dss), [])"
proof -
  obtain c' c'' where c: "updates.put_all (map (clonePluginDevices api) dss) (p_updateCh p) = Some c'"
    "chan_recv c' = Some (last (map (clonePluginDevices api) dss), c'')" "chan_recv c'' = None"
    using updates.get_newest [OF assms(1), of "map (clonePluginDevices api) dss"] assms(2) by auto
  obtain p' w' where run: "update_sequence api dss p w = Some (p', w')" "p_updateCh p' = c'"
    using update_sequence_channel [of api dss p w] c(1) by auto
  have "c'' = []" using c(3) by (cases c'') (auto simp: chan_recv_def)
  with run c(2) update_sequence_devices [OF run(1)] assms(2) show ?thesis by (auto simp: last_map)
qed

theorem updates_newest_wins_witness:
  "\<exists>p' w'. update_sequence sample_api [delta_after, delta_before, delta_after] sample_plugin empty_world
       = Some (p', w')
     \<and> chan_recv (p_updateCh p') = Some (clonePluginDevices sample_api delta_after, [])"
proof -
  have "length (p_updateCh sample_plugin) \<le> 1"
    by (simp add: sample_plugin_def NewResourcePlugin_def)
  from updates_newest_wins [OF this, of "[delta_after, delta_before, delta_after]" sample_api empty_world]
  show ?thesis by auto
qed

section \<open>The log of changes\<close>

text \<open>A log record of an update: the resource, the counts of the new inventory, the specifics.\<close>

definition update_record ::
    "kubelet_api \<Rightarrow> resourcePlugin \<Rightarrow> npuDevice go_map \<Rightarrow> slog_level \<Rightarrow> string \<Rightarrow> log_attrs \<Rightarrow> log_record"
  where
  "update_record api p ds level msg attrs =
     \<lparr>lr_level = level, lr_msg = msg,
      lr_attrs = [(''resourceName'', LString (p_resourceName p)), (''deviceCount'', LInt (int (length ds))),
        (''healthyCount'', LInt (fst (healthCounts api ds))),
        (''unhealthyCount'', LInt (snd (healthCounts api ds)))] @ attrs\<rparr>"

lemma fold_plugin_emit_logs:
  "w_logs (fold (\<lambda>x. plugin_emit p (l x) (m x) (a x)) xs w) =
     w_logs w @ map (\<lambda>x. \<lparr>lr_level = l x, lr_msg = m x,
       lr_attrs = (''resourceName'', LString (p_resourceName p)) # a x\<rparr>) xs"
  by (induction xs arbitrary: w) (simp_all add: plugin_emit_def emit_def)

lemma logInventoryDelta_logs:
  "w_logs (logInventoryDelta api p delta (fst (healthCounts api ds)) (snd (healthCounts api ds)) w)
     = w_logs w
       @ map (\<lambda>d. update_record api p ds (levelForHealth api (Health d))
            ''Device appeared in inventory'' (deviceLogAttrs d)) (Added delta)
       @ map (\<lambda>i. update_record api p ds LevelWarn
            ''Device disappeared from inventory; it is no longer allocatable'' [(''device'', LString i)])
          (Removed delta)
       @ map (\<lambda>c. update_record api p ds (levelForHealth api (Health (change_Device c)))
            ''Device state changed''
            (deviceLogAttrs (change_Device c) @ [(''previousHealth'', LString (PreviousHealth c)),
               (''previousStatus'', LString (PreviousStatus c))])) (Changed delta)"
  by (auto simp: logInventoryDelta_def isEmpty_def Let_def log_with_def fold_plugin_emit_logs
      update_record_def healthCounts_sum)

text \<open>
  C26: the log tells every change of the inventory once and nothing else.  An update appends one
  record per device that appeared, disappeared or changed, in that order and sorted by identifier,
  each with the resource and the counts of the new inventory, at warning level when the device is
  gone or unhealthy now; and it appends none exactly when health and status of all devices are as
  before.
\<close>

theorem update_log_exact:
  assumes "UpdateDevices api ds p w = Some (p', w')"
  shows "\<exists>recs. w_logs w' = w_logs w @ recs
    \<and> recs = map (\<lambda>d. update_record api p ds (levelForHealth api (Health d))
            ''Device appeared in inventory'' (deviceLogAttrs d))
          (map (device_at ds) (filter (\<lambda>i. map_of (p_devices p) i = None) (sortedDeviceIDs ds)))
        @ map (\<lambda>i. update_record api p ds LevelWarn
            ''Device disappeared from inventory; it is no longer allocatable'' [(''device'', LString i)])
          (filter (\<lambda>i. map_of ds i = None) (sortedDeviceIDs (p_devices p)))
        @ map (\<lambda>i. update_record api p ds (levelForHealth api (Health (device_at ds i)))
            ''Device state changed''
            (deviceLogAttrs (device_at ds i)
              @ [(''previousHealth'', LString (Health (device_at (p_devices p) i))),
                 (''previousStatus'', LString (StatusName (device_at (p_devices p) i)))]))
          (filter (has_changed (p_devices p) ds) (sortedDeviceIDs ds))
    \<and> (recs = [] \<longleftrightarrow> reported (p_devices p) = reported ds)"
proof -
  let ?delta = "diffDeviceInventories (p_devices p) ds"
  have "w_logs w' = w_logs (logInventoryDelta api (p\<lparr>p_devices := ds\<rparr>) ?delta
      (fst (healthCounts api ds)) (snd (healthCounts api ds)) w)"
    using assms by (auto simp: UpdateDevices_def Let_def split_beta)
  moreover have "update_record api (p\<lparr>p_devices := ds\<rparr>) = update_record api p"
    by (intro ext) (simp add: update_record_def)
  ultimately show ?thesis
    unfolding logInventoryDelta_logs diff_isEmpty [symmetric] isEmpty_def
    by (auto simp: diff_fields state_change_def comp_def)
qed

theorem update_log_exact_witness:
  "\<exists>p' w'. UpdateDevices sample_api delta_after sample_plugin empty_world = Some (p', w')
     \<and> w_logs w' \<noteq> w_logs empty_world"
proof -
  obtain p' w' where run: "UpdateDevices sample_api delta_after sample_plugin empty_world = Some (p', w')"
    using push_update_newest [of "p_updateCh sample_plugin"]
    by (auto simp: UpdateDevices_def Let_def split_beta sample_plugin_def NewResourcePlugin_def)
  have "reported (p_devices sample_plugin) ''rbln0'' \<noteq> reported delta_after ''rbln0''" by code_simp
  then have "reported (p_devices sample_plugin) \<noteq> reported delta_after" by metis
  with update_log_exact [OF run] show ?thesis using run by fastforce
qed

end
