(* ===== verification/Locking.thy ===== *)
theory Locking imports Allocation Preferred PluginUpdate begin

text \<open>
  The lock of a resource plugin: the handlers of \<open>Allocate\<close>, \<open>GetPreferredAllocation\<close> and
  \<open>ListAndWatch\<close> read the device map under \<open>mu.RLock\<close>, one element at a time, while
  \<open>UpdateDevices\<close> replaces it under \<open>mu.Lock\<close>.  Every access to the map is a step of its own, and any
  number of handlers runs beside any number of updates: the plugin's lock alone orders them (the manager, which
  also holds its own lock while it reconciles, calls one update at a time).  \<open>sync.RWMutex\<close> is its number
  of readers and its writer flag.
\<close>

section \<open>Steps\<close>

datatype read_task = Selected "string list" | Available "string list" | Current

datatype read_result =
    SelectedResult "(alloc_error, npuDevice list) go_result"
  | AvailableResult "(select_error, npuDevice go_map) go_result"
  | CurrentResult "pluginDevice list"

text \<open>A handler before \<open>RLock\<close>, in its loop, before its deferred \<open>RUnlock\<close>, and after it.\<close>

datatype read_pc =
    ReadStart read_task
  | ReadSelect "string list" "npuDevice list"
  | ReadAvailable "string list" "npuDevice go_map"
  | ReadClone
  | ReadReturn read_result
  | ReadDone read_result

text \<open>An update before \<open>Lock\<close>, between its statements, and after \<open>Unlock\<close>.\<close>

datatype update_pc =
    UpdateStart "npuDevice go_map"
  | UpdateLocked "npuDevice go_map"
  | UpdateDiffed "npuDevice go_map" deviceInventoryDelta
  | UpdateStored deviceInventoryDelta
  | UpdateCloned deviceInventoryDelta "pluginDevice list"
  | UpdateCounted deviceInventoryDelta "pluginDevice list" "int \<times> int"
  | UpdateUnlocked deviceInventoryDelta "pluginDevice list" "int \<times> int"

record locked_plugin =
  lp_name :: string
  lp_devices :: "npuDevice go_map"
  lp_readers :: nat
  lp_writer :: bool
  lp_handlers :: "read_pc list"
  lp_updates :: "update_pc list"

fun read_begin :: "read_task \<Rightarrow> read_pc" where
  "read_begin (Selected ids) = ReadSelect ids []"
| "read_begin (Available ids) = ReadAvailable ids []"
| "read_begin Current = ReadClone"

fun read_step :: "kubelet_api \<Rightarrow> string \<Rightarrow> npuDevice go_map \<Rightarrow> read_pc \<Rightarrow> read_pc" where
  "read_step api name devices (ReadSelect [] selected) = ReadReturn (SelectedResult (Inr selected))"
| "read_step api name devices (ReadSelect (i # ids) selected) =
     (case map_of devices i of
        None \<Rightarrow> ReadReturn (SelectedResult (Inl (NotManaged name i)))
      | Some device \<Rightarrow> ReadSelect ids (selected @ [device]))"
| "read_step api name devices (ReadAvailable [] available) = ReadReturn (AvailableResult (Inr available))"
| "read_step api name devices (ReadAvailable (i # ids) available) =
     (if map_of available i \<noteq> None then ReadAvailable ids available
      else (case map_of devices i of
              None \<Rightarrow> ReadReturn (AvailableResult (Inl (UnmanagedDevice name i)))
            | Some device \<Rightarrow> ReadAvailable ids (AList.update i device available)))"
| "read_step api name devices ReadClone = ReadReturn (CurrentResult (clonePluginDevices api devices))"
| "read_step api name devices pc = pc"

definition handler_act :: "kubelet_api \<Rightarrow> nat \<Rightarrow> locked_plugin \<Rightarrow> locked_plugin option" where
  "handler_act api i s =
     (if i < length (lp_handlers s) then
        (case lp_handlers s ! i of
           ReadStart task \<Rightarrow>
             if lp_writer s then None
             else Some (s\<lparr>lp_readers := lp_readers s + 1, lp_handlers := (lp_handlers s)[i := read_begin task]\<rparr>)
         | ReadReturn r \<Rightarrow>
             Some (s\<lparr>lp_readers := lp_readers s - 1, lp_handlers := (lp_handlers s)[i := ReadDone r]\<rparr>)
         | ReadDone r \<Rightarrow> None
         | pc \<Rightarrow> Some (s\<lparr>lp_handlers :=
             (lp_handlers s)[i := read_step api (lp_name s) (lp_devices s) pc]\<rparr>))
      else None)"

definition update_begin :: "nat \<Rightarrow> locked_plugin \<Rightarrow> locked_plugin option" where
  "update_begin j s =
     (if j < length (lp_updates s) then
        (case lp_updates s ! j of
           UpdateStart devices \<Rightarrow>
             if lp_writer s \<or> lp_readers s > 0 then None
             else Some (s\<lparr>lp_writer := True, lp_updates := (lp_updates s)[j := UpdateLocked devices]\<rparr>)
         | _ \<Rightarrow> None)
      else None)"

definition update_act :: "kubelet_api \<Rightarrow> nat \<Rightarrow> locked_plugin \<Rightarrow> locked_plugin option" where
  "update_act api j s =
     (if j < length (lp_updates s) then
        (case lp_updates s ! j of
           UpdateStart devices \<Rightarrow> None
         | UpdateLocked devices \<Rightarrow>
             Some (s\<lparr>lp_updates := (lp_updates s)
               [j := UpdateDiffed devices (diffDeviceInventories (lp_devices s) devices)]\<rparr>)
         | UpdateDiffed devices delta \<Rightarrow>
             Some (s\<lparr>lp_devices := cloneDeviceMap devices, lp_updates := (lp_updates s)[j := UpdateStored delta]\<rparr>)
         | UpdateStored delta \<Rightarrow>
             Some (s\<lparr>lp_updates := (lp_updates s)
               [j := UpdateCloned delta (clonePluginDevices api (lp_devices s))]\<rparr>)
         | UpdateCloned delta current \<Rightarrow>
             Some (s\<lparr>lp_updates := (lp_updates s)
               [j := UpdateCounted delta current (healthCounts api (lp_devices s))]\<rparr>)
         | UpdateCounted delta current counts \<Rightarrow>
             Some (s\<lparr>lp_writer := False, lp_updates := (lp_updates s)[j := UpdateUnlocked delta current counts]\<rparr>)
         | UpdateUnlocked delta current counts \<Rightarrow> None)
      else None)"

datatype lock_action = Handler nat | UpdateBegin nat | UpdateStep nat

fun lock_act :: "kubelet_api \<Rightarrow> lock_action \<Rightarrow> locked_plugin \<Rightarrow> locked_plugin option" where
  "lock_act api (Handler i) s = handler_act api i s"
| "lock_act api (UpdateBegin j) s = update_begin j s"
| "lock_act api (UpdateStep j) s = update_act api j s"

fun lock_run :: "kubelet_api \<Rightarrow> lock_action list \<Rightarrow> locked_plugin \<Rightarrow> locked_plugin option" where
  "lock_run api [] s = Some s"
| "lock_run api (a # as) s = Option.bind (lock_act api a s) (lock_run api as)"

definition lock_init ::
    "string \<Rightarrow> npuDevice go_map \<Rightarrow> read_task list \<Rightarrow> npuDevice go_map list \<Rightarrow> locked_plugin" where
  "lock_init name devices tasks updates =
     \<lparr>lp_name = name, lp_devices = devices, lp_readers = 0, lp_writer = False,
      lp_handlers = map ReadStart tasks, lp_updates = map UpdateStart updates\<rparr>"

text \<open>
  The updates in the order in which they took the lock, and the map that running them one after the other in
  that order leaves.
\<close>

fun begun :: "lock_action list \<Rightarrow> nat list" where
  "begun [] = []"
| "begun (UpdateBegin j # acts) = j # begun acts"
| "begun (a # acts) = begun acts"

definition installed :: "npuDevice go_map list \<Rightarrow> npuDevice go_map \<Rightarrow> lock_action list \<Rightarrow> npuDevice go_map" where
  "installed updates devices acts = foldl (\<lambda>m j. cloneDeviceMap (updates ! j)) devices (begun acts)"

text \<open>What a handler computes on a map that does not change.\<close>

definition task_result :: "kubelet_api \<Rightarrow> string \<Rightarrow> npuDevice go_map \<Rightarrow> read_task \<Rightarrow> read_result" where
  "task_result api name devices task =
     (case task of
        Selected ids \<Rightarrow> SelectedResult (select_loop name devices ids [])
      | Available ids \<Rightarrow> AvailableResult (available_loop name devices ids [])
      | Current \<Rightarrow> CurrentResult (clonePluginDevices api devices))"

section \<open>The lock\<close>

fun holds :: "read_pc \<Rightarrow> bool" where
  "holds (ReadStart task) \<longleftrightarrow> False"
| "holds (ReadDone r) \<longleftrightarrow> False"
| "holds _ \<longleftrightarrow> True"

fun writing :: "update_pc \<Rightarrow> bool" where
  "writing (UpdateStart devices) \<longleftrightarrow> False"
| "writing (UpdateUnlocked delta current counts) \<longleftrightarrow> False"
| "writing _ \<longleftrightarrow> True"

definition lock_inv :: "locked_plugin \<Rightarrow> bool" where
  "lock_inv s \<longleftrightarrow> length (filter writing (lp_updates s)) = (if lp_writer s then 1 else 0)
     \<and> lp_readers s = length (filter holds (lp_handlers s)) \<and> (lp_writer s \<longrightarrow> lp_readers s = 0)"

lemma holds_begin [simp]: "holds (read_begin task)"
  by (cases task) simp_all

lemma holds_step: "holds pc \<Longrightarrow> holds (read_step api name devices pc)"
  by (induction api name devices pc rule: read_step.induct) (simp_all split: option.split)

lemma read_step_started [simp]: "holds pc \<Longrightarrow> read_step api name devices pc \<noteq> ReadStart task"
  using holds_step [of pc api name devices] by auto

lemma filter_update_length:
  "i < length xs \<Longrightarrow> length (filter P (xs[i := x])) + (if P (xs ! i) then 1 else 0)
     = length (filter P xs) + (if P x then 1 else 0)"
proof (induction xs arbitrary: i)
  case (Cons y xs)
  then show ?case by (cases i) auto
qed simp

lemma holders_update:
  "i < length pcs \<Longrightarrow> length (filter holds (pcs[i := pc])) + (if holds (pcs ! i) then 1 else 0)
     = length (filter holds pcs) + (if holds pc then 1 else 0)"
  by (rule filter_update_length)

lemma handler_act_inv:
  assumes "handler_act api i s = Some t" "lock_inv s"
  shows "lock_inv t"
proof -
  have i: "i < length (lp_handlers s)" using assms(1) by (auto simp: handler_act_def split: if_splits)
  note u = holders_update [OF i]
  show ?thesis
  proof (cases "holds (lp_handlers s ! i)")
    case True
    then have "\<not> lp_writer s" using assms(2) i u [of "ReadStart Current"] by (auto simp: lock_inv_def)
    then show ?thesis
      using assms True u [of "lp_handlers t ! i"] holds_step [OF True, of api "lp_name s" "lp_devices s"] i
      by (auto simp: handler_act_def lock_inv_def split: read_pc.splits)
  next
    case False
    then show ?thesis
      using assms u [of "lp_handlers t ! i"] i
      by (auto simp: handler_act_def lock_inv_def split: read_pc.splits if_splits)
  qed
qed

lemma update_inv:
  assumes "update_begin j s = Some t \<or> update_act api j s = Some t" "lock_inv s"
  shows "lock_inv t"
proof -
  have j: "j < length (lp_updates s)"
    using assms(1) by (auto simp: update_begin_def update_act_def split: if_splits)
  show ?thesis
    using assms filter_update_length [OF j, of writing "lp_updates t ! j"] j
    by (auto simp: update_begin_def update_act_def lock_inv_def split: update_pc.splits if_splits)
qed

lemma lock_act_inv: "lock_act api a s = Some t \<Longrightarrow> lock_inv s \<Longrightarrow> lock_inv t"
  by (cases a) (auto intro: handler_act_inv update_inv)

lemma lock_run_inv: "lock_run api acts s = Some t \<Longrightarrow> lock_inv s \<Longrightarrow> lock_inv t"
  by (induction acts arbitrary: s) (auto simp: bind_eq_Some_conv lock_act_inv)

lemma lock_init_inv: "lock_inv (lock_init name devices tasks updates)"
  by (simp add: lock_inv_def lock_init_def filter_empty_conv)

lemma writing_locked: "lock_inv s \<Longrightarrow> j < length (lp_updates s) \<Longrightarrow> writing (lp_updates s ! j) \<Longrightarrow> lp_writer s"
  by (auto simp: lock_inv_def filter_empty_conv split: if_splits)

lemma writing_unique:
  assumes "lock_inv s" "j < length (lp_updates s)" "writing (lp_updates s ! j)"
    and "k < length (lp_updates s)" "writing (lp_updates s ! k)"
  shows "j = k"
proof (rule ccontr)
  assume "j \<noteq> k"
  have "length (filter writing (lp_updates s)) = 1"
    using assms(1) writing_locked [OF assms(1-3)] by (simp add: lock_inv_def)
  then have "filter writing ((lp_updates s)[j := UpdateStart []]) = []"
    using filter_update_length [OF assms(2), of writing "UpdateStart []"] assms(3) by simp
  moreover have "(lp_updates s)[j := UpdateStart []] ! k \<in> set ((lp_updates s)[j := UpdateStart []])"
    by (rule nth_mem) (simp add: assms(4))
  ultimately show False using \<open>j \<noteq> k\<close> assms(4,5) by (simp add: filter_empty_conv)
qed

lemma lock_run_append: "lock_run api (us @ vs) s = Option.bind (lock_run api us s) (lock_run api vs)"
  by (induction us arbitrary: s) (simp_all add: Option.bind_assoc cong: Option.bind_cong)

section \<open>Progress of a handler\<close>

text \<open>What a handler will return if the map stays as it is.\<close>

fun final_result :: "kubelet_api \<Rightarrow> string \<Rightarrow> npuDevice go_map \<Rightarrow> read_pc \<Rightarrow> read_result" where
  "final_result api name devices (ReadStart task) = task_result api name devices task"
| "final_result api name devices (ReadSelect ids selected) = SelectedResult (select_loop name devices ids selected)"
| "final_result api name devices (ReadAvailable ids available) =
     AvailableResult (available_loop name devices ids available)"
| "final_result api name devices ReadClone = CurrentResult (clonePluginDevices api devices)"
| "final_result api name devices (ReadReturn r) = r"
| "final_result api name devices (ReadDone r) = r"

lemma final_begin [simp]: "final_result api name devices (read_begin task) = task_result api name devices task"
  by (cases task) (simp_all add: task_result_def)

lemma final_step [simp]: "final_result api name devices (read_step api name devices pc) = final_result api name devices pc"
  by (induction api name devices pc rule: read_step.induct) (simp_all split: option.split)

section \<open>One inventory per call\<close>

lemma lock_act_frame:
  "lock_act api a s = Some t \<Longrightarrow> lp_name t = lp_name s \<and> length (lp_handlers t) = length (lp_handlers s)
     \<and> length (lp_updates t) = length (lp_updates s)"
  by (cases a) (auto simp: handler_act_def update_begin_def update_act_def
      split: if_splits read_pc.splits update_pc.splits)

lemma lock_run_frame:
  "lock_run api acts s = Some t \<Longrightarrow> lp_name t = lp_name s \<and> length (lp_handlers t) = length (lp_handlers s)
     \<and> length (lp_updates t) = length (lp_updates s)"
  by (induction acts arbitrary: s) (auto simp: bind_eq_Some_conv dest: lock_act_frame)

text \<open>No handler holds the lock while the map changes.\<close>

lemma lock_act_devices:
  assumes "lock_act api a s = Some t" "lock_inv s" "i < length (lp_handlers s)" "holds (lp_handlers s ! i)"
  shows "lp_devices t = lp_devices s"
proof -
  have "filter holds (lp_handlers s) \<noteq> []" using assms(3,4) by (auto simp: filter_empty_conv)
  then have "\<not> writing (lp_updates s ! j)" if "j < length (lp_updates s)" for j
    using assms(2) writing_locked [OF assms(2) that] by (auto simp: lock_inv_def)
  with assms(1) show ?thesis
    by (cases a) (fastforce simp: handler_act_def update_begin_def update_act_def
        split: if_splits read_pc.splits update_pc.splits)+
qed

lemma lock_act_other:
  "lock_act api a s = Some t \<Longrightarrow> a \<noteq> Handler i \<Longrightarrow> lp_handlers t ! i = lp_handlers s ! i"
  by (cases a) (auto simp: handler_act_def update_begin_def update_act_def
      split: if_splits read_pc.splits update_pc.splits)

lemma lock_act_self:
  assumes "lock_act api (Handler i) s = Some t"
  shows "i < length (lp_handlers s)" "lp_devices t = lp_devices s"
    "case lp_handlers s ! i of
       ReadStart task \<Rightarrow> lp_handlers t ! i = read_begin task
     | pc \<Rightarrow> holds pc \<and> final_result api (lp_name s) (lp_devices s) (lp_handlers t ! i)
         = final_result api (lp_name s) (lp_devices s) pc \<and> (\<forall>task. lp_handlers t ! i \<noteq> ReadStart task)"
  using assms
  by (auto simp: handler_act_def split: if_splits read_pc.splits)

text \<open>The call of handler \<open>i\<close> began in some state of the run, and is bound to the map of that state.\<close>

definition handler_ok :: "kubelet_api \<Rightarrow> locked_plugin \<Rightarrow> lock_action list \<Rightarrow> nat \<Rightarrow> read_task \<Rightarrow> locked_plugin \<Rightarrow> bool" where
  "handler_ok api init acts i task s \<longleftrightarrow>
     lp_handlers s ! i = ReadStart task
     \<or> (\<forall>task. lp_handlers s ! i \<noteq> ReadStart task)
       \<and> (\<exists>before after s0. acts = before @ Handler i # after \<and> lock_run api before init = Some s0
            \<and> \<not> lp_writer s0
            \<and> final_result api (lp_name s) (lp_devices s0) (lp_handlers s ! i)
                = task_result api (lp_name s) (lp_devices s0) task
            \<and> (holds (lp_handlers s ! i) \<longrightarrow> lp_devices s = lp_devices s0))"

lemma handler_ok_step:
  assumes ok: "handler_ok api init acts i task s" and run: "lock_run api acts init = Some s"
    and act: "lock_act api a s = Some t" and inv: "lock_inv s" and i: "i < length (lp_handlers s)"
  shows "handler_ok api init (acts @ [a]) i task t"
proof (cases "a = Handler i")
  case False
  have same: "lp_handlers t ! i = lp_handlers s ! i" "lp_name t = lp_name s"
    using lock_act_other [OF act False] lock_act_frame [OF act] by simp_all
  have dev: "holds (lp_handlers s ! i) \<Longrightarrow> lp_devices t = lp_devices s"
    by (rule lock_act_devices [OF act inv i])
  show ?thesis
    using ok unfolding handler_ok_def same
  proof (elim disjE conjE exE)
    fix before after s0
    assume "acts = before @ Handler i # after" "lock_run api before init = Some s0" "\<not> lp_writer s0"
      "\<forall>task. lp_handlers s ! i \<noteq> ReadStart task"
      "final_result api (lp_name s) (lp_devices s0) (lp_handlers s ! i) = task_result api (lp_name s) (lp_devices s0) task"
      "holds (lp_handlers s ! i) \<longrightarrow> lp_devices s = lp_devices s0"
    then show "lp_handlers s ! i = ReadStart task \<or> (\<forall>task. lp_handlers s ! i \<noteq> ReadStart task)
       \<and> (\<exists>before after s0. acts @ [a] = before @ Handler i # after \<and> lock_run api before init = Some s0
            \<and> \<not> lp_writer s0
            \<and> final_result api (lp_name s) (lp_devices s0) (lp_handlers s ! i)
                = task_result api (lp_name s) (lp_devices s0) task
            \<and> (holds (lp_handlers s ! i) \<longrightarrow> lp_devices t = lp_devices s0))"
      using dev by (intro disjI2 conjI exI [of _ before] exI [of _ "after @ [a]"] exI [of _ s0]) auto
  qed simp
next
  case True
  note self = lock_act_self [OF act [unfolded True]]
  have name: "lp_name t = lp_name s" using lock_act_frame [OF act] by simp
  show ?thesis
  proof (cases "\<exists>u. lp_handlers s ! i = ReadStart u")
    case start: True
    then have pc: "lp_handlers s ! i = ReadStart task" using ok by (auto simp: handler_ok_def)
    then have "\<not> lp_writer s" using act True by (auto simp: handler_act_def split: if_splits)
    moreover have "lp_handlers t ! i = read_begin task" using self(3) pc by simp
    moreover have "read_begin task \<noteq> ReadStart u" for u by (cases task) simp_all
    ultimately show ?thesis
      unfolding handler_ok_def using run self(2) name True
      by (intro disjI2 conjI exI [of _ acts] exI [of _ "[]"] exI [of _ s]) simp_all
  next
    case False
    with ok obtain before after s0 where s0: "acts = before @ Handler i # after"
      "lock_run api before init = Some s0" "\<not> lp_writer s0"
      "final_result api (lp_name s) (lp_devices s0) (lp_handlers s ! i) = task_result api (lp_name s) (lp_devices s0) task"
      "holds (lp_handlers s ! i) \<longrightarrow> lp_devices s = lp_devices s0" by (auto simp: handler_ok_def)
    have h: "holds (lp_handlers s ! i)" "\<forall>u. lp_handlers t ! i \<noteq> ReadStart u"
      "final_result api (lp_name s) (lp_devices s) (lp_handlers t ! i)
        = final_result api (lp_name s) (lp_devices s) (lp_handlers s ! i)"
      using self(3) False by (auto split: read_pc.splits)
    then show ?thesis
      unfolding handler_ok_def using s0 self(2) name True
      by (intro disjI2 conjI exI [of _ before] exI [of _ "after @ [a]"] exI [of _ s0]) simp_all
  qed
qed

lemma handler_ok_run:
  assumes "lock_run api acts (lock_init name devices tasks updates) = Some s" "i < length tasks"
  shows "handler_ok api (lock_init name devices tasks updates) acts i (tasks ! i) s"
  using assms(1)
proof (induction acts arbitrary: s rule: rev_induct)
  case Nil
  with assms(2) show ?case by (auto simp: handler_ok_def lock_init_def)
next
  case (snoc a acts)
  then obtain s1 where s1: "lock_run api acts (lock_init name devices tasks updates) = Some s1" "lock_act api a s1 = Some s"
    by (auto simp: lock_run_append bind_eq_Some_conv)
  have "i < length (lp_handlers s1)" using lock_run_frame [OF s1(1)] assms(2) by (simp add: lock_init_def)
  from handler_ok_step [OF snoc.IH [OF s1(1)] s1(1,2) lock_run_inv [OF s1(1) lock_init_inv] this] show ?case .
qed

section \<open>One update at a time\<close>

text \<open>
  Where an update from the map \<open>old\<close> to \<open>devices\<close> stands, \<open>m\<close> being the plugin's map.  Once it has
  released the lock, the map is no longer its own.
\<close>

definition update_at ::
    "kubelet_api \<Rightarrow> npuDevice go_map \<Rightarrow> npuDevice go_map \<Rightarrow> npuDevice go_map \<Rightarrow> update_pc \<Rightarrow> bool" where
  "update_at api old devices m pc \<longleftrightarrow>
     (let delta = diffDeviceInventories old devices; new = cloneDeviceMap devices;
          current = clonePluginDevices api new; counts = healthCounts api new in
      case pc of
        UpdateStart ds \<Rightarrow> False
      | UpdateLocked ds \<Rightarrow> ds = devices \<and> m = old
      | UpdateDiffed ds d \<Rightarrow> ds = devices \<and> m = old \<and> d = delta
      | UpdateStored d \<Rightarrow> m = new \<and> d = delta
      | UpdateCloned d c \<Rightarrow> m = new \<and> d = delta \<and> c = current
      | UpdateCounted d c n \<Rightarrow> m = new \<and> d = delta \<and> c = current \<and> n = counts
      | UpdateUnlocked d c n \<Rightarrow> d = delta \<and> c = current \<and> n = counts)"

lemma update_at_step:
  assumes "update_act api j s = Some t" "update_at api old devices (lp_devices s) (lp_updates s ! j)"
  shows "update_at api old devices (lp_devices t) (lp_updates t ! j)" "writing (lp_updates s ! j)"
  using assms by (auto simp: update_act_def update_at_def Let_def split: update_pc.splits if_splits)

lemma update_at_unlocked:
  "update_at api old devices m pc \<Longrightarrow> \<not> writing pc \<Longrightarrow> update_at api old devices m' pc"
  by (cases pc) (simp_all add: update_at_def Let_def)

lemma begun_append [simp]: "begun (us @ vs) = begun us @ begun vs"
  by (induction us rule: begun.induct) simp_all

lemma installed_begin:
  "begun after = [] \<Longrightarrow> installed updates devices (before @ UpdateBegin j # after) = cloneDeviceMap (updates ! j)"
  by (simp add: installed_def)

definition update_ok ::
    "kubelet_api \<Rightarrow> locked_plugin \<Rightarrow> npuDevice go_map list \<Rightarrow> npuDevice go_map \<Rightarrow> lock_action list
       \<Rightarrow> nat \<Rightarrow> locked_plugin \<Rightarrow> bool" where
  "update_ok api init updates devices acts j s \<longleftrightarrow>
     lp_updates s ! j = UpdateStart (updates ! j)
     \<or> (\<exists>before after s0. acts = before @ UpdateBegin j # after \<and> lock_run api before init = Some s0
          \<and> \<not> lp_writer s0 \<and> lp_readers s0 = 0
          \<and> update_at api (lp_devices s0) (updates ! j) (lp_devices s) (lp_updates s ! j)
          \<and> (writing (lp_updates s ! j) \<longrightarrow> begun after = []))"

text \<open>A step of another process leaves the update where it is, and while it holds the lock the map too.\<close>

lemma update_unaffected:
  assumes "lock_act api a s = Some t" "a \<noteq> UpdateBegin j" "a \<noteq> UpdateStep j" "lock_inv s" "j < length (lp_updates s)"
  shows "lp_updates t ! j = lp_updates s ! j"
    and "writing (lp_updates s ! j) \<Longrightarrow> lp_devices t = lp_devices s \<and> begun [a] = []"
proof -
  show "lp_updates t ! j = lp_updates s ! j"
    using assms(1-3) by (cases a) (auto simp: handler_act_def update_begin_def update_act_def
        split: if_splits read_pc.splits update_pc.splits)
  assume w: "writing (lp_updates s ! j)"
  show "lp_devices t = lp_devices s \<and> begun [a] = []"
  proof (cases a)
    case (UpdateStep k)
    then have "k < length (lp_updates s)" "writing (lp_updates s ! k)"
      using assms(1) by (auto simp: update_act_def split: if_splits update_pc.splits)
    with writing_unique [OF assms(4,5) w] UpdateStep assms(3) show ?thesis by simp
  qed (use assms(1) writing_locked [OF assms(4,5) w] in
      \<open>auto simp: handler_act_def update_begin_def split: if_splits read_pc.splits update_pc.splits\<close>)
qed

lemma update_ok_step:
  assumes ok: "update_ok api init updates devices acts j s" and run: "lock_run api acts init = Some s"
    and act: "lock_act api a s = Some t" and inv: "lock_inv s" and j: "j < length (lp_updates s)"
  shows "update_ok api init updates devices (acts @ [a]) j t"
proof (cases "a = UpdateBegin j")
  case True
  then have "lp_updates s ! j = UpdateStart (updates ! j)"
    using act ok by (auto simp: update_begin_def update_ok_def update_at_def Let_def split: update_pc.splits)
  then have "\<not> lp_writer s" "lp_readers s = 0"
    "update_at api (lp_devices s) (updates ! j) (lp_devices t) (lp_updates t ! j)"
    using act True by (auto simp: update_begin_def update_at_def split: if_splits)
  then show ?thesis
    unfolding update_ok_def using run True
    by (intro disjI2 exI [of _ acts] exI [of _ "[]"] exI [of _ s]) simp
next
  case other: False
  show ?thesis
  proof (cases "lp_updates s ! j = UpdateStart (updates ! j)")
    case True
    then have "a \<noteq> UpdateStep j" using act by (auto simp: update_act_def split: if_splits)
    with update_unaffected(1) [OF act other _ inv j] True show ?thesis by (simp add: update_ok_def)
  next
    case False
    with ok obtain before after s0 where s0: "acts = before @ UpdateBegin j # after"
      "lock_run api before init = Some s0" "\<not> lp_writer s0" "lp_readers s0 = 0"
      "update_at api (lp_devices s0) (updates ! j) (lp_devices s) (lp_updates s ! j)"
      "writing (lp_updates s ! j) \<longrightarrow> begun after = []" by (auto simp: update_ok_def)
    have "update_at api (lp_devices s0) (updates ! j) (lp_devices t) (lp_updates t ! j)
      \<and> (writing (lp_updates t ! j) \<longrightarrow> begun (after @ [a]) = [])"
    proof (cases "a = UpdateStep j")
      case True
      with update_at_step [of api j s t, OF _ s0(5)] act s0(6) show ?thesis by simp
    next
      case step: False
      note rest = update_unaffected [OF act other step inv j]
      show ?thesis
        using s0(5,6) rest update_at_unlocked [OF s0(5)] by (cases "writing (lp_updates s ! j)") auto
    qed
    with s0(1-4) show ?thesis
      unfolding update_ok_def by (intro disjI2 exI [of _ before] exI [of _ "after @ [a]"] exI [of _ s0]) simp
  qed
qed

lemma update_ok_run:
  assumes "lock_run api acts (lock_init name devices tasks updates) = Some s" "j < length updates"
  shows "update_ok api (lock_init name devices tasks updates) updates devices acts j s"
  using assms(1)
proof (induction acts arbitrary: s rule: rev_induct)
  case Nil
  with assms(2) show ?case by (auto simp: update_ok_def lock_init_def)
next
  case (snoc a acts)
  then obtain s1 where s1: "lock_run api acts (lock_init name devices tasks updates) = Some s1"
    "lock_act api a s1 = Some s" by (auto simp: lock_run_append bind_eq_Some_conv)
  have "j < length (lp_updates s1)" using lock_run_frame [OF s1(1)] assms(2) by (simp add: lock_init_def)
  from update_ok_step [OF snoc.IH [OF s1(1)] s1 lock_run_inv [OF s1(1) lock_init_inv] this] show ?case .
qed

text \<open>While nobody writes, the map is the one the updates begun so far leave one after the other.\<close>

lemma lock_settled:
  "lock_run api acts (lock_init name devices tasks updates) = Some s \<Longrightarrow> \<not> lp_writer s \<Longrightarrow>
     lp_devices s = installed updates devices acts"
proof (induction acts arbitrary: s rule: rev_induct)
  case Nil
  then show ?case by (auto simp: installed_def lock_init_def)
next
  case (snoc a acts)
  then obtain s1 where run: "lock_run api acts (lock_init name devices tasks updates) = Some s1"
    and act: "lock_act api a s1 = Some s" by (auto simp: lock_run_append bind_eq_Some_conv)
  show ?case
  proof (cases a)
    case (Handler i)
    then have "lp_devices s = lp_devices s1 \<and> lp_writer s = lp_writer s1"
      using act by (auto simp: handler_act_def split: if_splits read_pc.splits)
    with snoc.IH [OF run] snoc.prems(2) Handler show ?thesis by (simp add: installed_def)
  next
    case (UpdateBegin k)
    then show ?thesis
      using act snoc.prems(2) by (auto simp: update_begin_def split: if_splits update_pc.splits)
  next
    case (UpdateStep k)
    have k: "k < length (lp_updates s1)" and w: "writing (lp_updates s1 ! k)"
      using act UpdateStep by (auto simp: update_act_def split: if_splits update_pc.splits)
    have "lp_writer s1" by (rule writing_locked [OF lock_run_inv [OF run lock_init_inv] k w])
    then obtain d c n where pc: "lp_updates s1 ! k = UpdateCounted d c n" and same: "lp_devices s = lp_devices s1"
      using act UpdateStep snoc.prems(2) by (auto simp: update_act_def split: if_splits update_pc.splits)
    have "k < length updates" using k lock_run_frame [OF run] by (simp add: lock_init_def)
    from update_ok_run [OF run this] pc obtain before after where
      "acts = before @ UpdateBegin k # after" "begun after = []" "lp_devices s1 = cloneDeviceMap (updates ! k)"
      by (auto simp: update_ok_def update_at_def Let_def)
    with same UpdateStep installed_begin [of after updates devices before k] show ?thesis
      by (simp add: installed_def)
  qed
qed

section \<open>One inventory per call, one transition per update\<close>

text \<open>
  C6: every call sees one inventory.  Under every interleaving of the element-by-element reads of any number
  of handlers with the steps of any number of updates, a handler that has finished returns what the sequential
  code computes on the map of one moment of its call, the one at which it took the lock, when no update was
  under way: the map left by the updates that had taken the lock before it, never a mixture of two inventories.
\<close>

theorem handlers_see_one_inventory:
  assumes "lock_run api acts (lock_init name devices tasks updates) = Some s" "i < length tasks"
    and "lp_handlers s ! i = ReadDone r"
  shows "\<exists>before after s0. acts = before @ Handler i # after
    \<and> lock_run api before (lock_init name devices tasks updates) = Some s0 \<and> \<not> lp_writer s0
    \<and> lp_devices s0 = installed updates devices before
    \<and> r = task_result api name (lp_devices s0) (tasks ! i)"
proof -
  have "lp_name s = name" using lock_run_frame [OF assms(1)] by (simp add: lock_init_def)
  with handler_ok_run [OF assms(1,2)] assms(3) obtain before after s0 where
    "acts = before @ Handler i # after" "lock_run api before (lock_init name devices tasks updates) = Some s0"
    "\<not> lp_writer s0" "r = task_result api name (lp_devices s0) (tasks ! i)" by (auto simp: handler_ok_def)
  with lock_settled show ?thesis by blast
qed

text \<open>
  C7: updates are atomic.  Under every interleaving of the statements of any number of updates with each
  other and with any number of handlers, an update that has released the lock went from the map left by the
  updates that had taken the lock before it, when no handler was reading, to its own, and what it goes on with
  is what the sequential \<open>UpdateDevices\<close> computes from that map: completing it with the log and the channel
  gives exactly the result of \<open>UpdateDevices\<close> on a plugin with that map.  So no transition is lost, logged
  twice or counted on the inventory of another update.
\<close>

theorem locked_update_refines:
  assumes "lock_run api acts (lock_init name devices tasks updates) = Some s" "j < length updates"
    and "lp_updates s ! j = UpdateUnlocked delta current counts"
  shows "\<exists>before after s0. acts = before @ UpdateBegin j # after
    \<and> lock_run api before (lock_init name devices tasks updates) = Some s0 \<and> \<not> lp_writer s0 \<and> lp_readers s0 = 0
    \<and> lp_devices s0 = installed updates devices before
    \<and> (\<forall>p w. p_devices p = installed updates devices before \<longrightarrow>
         UpdateDevices api (updates ! j) p w =
           (let p' = p\<lparr>p_devices := cloneDeviceMap (updates ! j)\<rparr> in
            map_option (\<lambda>ch. (p'\<lparr>p_updateCh := ch\<rparr>, logInventoryDelta api p' delta (fst counts) (snd counts) w))
              (push_update current (p_updateCh p))))"
proof -
  from update_ok_run [OF assms(1,2)] assms(3) obtain before after s0 where
    s0: "acts = before @ UpdateBegin j # after"
      "lock_run api before (lock_init name devices tasks updates) = Some s0" "\<not> lp_writer s0" "lp_readers s0 = 0"
    and at: "update_at api (lp_devices s0) (updates ! j) (lp_devices s) (UpdateUnlocked delta current counts)"
    by (auto simp: update_ok_def)
  have map: "lp_devices s0 = installed updates devices before" by (rule lock_settled [OF s0(2,3)])
  have "UpdateDevices api (updates ! j) p w =
      (let p' = p\<lparr>p_devices := cloneDeviceMap (updates ! j)\<rparr> in
       map_option (\<lambda>ch. (p'\<lparr>p_updateCh := ch\<rparr>, logInventoryDelta api p' delta (fst counts) (snd counts) w))
         (push_update current (p_updateCh p)))" if "p_devices p = installed updates devices before" for p w
    using at that by (simp add: update_at_def map Let_def UpdateDevices_def split_beta)
  with s0 map show ?thesis by blast
qed

section \<open>Nobody waits for ever\<close>

fun read_fuel :: "read_pc \<Rightarrow> nat" where
  "read_fuel (ReadStart (Selected ids)) = length ids + 3"
| "read_fuel (ReadStart (Available ids)) = length ids + 3"
| "read_fuel (ReadStart Current) = 3"
| "read_fuel (ReadSelect ids selected) = length ids + 2"
| "read_fuel (ReadAvailable ids available) = length ids + 2"
| "read_fuel ReadClone = 2"
| "read_fuel (ReadReturn r) = 1"
| "read_fuel (ReadDone r) = 0"

lemma read_fuel_begin [simp]: "read_fuel (ReadStart task) = Suc (read_fuel (read_begin task))"
  by (cases task) simp_all

lemma read_fuel_step:
  "holds pc \<Longrightarrow> \<forall>r. pc \<noteq> ReadReturn r \<Longrightarrow> read_fuel (read_step api name devices pc) < read_fuel pc"
  by (induction api name devices pc rule: read_step.induct) (simp_all split: option.split)

lemma handler_step:
  assumes "i < length (lp_handlers s)" "\<not> lp_writer s" "\<forall>r. lp_handlers s ! i \<noteq> ReadDone r"
  obtains t where "lock_act api (Handler i) s = Some t" "\<not> lp_writer t" "i < length (lp_handlers t)"
    "read_fuel (lp_handlers t ! i) < read_fuel (lp_handlers s ! i)"
proof -
  have "\<exists>t. lock_act api (Handler i) s = Some t \<and> \<not> lp_writer t \<and> i < length (lp_handlers t)
      \<and> read_fuel (lp_handlers t ! i) < read_fuel (lp_handlers s ! i)"
    using assms read_fuel_step [of "lp_handlers s ! i" api "lp_name s" "lp_devices s"]
    by (cases "lp_handlers s ! i") (simp_all add: handler_act_def)
  with that show thesis by blast
qed

lemma handler_finishes:
  assumes "i < length (lp_handlers s)" "\<not> lp_writer s"
  shows "\<exists>n t r. n \<le> read_fuel (lp_handlers s ! i) \<and> lock_run api (replicate n (Handler i)) s = Some t
    \<and> lp_handlers t ! i = ReadDone r"
  using assms
proof (induction "read_fuel (lp_handlers s ! i)" arbitrary: s rule: less_induct)
  case less
  show ?case
  proof (cases "\<exists>r. lp_handlers s ! i = ReadDone r")
    case True
    then show ?thesis by (intro exI [of _ 0]) auto
  next
    case False
    obtain t where t: "lock_act api (Handler i) s = Some t" "\<not> lp_writer t" "i < length (lp_handlers t)"
      "read_fuel (lp_handlers t ! i) < read_fuel (lp_handlers s ! i)"
      using handler_step [OF less.prems, of api] False by blast
    from less.hyps [OF t(4,3,2)] obtain n u r where "n \<le> read_fuel (lp_handlers t ! i)"
      "lock_run api (replicate n (Handler i)) t = Some u" "lp_handlers u ! i = ReadDone r" by blast
    with t show ?thesis by (intro exI [of _ "Suc n"] exI [of _ u] exI [of _ r]) simp
  qed
qed

text \<open>The steps an update under its lock has left.\<close>

fun update_fuel :: "update_pc \<Rightarrow> nat" where
  "update_fuel (UpdateLocked devices) = 5"
| "update_fuel (UpdateDiffed devices delta) = 4"
| "update_fuel (UpdateStored delta) = 3"
| "update_fuel (UpdateCloned delta current) = 2"
| "update_fuel (UpdateCounted delta current counts) = 1"
| "update_fuel _ = 0"

lemma update_finishes:
  assumes "lock_inv s"
  shows "\<exists>j k t. k \<le> 5 \<and> lock_run api (replicate k (UpdateStep j)) s = Some t \<and> \<not> lp_writer t
    \<and> lp_handlers t = lp_handlers s"
proof (cases "lp_writer s")
  case True
  then have "filter writing (lp_updates s) \<noteq> []" using assms by (auto simp: lock_inv_def)
  then obtain j where j: "j < length (lp_updates s)" "writing (lp_updates s ! j)"
    by (metis filter_empty_conv in_set_conv_nth)
  have "update_fuel (lp_updates s ! j) \<le> 5" by (cases "lp_updates s ! j") simp_all
  moreover have "\<exists>t. lock_run api (replicate (update_fuel (lp_updates s ! j)) (UpdateStep j)) s = Some t
      \<and> \<not> lp_writer t \<and> lp_handlers t = lp_handlers s"
    using j by (cases "lp_updates s ! j") (simp_all add: update_act_def eval_nat_numeral)
  ultimately show ?thesis by blast
next
  case False
  then show ?thesis by (intro exI [of _ 0] exI [of _ s]) simp
qed

text \<open>
  No handler is stuck.  From every state of every run, a handler that has not finished finishes after at most
  five steps of the update under way and \<open>read_fuel\<close> steps of its own, three more than the device
  identifiers of its request, whatever the other handlers and updates do.
\<close>

theorem handlers_complete:
  assumes "lock_run api acts (lock_init name devices tasks updates) = Some s" "i < length tasks"
  shows "\<exists>j k n t r. k \<le> 5 \<and> n \<le> read_fuel (lp_handlers s ! i)
    \<and> lock_run api (replicate k (UpdateStep j) @ replicate n (Handler i)) s = Some t
    \<and> lp_handlers t ! i = ReadDone r"
proof -
  obtain j k u where u: "k \<le> 5" "lock_run api (replicate k (UpdateStep j)) s = Some u" "\<not> lp_writer u"
    "lp_handlers u = lp_handlers s"
    using update_finishes [OF lock_run_inv [OF assms(1) lock_init_inv], of api] by blast
  have "i < length (lp_handlers u)" using lock_run_frame [OF assms(1)] assms(2) u(4) by (simp add: lock_init_def)
  from handler_finishes [OF this u(3), of api] obtain n t r where "n \<le> read_fuel (lp_handlers s ! i)"
    "lock_run api (replicate n (Handler i)) u = Some t" "lp_handlers t ! i = ReadDone r" using u(4) by auto
  with u(1,2) show ?thesis
    by (intro exI [of _ j] exI [of _ k] exI [of _ n] exI [of _ t] exI [of _ r]) (simp add: lock_run_append)
qed

section \<open>Concrete runs\<close>

text \<open>
  Two updates, one that empties the inventory and one that brings the devices back, each after a call; the
  second one waits for the call of the second handler.
\<close>

definition lock_tasks :: "read_task list" where
  "lock_tasks = [Selected [''rbln0'', ''rbln1''], Selected [''rbln0'', ''rbln1'']]"

definition lock_devices :: "npuDevice go_map" where
  "lock_devices = map (\<lambda>n. (n, \<lparr>Info = \<lparr>Name = n, ProductName = [], PCIDeviceID = [], PCIBusID = [],
      PCINumaNode = [], SID = []\<rparr>, Health = ''Healthy'', StatusName = [], ParentPFBusID = []\<rparr>)) [''rbln0'', ''rbln1'']"

definition lock_updates :: "npuDevice go_map list" where
  "lock_updates = [lock_devices, []]"

definition lock_before :: "lock_action list" where
  "lock_before = [Handler 0, Handler 0, Handler 0, Handler 0, Handler 0, UpdateBegin 1, UpdateStep 1, UpdateStep 1,
     UpdateStep 1, UpdateStep 1, UpdateStep 1]"

definition lock_actions :: "lock_action list" where
  "lock_actions = lock_before @ [Handler 1, Handler 1, Handler 1, UpdateBegin 0, UpdateStep 0, UpdateStep 0,
     UpdateStep 0, UpdateStep 0, UpdateStep 0]"

abbreviation sample_locked :: locked_plugin where
  "sample_locked \<equiv> lock_init ''r'' lock_devices lock_tasks lock_updates"

definition sample_appeared :: deviceInventoryDelta where
  "sample_appeared = \<lparr>Added = map snd lock_devices, Removed = [], Changed = []\<rparr>"

lemma lock_sample:
  obtains s where "lock_run sample_api lock_actions sample_locked = Some s"
    "lp_handlers s ! 1 = ReadDone (SelectedResult (Inl (NotManaged ''r'' ''rbln0'')))"
    "lp_updates s ! 0 = UpdateUnlocked sample_appeared (clonePluginDevices sample_api lock_devices) (2, 0)"
proof -
  have "map_option (\<lambda>s. (lp_handlers s ! 1, lp_updates s ! 0)) (lock_run sample_api lock_actions sample_locked)
      = Some (ReadDone (SelectedResult (Inl (NotManaged ''r'' ''rbln0''))),
          UpdateUnlocked sample_appeared (clonePluginDevices sample_api lock_devices) (2, 0))" by code_simp
  with that show thesis by auto
qed

text \<open>The second handler's only steps come after the first update: the moment it took the lock is determined.\<close>

theorem handlers_see_one_inventory_witness:
  "\<exists>before after s0. lock_actions = before @ Handler 1 # after
     \<and> lock_run sample_api before sample_locked = Some s0 \<and> \<not> lp_writer s0
     \<and> lp_devices s0 = installed lock_updates lock_devices before
     \<and> task_result sample_api ''r'' (lp_devices s0) (lock_tasks ! 1)
       = SelectedResult (Inl (NotManaged ''r'' ''rbln0''))"
proof -
  obtain s where s: "lock_run sample_api lock_actions sample_locked = Some s"
    "lp_handlers s ! 1 = ReadDone (SelectedResult (Inl (NotManaged ''r'' ''rbln0'')))" by (rule lock_sample)
  have "1 < length lock_tasks" by (simp add: lock_tasks_def)
  from handlers_see_one_inventory [OF s(1) this s(2)] show ?thesis by metis
qed

theorem handlers_complete_witness:
  "\<exists>j k n t r. k \<le> 5 \<and> n \<le> 5
     \<and> lock_run sample_api (replicate k (UpdateStep j) @ replicate n (Handler 1)) sample_locked = Some t
     \<and> lp_handlers t ! 1 = ReadDone r"
proof -
  have "lock_run sample_api [] sample_locked = Some sample_locked" "1 < length lock_tasks"
    by (simp_all add: lock_tasks_def)
  moreover have "read_fuel (lp_handlers sample_locked ! 1) = 5" by (simp add: lock_init_def lock_tasks_def)
  ultimately show ?thesis using handlers_complete by metis
qed

text \<open>The update that took the lock second starts from the empty map the first one left, and finds both devices.\<close>

theorem locked_update_refines_witness:
  "\<exists>before after s0. lock_actions = before @ UpdateBegin 0 # after
     \<and> lock_run sample_api before sample_locked = Some s0 \<and> lp_readers s0 = 0 \<and> lp_devices s0 = []
     \<and> (\<forall>p w. p_devices p = [] \<longrightarrow> UpdateDevices sample_api lock_devices p w =
          map_option (\<lambda>ch. (p\<lparr>p_devices := lock_devices, p_updateCh := ch\<rparr>,
              logInventoryDelta sample_api (p\<lparr>p_devices := lock_devices\<rparr>) sample_appeared 2 0 w))
            (push_update (clonePluginDevices sample_api lock_devices) (p_updateCh p)))"
proof -
  obtain s where s: "lock_run sample_api lock_actions sample_locked = Some s"
    "lp_updates s ! 0 = UpdateUnlocked sample_appeared (clonePluginDevices sample_api lock_devices) (2, 0)"
    by (rule lock_sample)
  have "0 < length lock_updates" by (simp add: lock_updates_def)
  from locked_update_refines [OF s(1) this s(2)] obtain before after s0 where
    s0: "lock_actions = before @ UpdateBegin 0 # after" "lock_run sample_api before sample_locked = Some s0"
      "lp_readers s0 = 0" "lp_devices s0 = installed lock_updates lock_devices before"
    and upd: "\<forall>p w. p_devices p = installed lock_updates lock_devices before \<longrightarrow>
      UpdateDevices sample_api (lock_updates ! 0) p w =
        (let p' = p\<lparr>p_devices := cloneDeviceMap (lock_updates ! 0)\<rparr> in
         map_option (\<lambda>ch. (p'\<lparr>p_updateCh := ch\<rparr>,
             logInventoryDelta sample_api p' sample_appeared (fst (2 :: int, 0 :: int)) (snd (2 :: int, 0 :: int)) w))
           (push_update (clonePluginDevices sample_api lock_devices) (p_updateCh p)))" by blast
  have "begun before = [1]"
    using arg_cong [OF s0(1), of begun] by (auto simp: lock_actions_def lock_before_def append_eq_Cons_conv Cons_eq_append_conv)
  then have "installed lock_updates lock_devices before = []" by (simp add: installed_def lock_updates_def cloneDeviceMap_def)
  with s0 upd show ?thesis
    by (intro exI [of _ before] exI [of _ after] exI [of _ s0]) (simp add: Let_def lock_updates_def cloneDeviceMap_def)
qed

end
