(* ===== verification/Watch.thy ===== *)
theory Watch imports PluginUpdate begin

text \<open>
  \<open>ListAndWatch\<close> running beside \<open>UpdateDevices\<close>: two threads over the device map and
  the update channel, as a step relation.  The updater takes its lock, then tries to send, drains and
  sends as separate steps; the watcher reads the current devices, sends on the stream and selects as
  separate steps.  There is one updater, since reconciliation holds the manager's lock, and one
  stream.
\<close>

section \<open>Steps\<close>

datatype updater_pc =
    UpdaterIdle
  | UpdaterTrySend "pluginDevice list"
  | UpdaterDrain "pluginDevice list"
  | UpdaterSend "pluginDevice list"

datatype watcher_pc =
    WatcherInit
  | WatcherSend "pluginDevice list"
  | WatcherSelect
  | WatcherReturned

record watch_state =
  ws_devices :: "npuDevice go_map"
  ws_updateCh :: "pluginDevice list list"
  ws_stopCh :: bool
  ws_updater :: updater_pc
  ws_watcher :: watcher_pc
  ws_sent :: "pluginDevice list list"

datatype watch_action =
    DoUpdate "npuDevice go_map" | DoTrySend | DoDrain | DoSend
  | DoCurrent | DoStreamSend bool | DoStopped | DoStreamDone | DoRecv
  | DoStop

fun updater_act :: "kubelet_api \<Rightarrow> watch_action \<Rightarrow> watch_state \<Rightarrow> watch_state option" where
  "updater_act api (DoUpdate devices) s =
     (if ws_updater s = UpdaterIdle
      then Some (s\<lparr>ws_devices := cloneDeviceMap devices,
             ws_updater := UpdaterTrySend (clonePluginDevices api (cloneDeviceMap devices))\<rparr>)
      else None)"
| "updater_act api DoTrySend s =
     (case ws_updater s of
        UpdaterTrySend current \<Rightarrow>
          (case chan_send updateCh_cap (ws_updateCh s) current of
             Some ch \<Rightarrow> Some (s\<lparr>ws_updateCh := ch, ws_updater := UpdaterIdle\<rparr>)
           | None \<Rightarrow> Some (s\<lparr>ws_updater := UpdaterDrain current\<rparr>))
      | _ \<Rightarrow> None)"
| "updater_act api DoDrain s =
     (case ws_updater s of
        UpdaterDrain current \<Rightarrow>
          Some (s\<lparr>ws_updateCh := (case chan_recv (ws_updateCh s) of Some (_, ch) \<Rightarrow> ch
                    | None \<Rightarrow> ws_updateCh s), ws_updater := UpdaterSend current\<rparr>)
      | _ \<Rightarrow> None)"
| "updater_act api DoSend s =
     (case ws_updater s of
        UpdaterSend current \<Rightarrow>
          map_option (\<lambda>ch. s\<lparr>ws_updateCh := ch, ws_updater := UpdaterIdle\<rparr>)
            (chan_send updateCh_cap (ws_updateCh s) current)
      | _ \<Rightarrow> None)"
| "updater_act api _ s = None"

fun watcher_act :: "kubelet_api \<Rightarrow> watch_action \<Rightarrow> watch_state \<Rightarrow> watch_state option" where
  "watcher_act api DoCurrent s =
     (if ws_watcher s = WatcherInit
      then Some (s\<lparr>ws_watcher := WatcherSend (clonePluginDevices api (ws_devices s))\<rparr>) else None)"
| "watcher_act api (DoStreamSend success) s =
     (case ws_watcher s of
        WatcherSend devices \<Rightarrow>
          Some (if success then s\<lparr>ws_watcher := WatcherSelect, ws_sent := ws_sent s @ [devices]\<rparr>
                else s\<lparr>ws_watcher := WatcherReturned\<rparr>)
      | _ \<Rightarrow> None)"
| "watcher_act api DoStopped s =
     (if ws_watcher s = WatcherSelect \<and> ws_stopCh s
      then Some (s\<lparr>ws_watcher := WatcherReturned\<rparr>) else None)"
| "watcher_act api DoStreamDone s =
     (if ws_watcher s = WatcherSelect then Some (s\<lparr>ws_watcher := WatcherReturned\<rparr>) else None)"
| "watcher_act api DoRecv s =
     (if ws_watcher s = WatcherSelect
      then map_option (\<lambda>(devices, ch). s\<lparr>ws_updateCh := ch, ws_watcher := WatcherSend devices\<rparr>)
             (chan_recv (ws_updateCh s))
      else None)"
| "watcher_act api _ s = None"

inductive watch_step :: "kubelet_api \<Rightarrow> watch_state \<Rightarrow> watch_state \<Rightarrow> bool" for api where
  updater: "updater_act api a s = Some t \<Longrightarrow> watch_step api s t"
| watcher: "watcher_act api a s = Some t \<Longrightarrow> watch_step api s t"
| stop: "watch_step api s (s\<lparr>ws_stopCh := True\<rparr>)"

inductive_cases watch_stepE [elim]: "watch_step api s t"

definition watch_init :: "npuDevice go_map \<Rightarrow> watch_state" where
  "watch_init devices = \<lparr>ws_devices = devices, ws_updateCh = [], ws_stopCh = False,
     ws_updater = UpdaterIdle, ws_watcher = WatcherInit, ws_sent = []\<rparr>"

inductive watch_reach :: "kubelet_api \<Rightarrow> watch_state \<Rightarrow> bool" for api where
  init: "watch_reach api (watch_init devices)"
| step: "watch_reach api s \<Longrightarrow> watch_step api s t \<Longrightarrow> watch_reach api t"

section \<open>The invariant\<close>

definition updater_inv :: "kubelet_api \<Rightarrow> watch_state \<Rightarrow> bool" where
  "updater_inv api s \<longleftrightarrow>
     (let now = clonePluginDevices api (ws_devices s) in
      length (ws_updateCh s) \<le> 1
      \<and> (case ws_updater s of
           UpdaterIdle \<Rightarrow> ws_updateCh s \<noteq> [] \<longrightarrow> ws_updateCh s = [now]
         | UpdaterTrySend current \<Rightarrow> current = now
         | UpdaterDrain current \<Rightarrow> current = now
         | UpdaterSend current \<Rightarrow> current = now \<and> ws_updateCh s = []))"

definition watcher_inv :: "kubelet_api \<Rightarrow> watch_state \<Rightarrow> bool" where
  "watcher_inv api s \<longleftrightarrow>
     (let now = clonePluginDevices api (ws_devices s);
          quiet = (ws_updater s = UpdaterIdle \<and> ws_updateCh s = []) in
      case ws_watcher s of
        WatcherSelect \<Rightarrow> ws_sent s \<noteq> [] \<and> (quiet \<longrightarrow> last (ws_sent s) = now)
      | WatcherSend devices \<Rightarrow> quiet \<longrightarrow> devices = now
      | _ \<Rightarrow> True)"

lemmas watch_invs = updater_inv_def watcher_inv_def Let_def

lemma updater_act_inv:
  assumes "updater_act api a s = Some t" "updater_inv api s" "watcher_inv api s"
  shows "updater_inv api t \<and> watcher_inv api t"
proof (cases a)
  case DoTrySend
  with assms show ?thesis
    by (cases "ws_watcher s"; cases "ws_updateCh s")
      (auto simp: watch_invs chan_send_def updateCh_cap_def split: updater_pc.splits)
next
  case DoDrain
  with assms show ?thesis
    by (cases "ws_watcher s"; cases "ws_updateCh s")
      (auto simp: watch_invs chan_recv_def split: updater_pc.splits)
next
  case DoSend
  with assms show ?thesis
    by (cases "ws_watcher s")
      (auto simp: watch_invs chan_send_def updateCh_cap_def split: updater_pc.splits if_splits)
qed (use assms in \<open>cases "ws_watcher s"; auto simp: watch_invs split: if_splits\<close>)+

lemma updater_inv_upd [simp]:
  "updater_inv api (s\<lparr>ws_watcher := x\<rparr>) = updater_inv api s"
  "updater_inv api (s\<lparr>ws_watcher := x, ws_sent := y\<rparr>) = updater_inv api s"
  "updater_inv api (s\<lparr>ws_stopCh := b\<rparr>) = updater_inv api s"
  by (cases "ws_updater s"; simp add: updater_inv_def)+

lemma watcher_inv_upd [simp]: "watcher_inv api (s\<lparr>ws_stopCh := b\<rparr>) = watcher_inv api s"
  by (cases "ws_watcher s"; simp add: watcher_inv_def)

lemma watcher_act_inv:
  assumes "watcher_act api a s = Some t" "updater_inv api s" "watcher_inv api s"
  shows "updater_inv api t \<and> watcher_inv api t"
proof (cases a)
  case DoCurrent
  with assms have "t = s\<lparr>ws_watcher := WatcherSend (clonePluginDevices api (ws_devices s))\<rparr>"
    by (simp split: if_splits)
  then show ?thesis using assms(2) by (simp add: watcher_inv_def)
next
  case (DoStreamSend success)
  with assms obtain devices where d: "ws_watcher s = WatcherSend devices"
    "t = (if success then s\<lparr>ws_watcher := WatcherSelect, ws_sent := ws_sent s @ [devices]\<rparr>
          else s\<lparr>ws_watcher := WatcherReturned\<rparr>)" by (auto split: watcher_pc.splits)
  then show ?thesis using assms(2,3) by (simp add: watcher_inv_def Let_def)
next
  case DoRecv
  with assms obtain devices ch where d: "ws_watcher s = WatcherSelect" "ws_updateCh s = devices # ch"
    "t = s\<lparr>ws_updateCh := ch, ws_watcher := WatcherSend devices\<rparr>"
    by (auto simp: chan_recv_def split: if_splits list.splits)
  then show ?thesis
    using assms(2) by (cases "ws_updater s") (simp_all add: watch_invs)
qed (use assms in \<open>auto simp: watcher_inv_def split: if_splits\<close>)

lemma watch_reach_inv: "watch_reach api s \<Longrightarrow> updater_inv api s \<and> watcher_inv api s"
proof (induction rule: watch_reach.induct)
  case (init devices)
  then show ?case by (simp add: watch_invs watch_init_def)
next
  case (step s t)
  from step.hyps(2) show ?case
  proof cases
    case (updater a)
    then show ?thesis using updater_act_inv step.IH by blast
  next
    case (watcher a)
    then show ?thesis using watcher_act_inv step.IH by blast
  next
    case stop
    then show ?thesis using step.IH by simp
  qed
qed

section \<open>Properties\<close>

text \<open>
  C3: the kubelet ends up with the current inventory, under every interleaving of updates with the
  stream.  Whenever the updater is idle, the channel is empty and the stream waits, the last list
  sent on the stream is the list of the current devices.
\<close>

theorem watch_fresh:
  assumes "watch_reach api s" "ws_updater s = UpdaterIdle" "ws_updateCh s = []"
    and "ws_watcher s = WatcherSelect"
  shows "ws_sent s \<noteq> [] \<and> last (ws_sent s) = clonePluginDevices api (ws_devices s)"
  using watch_reach_inv [OF assms(1)] assms(2-4) by (simp add: watcher_inv_def Let_def)

text \<open>A run of actions.\<close>

fun watch_run :: "kubelet_api \<Rightarrow> watch_action list \<Rightarrow> watch_state \<Rightarrow> watch_state option" where
  "watch_run api [] s = Some s"
| "watch_run api (a # as) s =
     (case updater_act api a s of
        Some t \<Rightarrow> watch_run api as t
      | None \<Rightarrow>
          (case watcher_act api a s of
             Some t \<Rightarrow> watch_run api as t
           | None \<Rightarrow> if a = DoStop then watch_run api as (s\<lparr>ws_stopCh := True\<rparr>) else None))"

lemma watch_run_reach:
  "watch_reach api s \<Longrightarrow> watch_run api as s = Some t \<Longrightarrow> watch_reach api t"
proof (induction as arbitrary: s)
  case (Cons a as)
  show ?case
  proof (cases "updater_act api a s")
    case (Some u)
    with Cons.prems(2) have "watch_run api as u = Some t" by simp
    then show ?thesis
      by (rule Cons.IH [OF watch_reach.step [OF Cons.prems(1) watch_step.updater [OF Some]]])
  next
    case up: None
    show ?thesis
    proof (cases "watcher_act api a s")
      case (Some u)
      with up Cons.prems(2) have "watch_run api as u = Some t" by simp
      then show ?thesis
        by (rule Cons.IH [OF watch_reach.step [OF Cons.prems(1) watch_step.watcher [OF Some]]])
    next
      case None
      with up Cons.prems(2) have "watch_run api as (s\<lparr>ws_stopCh := True\<rparr>) = Some t"
        by (simp split: if_splits)
      then show ?thesis
        by (rule Cons.IH [OF watch_reach.step [OF Cons.prems(1) watch_step.stop]])
    qed
  qed
qed simp

lemma watch_run_append:
  "watch_run api (as @ bs) s = Option.bind (watch_run api as s) (watch_run api bs)"
  by (induction as arbitrary: s) (auto split: option.split)

definition watch_sample :: "watch_action list" where
  "watch_sample = [DoUpdate delta_after, DoTrySend, DoCurrent, DoStreamSend True, DoUpdate delta_before,
     DoTrySend, DoRecv, DoDrain, DoStreamSend True, DoSend, DoRecv, DoStreamSend True]"

theorem watch_fresh_witness:
  "\<exists>s. watch_run sample_api watch_sample (watch_init delta_before) = Some s
     \<and> last (ws_sent s) = clonePluginDevices sample_api delta_before"
proof -
  have "\<exists>s. watch_run sample_api watch_sample (watch_init delta_before) = Some s
      \<and> ws_updater s = UpdaterIdle \<and> ws_updateCh s = [] \<and> ws_watcher s = WatcherSelect
      \<and> ws_devices s = delta_before"
    by (simp add: watch_sample_def watch_init_def chan_send_def chan_recv_def updateCh_cap_def)
  then obtain s where s: "watch_run sample_api watch_sample (watch_init delta_before) = Some s"
    "ws_updater s = UpdaterIdle" "ws_updateCh s = []" "ws_watcher s = WatcherSelect"
    "ws_devices s = delta_before" by blast
  have "watch_reach sample_api s" by (rule watch_run_reach [OF watch_reach.init s(1)])
  from watch_fresh [OF this s(2-4)] s show ?thesis by auto
qed

text \<open>
  The updater is never stuck on the stream.  From every reachable state in which an update is under
  way, at most three steps of the updater alone complete it, whatever the stream does or fails to
  do, and leave exactly the list of the current devices in the channel.
\<close>

theorem updater_never_stuck:
  assumes "watch_reach api s" "ws_updater s \<noteq> UpdaterIdle"
  shows "\<exists>as t. set as \<subseteq> {DoTrySend, DoDrain, DoSend} \<and> length as \<le> 3 \<and> watch_run api as s = Some t
    \<and> ws_updater t = UpdaterIdle \<and> ws_updateCh t = [clonePluginDevices api (ws_devices s)]
    \<and> ws_watcher t = ws_watcher s \<and> ws_sent t = ws_sent s"
proof -
  have inv: "updater_inv api s" using watch_reach_inv [OF assms(1)] by blast
  show ?thesis
  proof (cases "ws_updater s")
    case UpdaterIdle
    with assms(2) show ?thesis by simp
  next
    case (UpdaterTrySend current)
    show ?thesis
    proof (cases "ws_updateCh s")
      case Nil
      with UpdaterTrySend inv show ?thesis
        by (intro exI [of _ "[DoTrySend]"])
          (simp add: updater_inv_def chan_send_def updateCh_cap_def)
    next
      case (Cons x xs)
      with UpdaterTrySend inv show ?thesis
        by (intro exI [of _ "[DoTrySend, DoDrain, DoSend]"])
          (simp add: updater_inv_def chan_send_def chan_recv_def updateCh_cap_def)
    qed
  next
    case (UpdaterDrain current)
    with inv show ?thesis
      by (intro exI [of _ "[DoDrain, DoSend]"], cases "ws_updateCh s")
        (simp_all add: updater_inv_def chan_send_def chan_recv_def updateCh_cap_def)
  next
    case (UpdaterSend current)
    with inv show ?thesis
      by (intro exI [of _ "[DoSend]"])
        (simp add: updater_inv_def chan_send_def updateCh_cap_def)
  qed
qed

theorem updater_never_stuck_witness:
  "\<exists>s as t. watch_run sample_api [DoUpdate delta_after, DoTrySend, DoUpdate delta_before]
       (watch_init delta_before) = Some s
     \<and> watch_run sample_api as s = Some t
     \<and> ws_updateCh t = [clonePluginDevices sample_api delta_before]"
proof -
  have "\<exists>s. watch_run sample_api [DoUpdate delta_after, DoTrySend, DoUpdate delta_before]
      (watch_init delta_before) = Some s \<and> ws_updater s \<noteq> UpdaterIdle \<and> ws_devices s = delta_before"
    by (simp add: watch_init_def chan_send_def updateCh_cap_def)
  then obtain s where s: "watch_run sample_api [DoUpdate delta_after, DoTrySend, DoUpdate delta_before]
      (watch_init delta_before) = Some s" "ws_updater s \<noteq> UpdaterIdle" "ws_devices s = delta_before"
    by blast
  have "watch_reach sample_api s" by (rule watch_run_reach [OF watch_reach.init s(1)])
  from updater_never_stuck [OF this s(2)] s show ?thesis by auto
qed

text \<open>
  The stream catches up.  From every reachable state in which no update is under way and
  \<open>ListAndWatch\<close> has not returned, at most four steps of the stream alone, with sends
  that succeed, bring it to wait with the list of the current devices sent last and nothing pending.
\<close>

theorem stream_catches_up:
  assumes "watch_reach api s" "ws_updater s = UpdaterIdle" "ws_watcher s \<noteq> WatcherReturned"
  shows "\<exists>as t. set as \<subseteq> {DoCurrent, DoStreamSend True, DoRecv} \<and> length as \<le> 4
    \<and> watch_run api as s = Some t \<and> ws_watcher t = WatcherSelect \<and> ws_updateCh t = []
    \<and> ws_sent t \<noteq> [] \<and> last (ws_sent t) = clonePluginDevices api (ws_devices s)"
proof -
  have inv: "updater_inv api s" "watcher_inv api s" using watch_reach_inv [OF assms(1)] by blast+
  let ?go = "\<lambda>as. if ws_updateCh s = [] then as else as @ [DoRecv, DoStreamSend True]"
  define as where "as = (case ws_watcher s of WatcherInit \<Rightarrow> ?go [DoCurrent, DoStreamSend True]
    | WatcherSend _ \<Rightarrow> ?go [DoStreamSend True] | _ \<Rightarrow> ?go [])"
  have "set as \<subseteq> {DoCurrent, DoStreamSend True, DoRecv} \<and> length as \<le> 4"
    by (simp add: as_def split: watcher_pc.split)
  moreover have "\<exists>t. watch_run api as s = Some t \<and> ws_watcher t = WatcherSelect \<and> ws_updateCh t = []
    \<and> ws_sent t \<noteq> [] \<and> last (ws_sent t) = clonePluginDevices api (ws_devices s)"
    using inv assms(2,3)
    by (cases "ws_watcher s"; cases "ws_updateCh s")
      (auto simp: as_def watch_invs chan_recv_def)
  ultimately show ?thesis by blast
qed

theorem stream_catches_up_witness:
  "\<exists>as t. watch_run sample_api as (watch_init delta_after) = Some t
     \<and> last (ws_sent t) = clonePluginDevices sample_api delta_after"
  using stream_catches_up [OF watch_reach.init, of delta_after sample_api]
  by (auto simp: watch_init_def)

text \<open>
  The steps refine the sequential model.  An update whose steps run without interruption
  leaves the device map and the channel that \<open>UpdateDevices\<close> computes.
\<close>

theorem watch_refines_update:
  assumes "ws_updater s = UpdaterIdle" "p_devices p = ws_devices s" "p_updateCh p = ws_updateCh s"
    and "length (ws_updateCh s) \<le> 1"
  shows "\<exists>as t p' w'. UpdateDevices api ds p w = Some (p', w')
    \<and> set as \<subseteq> {DoTrySend, DoDrain, DoSend} \<and> watch_run api (DoUpdate ds # as) s = Some t
    \<and> ws_updater t = UpdaterIdle \<and> ws_devices t = p_devices p' \<and> ws_updateCh t = p_updateCh p'"
proof -
  obtain w' where u: "UpdateDevices api ds p w
      = Some (p\<lparr>p_devices := ds, p_updateCh := [clonePluginDevices api ds]\<rparr>, w')"
    using UpdateDevices_total [of p api ds w] assms(3,4) by auto
  show ?thesis
  proof (cases "ws_updateCh s")
    case Nil
    with assms(1) u show ?thesis
      by (intro exI [of _ "[DoTrySend]"])
        (auto simp: chan_send_def updateCh_cap_def)
  next
    case (Cons x xs)
    with assms(1,4) u show ?thesis
      by (intro exI [of _ "[DoTrySend, DoDrain, DoSend]"])
        (auto simp: chan_send_def chan_recv_def updateCh_cap_def)
  qed
qed

theorem watch_refines_update_witness:
  "\<exists>as t. watch_run sample_api (DoUpdate delta_after # as) (watch_init delta_before) = Some t
     \<and> ws_devices t = delta_after"
proof -
  have "p_devices sample_plugin = ws_devices (watch_init delta_before)"
    "p_updateCh sample_plugin = ws_updateCh (watch_init delta_before)"
    "ws_updater (watch_init delta_before) = UpdaterIdle" "length (ws_updateCh (watch_init delta_before)) \<le> 1"
    by (simp_all add: sample_plugin_def NewResourcePlugin_def watch_init_def)
  from watch_refines_update [OF this(3,1,2,4), of sample_api delta_after empty_world]
  obtain as t p' w' where r: "UpdateDevices sample_api delta_after sample_plugin empty_world = Some (p', w')"
    "watch_run sample_api (DoUpdate delta_after # as) (watch_init delta_before) = Some t"
    "ws_devices t = p_devices p'" by blast
  have "p_devices p' = delta_after" using UpdateDevices_devices [OF r(1)] by auto
  with r(2,3) show ?thesis by metis
qed

end
