(* ===== verification/Health.thy ===== *)
theory Health imports World begin

text \<open>
  \<open>cmd/rbln-device-plugin/health.go\<close>: the gRPC health service.  \<open>h_addr\<close> is the address of
  its listener; the record of the goroutine that serves it is not modelled.
\<close>

section \<open>Operations\<close>

record healthServer =
  h_addr :: string
  h_serving :: bool

text \<open>\<open>net.JoinHostPort\<close> with an empty host, and \<open>net.Listen\<close> on TCP.\<close>

definition health_addr :: "int \<Rightarrow> string" where
  "health_addr port = '':'' @ itoa port"

definition tcp_listen :: "string \<Rightarrow> world \<Rightarrow> fs_error option \<times> world" where
  "tcp_listen addr w =
     (case sys_tick w of
        (Some err, w) \<Rightarrow> (Some err, w)
      | (None, w) \<Rightarrow>
          if addr \<in> set (w_listening w) then (Some (FsError ''bind: address already in use''), w)
          else (None, w\<lparr>w_listening := w_listening w @ [addr]\<rparr>))"

datatype health_error = ListenHealthFailed string fs_error

definition startHealthcheck ::
    "int \<Rightarrow> world \<Rightarrow> (health_error, healthServer option) go_result \<times> world" where
  "startHealthcheck port w =
     (if port < 0 then (Inr None, w)
      else
        (let addr = health_addr port in
         case tcp_listen addr w of
           (Some err, w) \<Rightarrow> (Inl (ListenHealthFailed addr err), w)
         | (None, w) \<Rightarrow> (Inr (Some \<lparr>h_addr = addr, h_serving = False\<rparr>), w)))"

definition SetServing :: "bool \<Rightarrow> healthServer \<Rightarrow> healthServer" where
  "SetServing serving h = h\<lparr>h_serving := serving\<rparr>"

definition health_Stop :: "healthServer \<Rightarrow> world \<Rightarrow> world" where
  "health_Stop h w = w\<lparr>w_listening := removeAll (h_addr h) (w_listening w)\<rparr>"

datatype serving_status = SERVING | NOT_SERVING

datatype check_error = UnknownService

definition Check :: "healthServer \<Rightarrow> string \<Rightarrow> (check_error, serving_status) go_result" where
  "Check h service =
     (if service = [] \<or> service = ''liveness''
      then Inr (if h_serving h then SERVING else NOT_SERVING) else Inl UnknownService)"

lemma health_addr_inject [simp]: "health_addr m = health_addr n \<longleftrightarrow> m = n"
  by (simp add: health_addr_def itoa_inject)

lemma health_Stop_fields [world_simps]:
  "w_paths (health_Stop h w) = w_paths w" "w_registered (health_Stop h w) = w_registered w"
  "w_logs (health_Stop h w) = w_logs w" "w_fault (health_Stop h w) = w_fault w"
  "set (w_listening (health_Stop h w)) = set (w_listening w) - {h_addr h}"
  by (auto simp: health_Stop_def)

end
