(* ===== verification/Manager.thy ===== *)
theory Manager imports Health Cdi PluginUpdate begin

text \<open>
  \<open>cmd/rbln-device-plugin/manager.go\<close>, with the configuration of \<open>main.go\<close>.  The orders in
  which Go iterates over the plugins and over the groups, the device query and the file system of
  a scan are its inputs.  The outer \<open>option\<close> is \<open>None\<close> when an update of a plugin would block
  for ever.
\<close>

section \<open>Configuration\<close>

record flags =
  cdiRoot :: string
  kubeletDevicePluginPath :: string
  healthcheckPort :: int
  deviceScanInterval :: int
  otlpEndpoint :: string

definition KubeletSocketPath :: "kubelet_api \<Rightarrow> flags \<Rightarrow> string" where
  "KubeletSocketPath api flags = path_join [kubeletDevicePluginPath flags, path_base (KubeletSocket api)]"

section \<open>State and errors\<close>

record manager =
  m_cdi :: cdiHandler
  m_health :: "healthServer option"
  m_plugins :: "resourcePlugin go_map"

datatype manager_error =
    StopPluginFailed string fs_error
  | StartPluginFailed string plugin_error
  | CdiInitializeFailed fs_error
  | HealthcheckFailed health_error

record scan =
  sc_fs :: filesystem
  sc_devices :: "(string, rblnDevice list) go_result"
  sc_order :: "string list \<Rightarrow> string list"

section \<open>Sockets and events\<close>

definition socketNameForResource :: "string \<Rightarrow> string" where
  "socketNameForResource resourceName = ''rbln-device-plugin-'' @ resourceSlug resourceName @ ''.sock''"

definition resource_socket :: "flags \<Rightarrow> string \<Rightarrow> string" where
  "resource_socket flags resourceName =
     path_join [kubeletDevicePluginPath flags, socketNameForResource resourceName]"

record fs_event =
  ev_Name :: string
  ev_Create :: bool
  ev_Op :: string

definition isKubeletRestartEvent :: "string \<Rightarrow> fs_event \<Rightarrow> bool" where
  "isKubeletRestartEvent kubeletSocketPath event =
     (if path_clean (ev_Name event) \<noteq> path_clean kubeletSocketPath then False else ev_Create event)"

section \<open>NewManager\<close>

definition NewManager ::
    "dir_listing \<Rightarrow> flags \<Rightarrow> world \<Rightarrow> (manager_error, manager) go_result \<times> world" where
  "NewManager read_dir flags w =
     (let cdi = NewCDIHandler (cdiRoot flags) in
      case cdi_Initialize read_dir cdi w of
        (Some err, w) \<Rightarrow> (Inl (CdiInitializeFailed err), w)
      | (None, w) \<Rightarrow>
          (case startHealthcheck (healthcheckPort flags) w of
             (Inl err, w) \<Rightarrow> (Inl (HealthcheckFailed err), w)
           | (Inr health, w) \<Rightarrow> (Inr \<lparr>m_cdi = cdi, m_health = health, m_plugins = []\<rparr>, w)))"

section \<open>reconcile\<close>

fun reconcile_existing ::
    "kubelet_api \<Rightarrow> string list \<Rightarrow> deviceGroup go_map \<Rightarrow> resourcePlugin go_map \<Rightarrow> world \<Rightarrow>
     (manager_error option \<times> deviceGroup go_map \<times> resourcePlugin go_map \<times> world) option" where
  "reconcile_existing api [] groups plugins w = Some (None, groups, plugins, w)"
| "reconcile_existing api (resourceName # names) groups plugins w =
     (case map_of plugins resourceName of
        None \<Rightarrow> reconcile_existing api names groups plugins w
      | Some plugin \<Rightarrow>
          (case map_of groups resourceName of
             None \<Rightarrow>
               (case plugin_Stop plugin w of
                  (Some err, plugin, w) \<Rightarrow>
                    Some (Some (StopPluginFailed resourceName err), groups,
                      AList.update resourceName plugin plugins, w)
                | (None, plugin, w) \<Rightarrow>
                    reconcile_existing api names groups (AList.delete resourceName plugins)
                      (emit LevelInfo ''Stopped device plugin for absent resource''
                        [(''resourceName'', LString resourceName)] w))
           | Some g \<Rightarrow>
               Option.bind (UpdateDevices api (Devices g) plugin w) (\<lambda>(plugin, w).
                 reconcile_existing api names (AList.delete resourceName groups)
                   (AList.update resourceName plugin plugins) w)))"

fun reconcile_new ::
    "kubelet_api \<Rightarrow> flags \<Rightarrow> cdiHandler \<Rightarrow> string list \<Rightarrow> deviceGroup go_map \<Rightarrow>
     resourcePlugin go_map \<Rightarrow> world \<Rightarrow> manager_error option \<times> resourcePlugin go_map \<times> world" where
  "reconcile_new api flags cdi [] groups plugins w = (None, plugins, w)"
| "reconcile_new api flags cdi (resourceName # names) groups plugins w =
     (case map_of groups resourceName of
        None \<Rightarrow> reconcile_new api flags cdi names groups plugins w
      | Some g \<Rightarrow>
          (let plugin = NewResourcePlugin resourceName (resource_socket flags resourceName)
                 (KubeletSocketPath api flags) (Some cdi) (Devices g) in
           case plugin_Start api plugin w of
             (Some err, _, w) \<Rightarrow> (Some (StartPluginFailed resourceName err), plugins, w)
           | (None, plugin, w) \<Rightarrow>
               reconcile_new api flags cdi names groups (AList.update resourceName plugin plugins) w))"

definition discovered_count :: "deviceGroup go_map \<Rightarrow> nat" where
  "discovered_count groups = (\<Sum>(_, g)\<leftarrow>groups. length (Devices g))"

definition reconcile ::
    "kubelet_api \<Rightarrow> flags \<Rightarrow> scan \<Rightarrow> manager \<Rightarrow> world \<Rightarrow>
     (manager_error option \<times> manager \<times> world) option" where
  "reconcile api flags scan m w =
     (let groups = discoverDeviceGroups api (sc_fs scan) (sc_devices scan);
          w = emit_all (discoverDeviceGroups_log (sc_fs scan) (sc_devices scan)) w;
          discovered = discovered_count groups in
      map_option (\<lambda>(r, groups, plugins, w).
          case r of
            Some err \<Rightarrow> (Some err, m\<lparr>m_plugins := plugins\<rparr>, w)
          | None \<Rightarrow>
              (case reconcile_new api flags (m_cdi m) (sc_order scan (map fst groups)) groups plugins w of
                 (Some err, plugins, w) \<Rightarrow> (Some err, m\<lparr>m_plugins := plugins\<rparr>, w)
               | (None, plugins, w) \<Rightarrow>
                   (None, m\<lparr>m_plugins := plugins\<rparr>,
                    emit LevelDebug ''Reconciled device inventory''
                      [(''resourceCount'', LInt (int (length plugins))),
                       (''deviceCount'', LInt (int discovered)), (''durationMs'', LElapsed)] w)))
        (reconcile_existing api (sc_order scan (map fst (m_plugins m))) groups (m_plugins m) w))"

section \<open>restart and Stop\<close>

fun stop_all ::
    "string list \<Rightarrow> resourcePlugin go_map \<Rightarrow> world \<Rightarrow> manager_error option \<times> resourcePlugin go_map \<times> world"
  where
  "stop_all [] plugins w = (None, plugins, w)"
| "stop_all (resourceName # names) plugins w =
     (case map_of plugins resourceName of
        None \<Rightarrow> stop_all names plugins w
      | Some plugin \<Rightarrow>
          (case plugin_Stop plugin w of
             (Some err, plugin, w) \<Rightarrow>
               (Some (StopPluginFailed resourceName err), AList.update resourceName plugin plugins, w)
           | (None, plugin, w) \<Rightarrow> stop_all names (AList.update resourceName plugin plugins) w))"

definition restart ::
    "kubelet_api \<Rightarrow> flags \<Rightarrow> dir_listing \<Rightarrow> scan \<Rightarrow> manager \<Rightarrow> world \<Rightarrow>
     (manager_error option \<times> manager \<times> world) option" where
  "restart api flags read_dir scan m w =
     (case stop_all (sc_order scan (map fst (m_plugins m))) (m_plugins m) w of
        (Some err, plugins, w) \<Rightarrow> Some (Some err, m\<lparr>m_plugins := plugins\<rparr>, w)
      | (None, _, w) \<Rightarrow>
          (case cdi_Initialize read_dir (m_cdi m) w of
             (Some err, w) \<Rightarrow> Some (Some (CdiInitializeFailed err), m\<lparr>m_plugins := []\<rparr>, w)
           | (None, w) \<Rightarrow> reconcile api flags scan (m\<lparr>m_plugins := []\<rparr>) w))"

fun stop_logged :: "string list \<Rightarrow> resourcePlugin go_map \<Rightarrow> world \<Rightarrow> world" where
  "stop_logged [] plugins w = w"
| "stop_logged (resourceName # names) plugins w =
     (case map_of plugins resourceName of
        None \<Rightarrow> stop_logged names plugins w
      | Some plugin \<Rightarrow>
          (case plugin_Stop plugin w of
             (Some err, _, w) \<Rightarrow> stop_logged names plugins
               (emit LevelError ''Failed to stop device plugin''
                 [(''err'', LErr (err_text err)), (''resourceName'', LString resourceName)] w)
           | (None, _, w) \<Rightarrow> stop_logged names plugins w))"

definition manager_Stop ::
    "(string list \<Rightarrow> string list) \<Rightarrow> manager \<Rightarrow> world \<Rightarrow> manager \<times> world" where
  "manager_Stop order m w =
     (let (health, w) = (case m_health m of
              None \<Rightarrow> (None, w)
            | Some h \<Rightarrow> (let h = SetServing False h in (Some h, health_Stop h w)));
          w = stop_logged (order (map fst (m_plugins m))) (m_plugins m) w;
          w = emit LevelInfo ''Stopped rbln-device-plugin''
                [(''resourceCount'', LInt (int (length (m_plugins m))))] w
      in (m\<lparr>m_health := health, m_plugins := []\<rparr>, w))"

end
