(* ===== verification/Sockets.thy ===== *)
theory Sockets imports Manager begin

text \<open>
  The sockets of the resources: distinct advertised resources have distinct sockets in the
  device-plugin directory, and none of them is the kubelet's.
\<close>

section \<open>Joining a directory and a name\<close>

lemma go_join_snoc: "go_join sep (ks @ [n]) = (if ks = [] then n else go_join sep ks @ sep @ n)"
proof (induction ks)
  case (Cons k ks)
  then show ?case by (cases ks) auto
qed simp

lemma path_join_name:
  assumes "good_seg n"
  shows "\<exists>pre. \<forall>n. good_seg n \<longrightarrow> path_join [d, n] = pre @ n"
proof -
  have plain: "go_split (CHR ''/'') n = [n]" if "good_seg n" for n
    using that by (simp add: go_split_plain good_seg_def)
  show ?thesis
  proof (cases "d = []")
    case True
    have "path_join [d, n] = n" if "good_seg n" for n
    proof -
      have "\<not> has_prefix n ''/''" using that by (cases n) (auto simp: good_seg_def has_prefix_def)
      with True that plain [OF that] show ?thesis
        by (auto simp: path_join_def path_clean_def clean_step_good good_seg_def Let_def)
    qed
    then show ?thesis by (intro exI [of _ "[]"]) simp
  next
    case False
    let ?r = "has_prefix d ''/''"
    let ?ks = "rev (foldl (clean_step ?r) [] (go_split (CHR ''/'') d))"
    have "path_join [d, n] = (if ?r then ''/'' else []) @ (if ?ks = [] then [] else go_join ''/'' ?ks @ ''/'') @ n"
      if "good_seg n" for n
    proof -
      have r: "has_prefix (d @ ''/'' @ n) ''/'' = ?r"
        using False by (cases d) (auto simp: has_prefix_def)
      have "go_split (CHR ''/'') (d @ ''/'' @ n) = go_split (CHR ''/'') d @ [n]"
        using go_split_append_sep [of "CHR ''/''" d n] plain [OF that] by simp
      then have kept: "rev (foldl (clean_step ?r) [] (go_split (CHR ''/'') (d @ ''/'' @ n))) = ?ks @ [n]"
        using that by (simp add: clean_step_good)
      have "path_clean (d @ ''/'' @ n)
          = (if ?r then ''/'' @ go_join ''/'' (?ks @ [n]) else go_join ''/'' (?ks @ [n]))"
        unfolding path_clean_def r Let_def kept by simp
      moreover have "path_join [d, n] = path_clean (d @ ''/'' @ n)"
        using False by (simp add: path_join_def)
      ultimately show ?thesis by (simp add: go_join_snoc)
    qed
    then show ?thesis
      by (intro exI [of _ "(if ?r then ''/'' else []) @ (if ?ks = [] then [] else go_join ''/'' ?ks @ ''/'')"])
        simp
  qed
qed

lemma path_join_name_inject:
  assumes "good_seg m" "good_seg n"
  shows "path_join [d, m] = path_join [d, n] \<longleftrightarrow> m = n"
  using path_join_name [OF assms(1), of d] assms by (metis append_same_eq same_append_eq)

section \<open>The sockets of the advertised resources\<close>

definition resource_names :: "string set" where
  "resource_names = {GenericResourceName, VFResourceNamePrefix @ ''1'', VFResourceNamePrefix @ ''4''}"

lemma resource_names_eq:
  "resource_names = {''rebellions.ai/npu'', ''rebellions.ai/npu-vf1'', ''rebellions.ai/npu-vf4''}"
  by (simp add: resource_names_def consts_defs)

lemma socket_names:
  "socketNameForResource ''rebellions.ai/npu'' = ''rbln-device-plugin-rebellions-ai-npu.sock''"
  "socketNameForResource ''rebellions.ai/npu-vf1'' = ''rbln-device-plugin-rebellions-ai-npu-vf1.sock''"
  "socketNameForResource ''rebellions.ai/npu-vf4'' = ''rbln-device-plugin-rebellions-ai-npu-vf4.sock''"
  by code_simp+

lemma socket_name_good: "r \<in> resource_names \<Longrightarrow> good_seg (socketNameForResource r)"
  by (auto simp: resource_names_eq socket_names good_seg_def)

lemma socket_name_inject:
  "r \<in> resource_names \<Longrightarrow> q \<in> resource_names \<Longrightarrow>
     socketNameForResource r = socketNameForResource q \<longleftrightarrow> r = q"
  by (auto simp: resource_names_eq socket_names)

lemma resource_socket_inject:
  "r \<in> resource_names \<Longrightarrow> q \<in> resource_names \<Longrightarrow>
     resource_socket flags r = resource_socket flags q \<longleftrightarrow> r = q"
  by (simp add: resource_socket_def path_join_name_inject socket_name_good socket_name_inject)

lemma discovered_resources:
  "map_of (discoverDeviceGroups api fs getDevices) r \<noteq> None \<Longrightarrow> r \<in> resource_names"
proof (cases getDevices)
  case (Inr ds)
  assume "map_of (discoverDeviceGroups api fs getDevices) r \<noteq> None"
  then obtain d where "resource_of fs d = Some r" unfolding Inr resource_listed_iff by blast
  then obtain p where "advertised fs d = Some (r, p)" by (auto simp: resource_of_def)
  then show ?thesis using advertised_resource by (simp add: resource_names_def)
qed (simp add: discoverDeviceGroups_def)

text \<open>
  The sockets of the resources do not collide.  Two resources a scan can advertise have the same
  socket path in the device-plugin directory only if they are the same resource, whatever the
  directory; and a socket of a resource is never the socket of the kubelet.
\<close>

theorem resource_sockets_distinct:
  assumes "map_of (discoverDeviceGroups api fs getDevices) r \<noteq> None"
    and "map_of (discoverDeviceGroups api' fs' getDevices') q \<noteq> None"
    and "path_base (KubeletSocket api) = ''kubelet.sock''"
  shows "(resource_socket flags r = resource_socket flags q \<longleftrightarrow> r = q)
    \<and> resource_socket flags r \<noteq> KubeletSocketPath api flags"
proof
  note n = discovered_resources [OF assms(1)] discovered_resources [OF assms(2)]
  show "resource_socket flags r = resource_socket flags q \<longleftrightarrow> r = q"
    by (rule resource_socket_inject [OF n])
  have "good_seg ''kubelet.sock''" by (simp add: good_seg_def)
  moreover have "socketNameForResource r \<noteq> ''kubelet.sock''"
    using n(1) by (auto simp: resource_names_eq socket_names)
  ultimately show "resource_socket flags r \<noteq> KubeletSocketPath api flags"
    by (simp add: resource_socket_def KubeletSocketPath_def assms(3) path_join_name_inject
        socket_name_good [OF n(1)])
qed

definition sample_flags :: flags where
  "sample_flags = \<lparr>cdiRoot = ''/var/run/cdi'', kubeletDevicePluginPath = ''/var/lib/kubelet/device-plugins/'',
     healthcheckPort = 51515, deviceScanInterval = 5000000000, otlpEndpoint = []\<rparr>"

theorem resource_sockets_distinct_witness:
  "resource_socket sample_flags ''rebellions.ai/npu'' \<noteq> resource_socket sample_flags ''rebellions.ai/npu-vf4''"
proof -
  have "map_of (discoverDeviceGroups sample_api sriov_fs (Inr sriov_devices)) ''rebellions.ai/npu'' \<noteq> None"
    "map_of (discoverDeviceGroups sample_api sriov_fs (Inr sriov_devices)) ''rebellions.ai/npu-vf4'' \<noteq> None"
    "path_base (KubeletSocket sample_api) = ''kubelet.sock''" by code_simp+
  from resource_sockets_distinct [OF this, of sample_flags] show ?thesis by simp
qed

end
