(* ===== verification/ManagerFacts.thy ===== *)
theory ManagerFacts imports Sockets begin

text \<open>
  The invariant of the manager, kept by every loop of \<open>reconcile\<close>, and what each loop does to the
  plugins, the groups and the world.
\<close>

section \<open>The invariant\<close>

text \<open>A plugin of the map has been started, and it has been stopped exactly when its socket is closed.\<close>

definition plugin_ok :: "flags \<Rightarrow> string \<Rightarrow> resourcePlugin \<Rightarrow> world \<Rightarrow> bool" where
  "plugin_ok flags r p w \<longleftrightarrow>
     p_resourceName p = r \<and> p_socketPath p = resource_socket flags r \<and> length (p_updateCh p) \<le> 1
     \<and> p_server p \<and> p_listener p \<and> (p_stopCh p \<longleftrightarrow> resource_socket flags r \<notin> set (w_listening w))"

text \<open>No resource outside the map has a listener.\<close>

definition manager_inv :: "flags \<Rightarrow> resourcePlugin go_map \<Rightarrow> world \<Rightarrow> bool" where
  "manager_inv flags plugins w \<longleftrightarrow>
     go_map_ok plugins \<and> fst ` set plugins \<subseteq> resource_names
     \<and> (\<forall>r p. map_of plugins r = Some p \<longrightarrow> plugin_ok flags r p w)
     \<and> (\<forall>r\<in>resource_names. map_of plugins r = None \<longrightarrow> resource_socket flags r \<notin> set (w_listening w))"

definition all_running :: "resourcePlugin go_map \<Rightarrow> bool" where
  "all_running plugins \<longleftrightarrow> (\<forall>r p. map_of plugins r = Some p \<longrightarrow> \<not> p_stopCh p)"

text \<open>Paths and listeners that belong to no resource are as before.\<close>

definition others_same :: "flags \<Rightarrow> world \<Rightarrow> world \<Rightarrow> bool" where
  "others_same flags w w' \<longleftrightarrow>
     (\<forall>q. q \<notin> resource_socket flags ` resource_names \<longrightarrow>
        (q \<in> set (w_listening w') \<longleftrightarrow> q \<in> set (w_listening w))
        \<and> (q \<in> set (w_paths w') \<longleftrightarrow> q \<in> set (w_paths w)))"

lemma others_same_refl [simp]: "others_same flags w w"
  by (simp add: others_same_def)

lemma others_same_trans: "others_same flags u v \<Longrightarrow> others_same flags v w \<Longrightarrow> others_same flags u w"
  by (simp add: others_same_def)

lemma manager_inv_plugin: "manager_inv flags plugins w \<Longrightarrow> map_of plugins r = Some p \<Longrightarrow> plugin_ok flags r p w"
  by (simp add: manager_inv_def)

lemma manager_inv_resource: "manager_inv flags plugins w \<Longrightarrow> map_of plugins r = Some p \<Longrightarrow> r \<in> resource_names"
  by (auto simp: manager_inv_def dest: map_of_in_keys)

lemma manager_inv_Nil:
  "(\<forall>r\<in>resource_names. resource_socket flags r \<notin> set (w_listening w)) \<Longrightarrow> manager_inv flags [] w"
  by (simp add: manager_inv_def)

lemma manager_inv_world:
  "manager_inv flags plugins w \<Longrightarrow>
     (\<forall>r\<in>resource_names. resource_socket flags r \<in> set (w_listening w')
        \<longleftrightarrow> resource_socket flags r \<in> set (w_listening w)) \<Longrightarrow> manager_inv flags plugins w'"
proof -
  assume inv: "manager_inv flags plugins w"
    and same: "\<forall>r\<in>resource_names. resource_socket flags r \<in> set (w_listening w')
        \<longleftrightarrow> resource_socket flags r \<in> set (w_listening w)"
  have "plugin_ok flags r p w'" if "map_of plugins r = Some p" for r p
    using manager_inv_plugin [OF inv that] same manager_inv_resource [OF inv that]
    by (simp add: plugin_ok_def)
  with inv same show "manager_inv flags plugins w'" by (simp add: manager_inv_def)
qed

text \<open>The listeners of all resources but one are as before.\<close>

definition resources_same :: "flags \<Rightarrow> string \<Rightarrow> world \<Rightarrow> world \<Rightarrow> bool" where
  "resources_same flags r w w' \<longleftrightarrow>
     (\<forall>q\<in>resource_names. q \<noteq> r \<longrightarrow>
        (resource_socket flags q \<in> set (w_listening w') \<longleftrightarrow> resource_socket flags q \<in> set (w_listening w)))"

lemma resources_same_eq:
  "set (w_listening w') = set (w_listening w) \<Longrightarrow> resources_same flags r w w'"
  by (simp add: resources_same_def)

lemma resources_same_removed:
  "r \<in> resource_names \<Longrightarrow> set (w_listening w') = set (w_listening w) - {resource_socket flags r} \<Longrightarrow>
     resources_same flags r w w'"
  by (simp add: resources_same_def resource_socket_inject)

lemma resources_same_added:
  "r \<in> resource_names \<Longrightarrow> set (w_listening w') = insert (resource_socket flags r) (set (w_listening w)) \<Longrightarrow>
     resources_same flags r w w'"
  by (simp add: resources_same_def resource_socket_inject)

lemma plugin_ok_other:
  "manager_inv flags plugins w \<Longrightarrow> resources_same flags r w w' \<Longrightarrow> map_of plugins q = Some p \<Longrightarrow> q \<noteq> r \<Longrightarrow>
     plugin_ok flags q p w'"
  using manager_inv_plugin [of flags plugins w q p] manager_inv_resource [of flags plugins w q p]
  by (simp add: plugin_ok_def resources_same_def)

lemma manager_inv_delete:
  assumes "manager_inv flags plugins w" "resources_same flags r w w'"
    and "resource_socket flags r \<notin> set (w_listening w')"
  shows "manager_inv flags (AList.delete r plugins) w'"
  using assms plugin_ok_other [OF assms(1,2)]
  by (auto simp: manager_inv_def go_map_ok_delete go_map_simps resources_same_def split: if_splits)

lemma manager_inv_update:
  assumes "manager_inv flags plugins w" "r \<in> resource_names" "resources_same flags r w w'"
    and "plugin_ok flags r p w'"
  shows "manager_inv flags (AList.update r p plugins) w'"
  using assms plugin_ok_other [OF assms(1,3)]
  by (auto simp: manager_inv_def go_map_ok_update go_map_simps resources_same_def split: if_splits)

section \<open>The loop over the plugins\<close>

lemma logInventoryDelta_fields [world_simps]:
  "w_paths (logInventoryDelta api p delta h u w) = w_paths w"
  "w_listening (logInventoryDelta api p delta h u w) = w_listening w"
  "w_registered (logInventoryDelta api p delta h u w) = w_registered w"
  "w_fault (logInventoryDelta api p delta h u w) = w_fault w"
  by (simp_all add: logInventoryDelta_def Let_def log_with_def world_simps)

lemma UpdateDevices_world:
  "UpdateDevices api ds p w = Some (p', w') \<Longrightarrow>
     w_paths w' = w_paths w \<and> w_listening w' = w_listening w \<and> w_registered w' = w_registered w
     \<and> w_fault w' = w_fault w"
  by (auto simp: UpdateDevices_def Let_def split_beta world_simps)

definition updated :: "kubelet_api \<Rightarrow> resourcePlugin \<Rightarrow> deviceGroup \<Rightarrow> resourcePlugin" where
  "updated api p g = p\<lparr>p_devices := Devices g, p_updateCh := [clonePluginDevices api (Devices g)]\<rparr>"

lemma plugin_ok_updated:
  "plugin_ok flags r p w \<Longrightarrow> set (w_listening w') = set (w_listening w) \<Longrightarrow>
     plugin_ok flags r (updated api p g) w'"
  by (simp add: plugin_ok_def updated_def)

lemma updated_stopCh [simp]: "p_stopCh (updated api p g) = p_stopCh p"
  by (simp add: updated_def)

lemma UpdateDevices_updated:
  assumes "plugin_ok flags r p w"
  shows "\<exists>w'. UpdateDevices api (Devices g) p w = Some (updated api p g, w')
    \<and> set (w_listening w') = set (w_listening w) \<and> w_registered w' = w_registered w
    \<and> others_same flags w w'"
proof -
  obtain w' where u: "UpdateDevices api (Devices g) p w = Some (updated api p g, w')"
    using UpdateDevices_total [of p api "Devices g" w] assms by (auto simp: plugin_ok_def updated_def)
  from u UpdateDevices_world [OF u] show ?thesis by (simp add: others_same_def)
qed

lemma plugin_Stop_managed:
  assumes "plugin_ok flags r p w" "r \<in> resource_names" "plugin_Stop p w = (e, p', w')"
  shows "resources_same flags r w w'" "resource_socket flags r \<notin> set (w_listening w')"
    "plugin_ok flags r p' w'" "p_stopCh p'" "w_registered w' = w_registered w" "others_same flags w w'"
    "e = None \<Longrightarrow> resource_socket flags r \<notin> set (w_paths w')"
proof -
  note c = plugin_Stop_cases [OF assms(3)]
  have s: "p_socketPath p = resource_socket flags r" "p_server p" using assms(1) by (simp_all add: plugin_ok_def)
  have ls: "set (w_listening w') = set (w_listening w) - {resource_socket flags r}" using c(2) s by simp
  show "resources_same flags r w w'" by (rule resources_same_removed [OF assms(2) ls])
  show out: "resource_socket flags r \<notin> set (w_listening w')" by (simp add: ls)
  show "p_stopCh p'" by (simp add: c(1))
  show "plugin_ok flags r p' w'" using assms(1) out by (simp add: plugin_ok_def c(1))
  show "w_registered w' = w_registered w" by (rule c(5))
  show "others_same flags w w'" using c(3,4) s assms(2) by (auto simp: others_same_def)
  show "e = None \<Longrightarrow> resource_socket flags r \<notin> set (w_paths w')" using c(8) s by simp
qed

lemma manager_inv_emit [simp]: "manager_inv flags plugins (emit l m a w) \<longleftrightarrow> manager_inv flags plugins w"
  by (simp add: manager_inv_def plugin_ok_def world_simps)

lemma manager_inv_emit_all [simp]: "manager_inv flags plugins (emit_all rs w) \<longleftrightarrow> manager_inv flags plugins w"
  by (simp add: manager_inv_def plugin_ok_def world_simps)

lemma others_same_emit_all [simp]:
  "others_same flags (emit_all rs w) w' \<longleftrightarrow> others_same flags w w'"
  by (simp add: others_same_def world_simps)

lemma others_same_emit [simp]: "others_same flags w (emit l m a w') \<longleftrightarrow> others_same flags w w'"
  by (simp add: others_same_def world_simps)

end
