(* ===== verification/Reconcile.thy ===== *)
theory Reconcile imports ManagerFacts begin

text \<open>
  What a successful \<open>reconcile\<close> achieves, through the functional description of its two loops.
\<close>

section \<open>The loop over the plugins, when it succeeds\<close>

definition after_existing ::
    "kubelet_api \<Rightarrow> string list \<Rightarrow> deviceGroup go_map \<Rightarrow> resourcePlugin go_map \<Rightarrow> string \<Rightarrow> resourcePlugin option"
  where
  "after_existing api names groups plugins r =
     (case map_of plugins r of
        None \<Rightarrow> None
      | Some p \<Rightarrow> if r \<in> set names then map_option (updated api p) (map_of groups r) else Some p)"

definition left_groups ::
    "string list \<Rightarrow> deviceGroup go_map \<Rightarrow> resourcePlugin go_map \<Rightarrow> string \<Rightarrow> deviceGroup option" where
  "left_groups names groups plugins r =
     (if r \<in> set names \<and> map_of plugins r \<noteq> None then None else map_of groups r)"

text \<open>
  One iteration: either it ends the loop because the plugin of an absent resource failed to stop, or the
  rest of the loop runs on changed plugins and groups.
\<close>

lemma existing_step:
  assumes inv: "manager_inv flags plugins w" and p: "map_of plugins r = Some p"
  obtains
    (failed) p' w1 err where "reconcile_existing api (r # names) groups plugins w
        = Some (Some (StopPluginFailed r err), groups, AList.update r p' plugins, w1)"
      "map_of groups r = None" "p_stopCh p'"
      "manager_inv flags (AList.update r p' plugins) w1" "others_same flags w w1"
      "w_registered w1 = w_registered w"
  | (continue) plugins1 groups1 w1 where
      "reconcile_existing api (r # names) groups plugins w = reconcile_existing api names groups1 plugins1 w1"
      "manager_inv flags plugins1 w1" "others_same flags w w1" "w_registered w1 = w_registered w"
      "\<forall>q. map_of plugins1 q = (if q = r then map_option (updated api p) (map_of groups r) else map_of plugins q)"
      "\<forall>q. map_of groups1 q = (if q = r then None else map_of groups q)"
      "go_map_ok groups \<longrightarrow> go_map_ok groups1"
proof -
  note ok = manager_inv_plugin [OF inv p] and res = manager_inv_resource [OF inv p]
  show thesis
  proof (cases "map_of groups r")
    case None
    obtain e p' w1 where stop: "plugin_Stop p w = (e, p', w1)" by (metis prod_cases3)
    note st = plugin_Stop_managed [OF ok res stop]
    show thesis
    proof (cases e)
      case (Some err)
      show thesis
        by (rule failed [OF _ None st(4) manager_inv_update [OF inv res st(1,3)] st(6,5)])
          (simp add: p None stop Some)
    next
      case e: None
      let ?w = "emit LevelInfo ''Stopped device plugin for absent resource'' [(''resourceName'', LString r)] w1"
      show thesis
      proof (rule continue)
        show "reconcile_existing api (r # names) groups plugins w
            = reconcile_existing api names groups (AList.delete r plugins) ?w"
          by (simp add: p None stop e)
        show "manager_inv flags (AList.delete r plugins) ?w"
          using manager_inv_delete [OF inv st(1,2)] by simp
      qed (use None st(5,6) in \<open>simp_all add: go_map_simps world_simps\<close>)
    qed
  next
    case (Some g)
    obtain w1 where u: "UpdateDevices api (Devices g) p w = Some (updated api p g, w1)"
      "set (w_listening w1) = set (w_listening w)" "w_registered w1 = w_registered w" "others_same flags w w1"
      using UpdateDevices_updated [OF ok] by blast
    show thesis
    proof (rule continue)
      show "reconcile_existing api (r # names) groups plugins w
          = reconcile_existing api names (AList.delete r groups) (AList.update r (updated api p g) plugins) w1"
        by (simp add: p Some u(1))
      show "manager_inv flags (AList.update r (updated api p g) plugins) w1"
        by (rule manager_inv_update [OF inv res resources_same_eq [OF u(2)] plugin_ok_updated [OF ok u(2)]])
    qed (use Some u(3,4) in \<open>simp_all add: go_map_simps go_map_ok_delete\<close>)
  qed
qed

lemma reconcile_existing_spec:
  assumes "manager_inv flags plugins w" "distinct names"
  shows "\<exists>e groups' plugins' w'. reconcile_existing api names groups plugins w = Some (e, groups', plugins', w')
    \<and> manager_inv flags plugins' w' \<and> others_same flags w w' \<and> w_registered w' = w_registered w
    \<and> (e = None \<longrightarrow> map_of plugins' = after_existing api names groups plugins
        \<and> map_of groups' = left_groups names groups plugins \<and> (go_map_ok groups \<longrightarrow> go_map_ok groups'))
    \<and> (\<forall>err. e = Some err \<longrightarrow> (\<exists>q\<in>set names. \<exists>fe. err = StopPluginFailed q fe \<and> map_of groups q = None))"
  using assms
proof (induction names arbitrary: groups plugins w)
  case Nil
  then show ?case
    by (auto simp: after_existing_def left_groups_def fun_eq_iff split: option.split)
next
  case (Cons r names)
  show ?case
  proof (cases "map_of plugins r")
    case None
    have "after_existing api (r # names) groups plugins = after_existing api names groups plugins"
      "left_groups (r # names) groups plugins = left_groups names groups plugins"
      using None by (auto simp: after_existing_def left_groups_def fun_eq_iff split: option.split)
    with None Cons.IH [OF Cons.prems(1), of groups] Cons.prems(2) show ?thesis by simp blast
  next
    case (Some p)
    show ?thesis
    proof (rule existing_step [OF Cons.prems(1) Some, where api = api and names = names and groups = groups])
      fix p' w1 err
      assume "reconcile_existing api (r # names) groups plugins w
          = Some (Some (StopPluginFailed r err), groups, AList.update r p' plugins, w1)"
        "map_of groups r = None" "manager_inv flags (AList.update r p' plugins) w1"
        "others_same flags w w1" "w_registered w1 = w_registered w"
      then show ?thesis by simp
    next
      fix plugins1 groups1 w1
      assume s: "reconcile_existing api (r # names) groups plugins w
          = reconcile_existing api names groups1 plugins1 w1"
        "manager_inv flags plugins1 w1" "others_same flags w w1" "w_registered w1 = w_registered w"
        "\<forall>q. map_of plugins1 q = (if q = r then map_option (updated api p) (map_of groups r) else map_of plugins q)"
        "\<forall>q. map_of groups1 q = (if q = r then None else map_of groups q)"
        "go_map_ok groups \<longrightarrow> go_map_ok groups1"
      have r: "r \<notin> set names" "distinct names" using Cons.prems(2) by simp_all
      have "after_existing api names groups1 plugins1 = after_existing api (r # names) groups plugins"
        "left_groups names groups1 plugins1 = left_groups (r # names) groups plugins"
        using s(5,6) r(1) Some
        by (auto simp: after_existing_def left_groups_def fun_eq_iff split: option.split)
      moreover obtain e groups' plugins' w' where h:
        "reconcile_existing api names groups1 plugins1 w1 = Some (e, groups', plugins', w')"
        "manager_inv flags plugins' w'" "others_same flags w1 w'" "w_registered w' = w_registered w1"
        "e = None \<longrightarrow> map_of plugins' = after_existing api names groups1 plugins1
          \<and> map_of groups' = left_groups names groups1 plugins1 \<and> (go_map_ok groups1 \<longrightarrow> go_map_ok groups')"
        "\<forall>err. e = Some err \<longrightarrow> (\<exists>q\<in>set names. \<exists>fe. err = StopPluginFailed q fe \<and> map_of groups1 q = None)"
        using Cons.IH [OF s(2) r(2), of groups1] by blast
      moreover have "\<forall>err. e = Some err \<longrightarrow>
          (\<exists>q\<in>set (r # names). \<exists>fe. err = StopPluginFailed q fe \<and> map_of groups q = None)"
      proof (intro allI impI)
        fix err
        assume "e = Some err"
        then obtain q fe where q: "q \<in> set names" "err = StopPluginFailed q fe" "map_of groups1 q = None"
          using h(6) by blast
        then have "q \<noteq> r" using r(1) by blast
        with q s(6) show "\<exists>q\<in>set (r # names). \<exists>fe. err = StopPluginFailed q fe \<and> map_of groups q = None"
          by (intro bexI [of _ q]) simp_all
      qed
      ultimately show ?thesis
        using s(1,4,7) h(1,2,4,5) others_same_trans [OF s(3) h(3)]
        by (intro exI [of _ e] exI [of _ groups'] exI [of _ plugins'] exI [of _ w']) simp
    qed
  qed
qed

section \<open>The loop over the groups\<close>

definition new_plugin ::
    "kubelet_api \<Rightarrow> flags \<Rightarrow> cdiHandler \<Rightarrow> string \<Rightarrow> deviceGroup \<Rightarrow> resourcePlugin" where
  "new_plugin api flags cdi r g =
     (NewResourcePlugin r (resource_socket flags r) (KubeletSocketPath api flags) (Some cdi) (Devices g))
       \<lparr>p_listener := True, p_server := True\<rparr>"

definition resource_request :: "kubelet_api \<Rightarrow> flags \<Rightarrow> string \<Rightarrow> register_request" where
  "resource_request api flags r =
     \<lparr>rr_Version = ApiVersion api, rr_Endpoint = path_base (resource_socket flags r),
      rr_ResourceName = r, rr_PreferredAvailable = True\<rparr>"

lemma Start_new:
  assumes "manager_inv flags plugins w" "r \<in> resource_names" "map_of plugins r = None"
    and "plugin_Start api (NewResourcePlugin r (resource_socket flags r) (KubeletSocketPath api flags)
           (Some cdi) (Devices g)) w = (e, p', w')"
  shows "others_same flags w w'"
    "e = None \<Longrightarrow> p' = new_plugin api flags cdi r g \<and> serving p' w'
       \<and> manager_inv flags (AList.update r p' plugins) w'
       \<and> w_registered w' = w_registered w @ [resource_request api flags r]"
    "e \<noteq> None \<Longrightarrow> manager_inv flags plugins w' \<and> w_registered w' = w_registered w"
proof -
  let ?p = "NewResourcePlugin r (resource_socket flags r) (KubeletSocketPath api flags) (Some cdi) (Devices g)"
  have f: "\<not> p_stopCh ?p" "p_socketPath ?p = resource_socket flags r" "p_resourceName ?p = r" "p_updateCh ?p = []"
    by (simp_all add: NewResourcePlugin_def)
  note c = plugin_Start_cases [OF assms(4) f(1), unfolded f(2)]
  have free: "resource_socket flags r \<notin> set (w_listening w)"
    using assms(1-3) by (simp add: manager_inv_def)
  show "others_same flags w w'" using c(4,5) assms(2) by (auto simp: others_same_def)
  show "manager_inv flags plugins w' \<and> w_registered w' = w_registered w" if "e \<noteq> None"
  proof
    have "q \<in> set (w_listening w') \<longleftrightarrow> q \<in> set (w_listening w)" for q
      using c(3) [OF that free] c(4) [of q] free by (cases "q = resource_socket flags r") simp_all
    then have "set (w_listening w') = set (w_listening w)" by blast
    then show "manager_inv flags plugins w'" using manager_inv_world [OF assms(1)] by blast
  qed (rule c(2) [OF that])
  assume "e = None"
  from c(1) [OF this] have p': "p' = new_plugin api flags cdi r g" "serving p' w'"
    "w_registered w' = w_registered w @ [register_request_of api ?p]"
    by (auto simp: new_plugin_def)
  have "register_request_of api ?p = resource_request api flags r"
    by (simp add: register_request_of_def resource_request_def f)
  with p'(3) have reg: "w_registered w' = w_registered w @ [resource_request api flags r]" by simp
  have ok: "plugin_ok flags r p' w'"
    using p'(2) by (simp add: plugin_ok_def serving_def p'(1) new_plugin_def f)
  have ls: "set (w_listening w') = insert (resource_socket flags r) (set (w_listening w))"
  proof (rule set_eqI)
    fix q
    show "q \<in> set (w_listening w') \<longleftrightarrow> q \<in> insert (resource_socket flags r) (set (w_listening w))"
      using p'(2) c(4) [of q]
      by (cases "q = resource_socket flags r") (simp_all add: serving_def p'(1) new_plugin_def f(2))
  qed
  show "p' = new_plugin api flags cdi r g \<and> serving p' w'
       \<and> manager_inv flags (AList.update r p' plugins) w'
       \<and> w_registered w' = w_registered w @ [resource_request api flags r]"
    by (intro conjI p'(1,2) reg manager_inv_update [OF assms(1,2) resources_same_added [OF assms(2) ls] ok])
qed

definition after_new ::
    "kubelet_api \<Rightarrow> flags \<Rightarrow> cdiHandler \<Rightarrow> string list \<Rightarrow> deviceGroup go_map \<Rightarrow> resourcePlugin go_map \<Rightarrow>
     string \<Rightarrow> resourcePlugin option" where
  "after_new api flags cdi names groups plugins r =
     (case map_of groups r of
        Some g \<Rightarrow> if r \<in> set names then Some (new_plugin api flags cdi r g) else map_of plugins r
      | None \<Rightarrow> map_of plugins r)"

lemma reconcile_new_spec:
  assumes "manager_inv flags plugins w" "distinct names"
    and "\<forall>r\<in>set names. r \<in> resource_names \<and> map_of plugins r = None \<and> map_of groups r \<noteq> None"
    and "reconcile_new api flags cdi names groups plugins w = (e, plugins', w')"
  shows "manager_inv flags plugins' w' \<and> others_same flags w w'
    \<and> (\<exists>us ws. names = us @ ws \<and> (e = None \<longrightarrow> ws = [])
        \<and> map_of plugins' = after_new api flags cdi us groups plugins
        \<and> w_registered w' = w_registered w @ map (resource_request api flags) us)"
  using assms
proof (induction names arbitrary: plugins w)
  case Nil
  then show ?case
    by (auto simp: after_new_def fun_eq_iff split: option.split)
next
  case (Cons r names)
  then obtain g where g: "map_of groups r = Some g" and res: "r \<in> resource_names" "map_of plugins r = None"
    by auto
  obtain e1 p' w1 where run: "plugin_Start api (NewResourcePlugin r (resource_socket flags r)
      (KubeletSocketPath api flags) (Some cdi) (Devices g)) w = (e1, p', w1)" by (metis prod_cases3)
  note st = Start_new [OF Cons.prems(1) res run]
  show ?case
  proof (cases e1)
    case None
    have rest: "reconcile_new api flags cdi names groups (AList.update r p' plugins) w1 = (e, plugins', w')"
      using Cons.prems(4) g run None by (simp add: Let_def)
    have names: "\<forall>q\<in>set names. q \<in> resource_names \<and> map_of (AList.update r p' plugins) q = None
        \<and> map_of groups q \<noteq> None" "distinct names"
      using Cons.prems(2,3) by (auto simp: go_map_simps)
    note st1 = st(2) [OF None]
    obtain us ws where s: "manager_inv flags plugins' w'" "others_same flags w1 w'" "names = us @ ws"
      "e = None \<longrightarrow> ws = []"
      "map_of plugins' = after_new api flags cdi us groups (AList.update r p' plugins)"
      "w_registered w' = w_registered w1 @ map (resource_request api flags) us"
      using Cons.IH [OF _ names(2,1) rest] st1 by blast
    have "after_new api flags cdi us groups (AList.update r p' plugins)
        = after_new api flags cdi (r # us) groups plugins"
      using g st1 by (auto simp: after_new_def fun_eq_iff go_map_simps split: option.split)
    with s st1 others_same_trans [OF st(1) s(2)] show ?thesis
      by (intro conjI exI [of _ "r # us"] exI [of _ ws]) simp_all
  next
    case (Some err)
    then have "plugins' = plugins" "w' = w1" "e \<noteq> None"
      using Cons.prems(4) g run by (auto simp: Let_def)
    moreover have "map_of plugins = after_new api flags cdi [] groups plugins"
      by (auto simp: after_new_def fun_eq_iff split: option.split)
    ultimately show ?thesis
      using st(1,3) Some by (intro conjI exI [of _ "[]"] exI [of _ "r # names"]) simp_all
  qed
qed

end
