(* ===== verification/ManagerProps.thy ===== *)
theory ManagerProps imports Reconcile begin

text \<open>
  Properties of \<open>reconcile\<close>: the invariant under every pattern of failures, the agreement of
  plugins and inventory after a success, and the independence of Go's map iteration order.
\<close>

section \<open>reconcile as a whole\<close>

text \<open>Go iterates over every key of a map once, in any order.\<close>

definition order_ok :: "(string list \<Rightarrow> string list) \<Rightarrow> bool" where
  "order_ok order \<longleftrightarrow> (\<forall>xs. mset (order xs) = mset xs)"

lemma order_ok_set: "order_ok order \<Longrightarrow> set (order xs) = set xs"
  unfolding order_ok_def by (metis set_mset_mset)

lemma order_ok_distinct: "order_ok order \<Longrightarrow> distinct (order xs) \<longleftrightarrow> distinct xs"
  unfolding order_ok_def by (metis mset_eq_imp_distinct_iff)

text \<open>What a scan finds, and the plugins that belong to it.\<close>

abbreviation scan_groups :: "kubelet_api \<Rightarrow> scan \<Rightarrow> deviceGroup go_map" where
  "scan_groups api scan \<equiv> discoverDeviceGroups api (sc_fs scan) (sc_devices scan)"

definition target_plugin ::
    "kubelet_api \<Rightarrow> flags \<Rightarrow> scan \<Rightarrow> manager \<Rightarrow> string \<Rightarrow> resourcePlugin option" where
  "target_plugin api flags scan m r =
     (case map_of (scan_groups api scan) r of
        None \<Rightarrow> None
      | Some g \<Rightarrow> Some (case map_of (m_plugins m) r of
            Some p \<Rightarrow> updated api p g
          | None \<Rightarrow> new_plugin api flags (m_cdi m) r g))"

definition fresh_resources :: "kubelet_api \<Rightarrow> scan \<Rightarrow> manager \<Rightarrow> string set" where
  "fresh_resources api scan m =
     {r. map_of (scan_groups api scan) r \<noteq> None \<and> map_of (m_plugins m) r = None}"

lemma target_plugin_eq:
  assumes "set names = fst ` set (m_plugins m)" "set us = fresh_resources api scan m"
    and "\<forall>r. map_of groups r = left_groups names (scan_groups api scan) (m_plugins m) r"
    and "\<forall>r. map_of plugins r = after_existing api names (scan_groups api scan) (m_plugins m) r"
  shows "after_new api flags (m_cdi m) us groups plugins r = target_plugin api flags scan m r"
proof -
  have "r \<in> set names \<longleftrightarrow> map_of (m_plugins m) r \<noteq> None"
    using assms(1) by (metis keys_iff_map_of not_None_eq)
  then show ?thesis
    using assms(2-4)
    by (auto simp: after_new_def target_plugin_def left_groups_def after_existing_def
        fresh_resources_def split: option.split)
qed

lemma reconcile_outcome:
  assumes inv: "manager_inv flags (m_plugins m) w" and order: "order_ok (sc_order scan)"
  shows "\<exists>e m' w' new. reconcile api flags scan m w = Some (e, m', w')
    \<and> m_cdi m' = m_cdi m \<and> m_health m' = m_health m
    \<and> manager_inv flags (m_plugins m') w' \<and> others_same flags w w'
    \<and> distinct new \<and> set new \<subseteq> fresh_resources api scan m
    \<and> w_registered w' = w_registered w @ map (resource_request api flags) new
    \<and> (e = None \<longrightarrow> set new = fresh_resources api scan m
        \<and> map_of (m_plugins m') = target_plugin api flags scan m)"
proof -
  let ?groups = "scan_groups api scan" and ?names = "sc_order scan (map fst (m_plugins m))"
    and ?w = "emit_all (discoverDeviceGroups_log (sc_fs scan) (sc_devices scan)) w"
  have inv0: "manager_inv flags (m_plugins m) ?w" using inv by simp
  have ok: "groups_ok ?groups" by (rule discoverDeviceGroups_ok)
  have names: "distinct ?names" "set ?names = fst ` set (m_plugins m)"
    using inv order_ok_distinct [OF order] order_ok_set [OF order]
    by (simp_all add: manager_inv_def go_map_ok_def)
  obtain e groups1 plugins1 w1 where
    run: "reconcile_existing api ?names ?groups (m_plugins m) ?w = Some (e, groups1, plugins1, w1)"
    and s: "manager_inv flags plugins1 w1" "others_same flags w w1" "w_registered w1 = w_registered w"
      "e = None \<longrightarrow> map_of plugins1 = after_existing api ?names ?groups (m_plugins m)
        \<and> map_of groups1 = left_groups ?names ?groups (m_plugins m) \<and> (go_map_ok ?groups \<longrightarrow> go_map_ok groups1)"
    using reconcile_existing_spec [OF inv0 names(1), of api ?groups] by (auto simp: world_simps)
  show ?thesis
  proof (cases e)
    case (Some err)
    then have "reconcile api flags scan m w = Some (Some err, m\<lparr>m_plugins := plugins1\<rparr>, w1)"
      by (simp add: reconcile_def run)
    with s show ?thesis by (intro exI [of _ "Some err"] exI [of _ "m\<lparr>m_plugins := plugins1\<rparr>"] exI [of _ w1]
        exI [of _ "[]"]) simp
  next
    case None
    with s(4) have p1: "\<forall>r. map_of plugins1 r = after_existing api ?names ?groups (m_plugins m) r"
      and g1: "\<forall>r. map_of groups1 r = left_groups ?names ?groups (m_plugins m) r" and "go_map_ok groups1"
      using ok by (auto simp: groups_ok_def)
    let ?new = "sc_order scan (map fst groups1)"
    have in_names: "r \<in> set ?names \<longleftrightarrow> map_of (m_plugins m) r \<noteq> None" for r
      using names(2) by (metis keys_iff_map_of not_None_eq)
    have new: "set ?new = fresh_resources api scan m" "distinct ?new"
    proof -
      have "r \<in> set ?new \<longleftrightarrow> map_of groups1 r \<noteq> None" for r
        using order_ok_set [OF order, of "map fst groups1"] by (metis keys_iff_map_of not_None_eq set_map)
      then show "set ?new = fresh_resources api scan m"
        using g1 in_names by (auto simp: fresh_resources_def left_groups_def split: if_splits)
      show "distinct ?new" using order_ok_distinct [OF order] \<open>go_map_ok groups1\<close> by (simp add: go_map_ok_def)
    qed
    have pre: "\<forall>r\<in>set ?new. r \<in> resource_names \<and> map_of plugins1 r = None \<and> map_of groups1 r \<noteq> None"
    proof
      fix r
      assume "r \<in> set ?new"
      then have r: "map_of ?groups r \<noteq> None" "map_of (m_plugins m) r = None"
        using new(1) by (simp_all add: fresh_resources_def)
      then show "r \<in> resource_names \<and> map_of plugins1 r = None \<and> map_of groups1 r \<noteq> None"
        using discovered_resources [OF r(1)] p1 g1 by (simp add: after_existing_def left_groups_def)
    qed
    obtain e2 plugins2 w2 where run2: "reconcile_new api flags (m_cdi m) ?new groups1 plugins1 w1 = (e2, plugins2, w2)"
      by (metis prod_cases3)
    obtain us ws where t: "manager_inv flags plugins2 w2" "others_same flags w1 w2" "?new = us @ ws"
      "e2 = None \<longrightarrow> ws = []" "map_of plugins2 = after_new api flags (m_cdi m) us groups1 plugins1"
      "w_registered w2 = w_registered w1 @ map (resource_request api flags) us"
      using reconcile_new_spec [OF s(1) new(2) pre run2] by blast
    have sub: "distinct us" "set us \<subseteq> fresh_resources api scan m" using t(3) new by auto
    have full: "e2 = None \<longrightarrow> set us = fresh_resources api scan m
        \<and> map_of plugins2 = target_plugin api flags scan m"
    proof
      assume "e2 = None"
      with t(3,4) new(1) have us: "set us = fresh_resources api scan m" by simp
      with target_plugin_eq [OF names(2) us g1 p1] t(5)
      show "set us = fresh_resources api scan m \<and> map_of plugins2 = target_plugin api flags scan m"
        by (simp add: fun_eq_iff)
    qed
    define w3 where "w3 = (case e2 of Some _ \<Rightarrow> w2 | None \<Rightarrow> emit LevelDebug ''Reconciled device inventory''
        [(''resourceCount'', LInt (int (length plugins2))),
         (''deviceCount'', LInt (int (discovered_count ?groups))), (''durationMs'', LElapsed)] w2)"
    have "reconcile api flags scan m w = Some (e2, m\<lparr>m_plugins := plugins2\<rparr>, w3)"
      using run2 None by (simp add: reconcile_def run w3_def Let_def split: option.split)
    moreover have "manager_inv flags plugins2 w3" "others_same flags w w3" "w_registered w3 = w_registered w2"
      using t(1) others_same_trans [OF s(2) t(2)] by (simp_all add: w3_def world_simps split: option.split)
    ultimately show ?thesis
      using sub full t(6) s(3)
      by (intro exI [of _ e2] exI [of _ "m\<lparr>m_plugins := plugins2\<rparr>"] exI [of _ w3] exI [of _ us]) simp
  qed
qed

section \<open>Properties of reconcile\<close>

text \<open>
  \<open>reconcile\<close> keeps the manager consistent under every pattern of failing system calls, in
  every iteration order, and never blocks.  Whether it succeeds or returns an error, every plugin of
  the manager belongs to its resource and its socket, it is stopped exactly when this socket is
  closed, no other resource has an open socket, and paths and listeners of others are untouched.
\<close>

theorem reconcile_keeps_invariant:
  assumes "manager_inv flags (m_plugins m) w" "order_ok (sc_order scan)"
  shows "\<exists>e m' w'. reconcile api flags scan m w = Some (e, m', w')
    \<and> manager_inv flags (m_plugins m') w' \<and> others_same flags w w'"
  using reconcile_outcome [OF assms, of api] by blast

text \<open>
  C10: after a successful \<open>reconcile\<close> the plugins are the inventory.  There is a plugin for a
  resource exactly when the scan found a group for it; it holds the devices of the group and its
  channel the list of them; a plugin that was there is kept, one that was not is new and serves; and the
  kubelet received one registration for each new resource and none else.
\<close>

theorem reconcile_matches_inventory:
  assumes "manager_inv flags (m_plugins m) w" "order_ok (sc_order scan)"
    and "reconcile api flags scan m w = Some (None, m', w')"
  shows "map_of (m_plugins m') = target_plugin api flags scan m
    \<and> (\<forall>r. map_option p_devices (map_of (m_plugins m') r)
          = map_option Devices (map_of (scan_groups api scan) r))
    \<and> (\<exists>new. distinct new \<and> set new = fresh_resources api scan m
          \<and> w_registered w' = w_registered w @ map (resource_request api flags) new)
    \<and> (all_running (m_plugins m) \<longrightarrow> all_running (m_plugins m'))"
proof -
  obtain new where new: "distinct new" "set new = fresh_resources api scan m"
    "w_registered w' = w_registered w @ map (resource_request api flags) new"
    and target: "map_of (m_plugins m') = target_plugin api flags scan m"
    using reconcile_outcome [OF assms(1,2), of api] assms(3) by auto
  have "map_option p_devices (map_of (m_plugins m') r) = map_option Devices (map_of (scan_groups api scan) r)" for r
    by (auto simp: target target_plugin_def updated_def new_plugin_def NewResourcePlugin_def split: option.split)
  moreover have "all_running (m_plugins m')" if "all_running (m_plugins m)"
    using that
    by (auto simp: all_running_def target target_plugin_def new_plugin_def NewResourcePlugin_def
        split: option.splits)
  ultimately show ?thesis using new target by blast
qed

text \<open>
  C32: the result does not depend on Go's map iteration.  Two successful runs of \<open>reconcile\<close> on
  the same manager and the same scan, in different orders and with different failures on the way,
  end with the same plugins.
\<close>

theorem reconcile_order_independent:
  assumes "manager_inv flags (m_plugins m) w1" "manager_inv flags (m_plugins m) w2"
    and "order_ok (sc_order scan)" "order_ok order"
    and "reconcile api flags scan m w1 = Some (None, m1, w1')"
    and "reconcile api flags (scan\<lparr>sc_order := order\<rparr>) m w2 = Some (None, m2, w2')"
  shows "map_of (m_plugins m1) = map_of (m_plugins m2)"
proof -
  have "map_of (m_plugins m1) = target_plugin api flags scan m"
    using reconcile_outcome [OF assms(1,3), of api] assms(5) by auto
  moreover have "order_ok (sc_order (scan\<lparr>sc_order := order\<rparr>))" using assms(4) by simp
  then have "map_of (m_plugins m2) = target_plugin api flags (scan\<lparr>sc_order := order\<rparr>) m"
    using reconcile_outcome [OF assms(2), of "scan\<lparr>sc_order := order\<rparr>" api] assms(6) by auto
  moreover have "target_plugin api flags (scan\<lparr>sc_order := order\<rparr>) m = target_plugin api flags scan m"
    by (simp add: target_plugin_def fun_eq_iff)
  ultimately show ?thesis by simp
qed

definition sample_scan :: scan where
  "sample_scan = \<lparr>sc_fs = sriov_fs, sc_devices = Inr sriov_devices, sc_order = (\<lambda>xs. xs)\<rparr>"

definition sample_manager :: manager where
  "sample_manager = \<lparr>m_cdi = NewCDIHandler ''/var/run/cdi'', m_health = None, m_plugins = []\<rparr>"

lemma sample_order: "order_ok (\<lambda>xs. xs)" "order_ok (sc_order sample_scan)" "order_ok rev"
  by (simp_all add: order_ok_def sample_scan_def)

lemma sample_manager_inv: "manager_inv flags (m_plugins sample_manager) empty_world"
  by (simp add: sample_manager_def manager_inv_Nil empty_world_def)

lemma sample_reconcile:
  "\<exists>m w. reconcile sample_api sample_flags sample_scan sample_manager empty_world = Some (None, m, w)"
proof -
  have "map_option fst (reconcile sample_api sample_flags sample_scan sample_manager empty_world) = Some None"
    by code_simp
  then show ?thesis by auto
qed

theorem reconcile_keeps_invariant_witness:
  "\<exists>e m w. reconcile sample_api sample_flags sample_scan sample_manager register_fails_world = Some (e, m, w)
     \<and> manager_inv sample_flags (m_plugins m) w"
proof -
  have "manager_inv sample_flags (m_plugins sample_manager) register_fails_world"
    by (simp add: sample_manager_def manager_inv_Nil empty_world_def register_fails_world_def)
  from reconcile_keeps_invariant [OF this sample_order(2), of sample_api] show ?thesis by blast
qed

theorem reconcile_matches_inventory_witness:
  "\<exists>m w. reconcile sample_api sample_flags sample_scan sample_manager empty_world = Some (None, m, w)
     \<and> map_of (m_plugins m) ''rebellions.ai/npu-vf4'' \<noteq> None
     \<and> map_of (m_plugins m) ''rebellions.ai/npu-vf1'' = None \<and> all_running (m_plugins m)"
proof -
  obtain m w where run: "reconcile sample_api sample_flags sample_scan sample_manager empty_world = Some (None, m, w)"
    using sample_reconcile by blast
  have "map_of (scan_groups sample_api sample_scan) ''rebellions.ai/npu-vf4'' \<noteq> None"
    "map_of (scan_groups sample_api sample_scan) ''rebellions.ai/npu-vf1'' = None" by code_simp+
  moreover have "all_running (m_plugins sample_manager)" by (simp add: all_running_def sample_manager_def)
  ultimately show ?thesis
    using reconcile_matches_inventory [OF sample_manager_inv sample_order(2) run] run
    by (auto simp: target_plugin_def)
qed

theorem reconcile_order_independent_witness:
  "\<exists>m1 w1 m2 w2. reconcile sample_api sample_flags sample_scan sample_manager empty_world = Some (None, m1, w1)
     \<and> reconcile sample_api sample_flags (sample_scan\<lparr>sc_order := rev\<rparr>) sample_manager empty_world
         = Some (None, m2, w2)
     \<and> map_of (m_plugins m1) = map_of (m_plugins m2)"
proof -
  obtain m1 w1 where r1: "reconcile sample_api sample_flags sample_scan sample_manager empty_world = Some (None, m1, w1)"
    using sample_reconcile by blast
  have "map_option fst (reconcile sample_api sample_flags (sample_scan\<lparr>sc_order := rev\<rparr>) sample_manager
      empty_world) = Some None" by code_simp
  then obtain m2 w2 where r2: "reconcile sample_api sample_flags (sample_scan\<lparr>sc_order := rev\<rparr>)
      sample_manager empty_world = Some (None, m2, w2)" by auto
  from reconcile_order_independent [OF sample_manager_inv sample_manager_inv sample_order(2,3) r1 r2] r1 r2
  show ?thesis by blast
qed

end
