(* ===== verification/ScanLog.thy ===== *)
theory ScanLog imports Discovery begin

text \<open>
  What a scan reports: which devices of the node the log names, and at which level.
\<close>

section \<open>The records of one device\<close>

definition hosts_vfs :: "filesystem \<Rightarrow> rblnDevice \<Rightarrow> bool" where
  "hosts_vfs fs d \<longleftrightarrow> (case probeSRIOV fs (PCIBusID d) of Inl _ \<Rightarrow> False
     | Inr info \<Rightarrow> sriov_class info = sriovClassHostingPF)"

text \<open>Records the default gate lets through.\<close>

abbreviation visible :: "log_record list \<Rightarrow> log_record list" where
  "visible \<equiv> filter (\<lambda>r. LevelDebug < lr_level r)"

text \<open>A record that names a device and its address, as an error.\<close>

definition skip_record :: "rblnDevice \<Rightarrow> log_record \<Rightarrow> bool" where
  "skip_record d r \<longleftrightarrow> lr_level r = LevelError
     \<and> lr_msg r \<in> {''Skipping device with indeterminate SR-IOV state'',
         ''Skipping VF with unsupported SR-IOV partition mode''}
     \<and> (''device'', LString (Name d)) \<in> set (lr_attrs r)
     \<and> (''pciBusID'', LString (PCIBusID d)) \<in> set (lr_attrs r)"

lemma level_order [simp]: "LevelDebug < LevelError" "LevelDebug < LevelWarn" "LevelDebug < LevelInfo"
  by (simp_all add: slog_level_defs)

lemma visible_health: "visible (healthForDevice_log fs n) = []"
  by (simp add: healthForDevice_log_def slog_level_defs split: sum.split)

lemma hosting_not_advertised: "hosts_vfs fs d \<Longrightarrow> advertised fs d = None"
  by (auto simp: hosts_vfs_def advertised_def resourceForDevice_def split: sum.splits)

lemma device_log_cases:
  "(advertised fs d \<noteq> None \<or> hosts_vfs fs d) \<and> visible (discover_device_log fs d) = []
   \<or> (\<exists>r. advertised fs d = None \<and> \<not> hosts_vfs fs d \<and> visible (discover_device_log fs d) = [r]
        \<and> skip_record d r)"
proof (cases "probeSRIOV fs (PCIBusID d)")
  case (Inl err)
  then show ?thesis
    by (auto simp: discover_device_log_def advertised_def hosts_vfs_def skip_record_def slog_level_defs)
next
  case (Inr info)
  show ?thesis
  proof (cases "sriov_class info")
    case sriovClassNone
    with Inr show ?thesis
      by (simp add: discover_device_log_def advertised_def resourceForDevice_def visible_health)
  next
    case sriovClassHostingPF
    with Inr show ?thesis
      by (simp add: discover_device_log_def hosts_vfs_def resourceForDevice_def slog_level_defs)
  next
    case sriovClassVF
    with Inr show ?thesis
      by (cases "vfResourceName (numVFs info)")
        (auto simp: discover_device_log_def advertised_def hosts_vfs_def resourceForDevice_def visible_health
          skip_record_def)
  qed
qed

section \<open>The records of a scan\<close>

lemma scan_log_errors:
  "list_all2 skip_record (filter (\<lambda>d. advertised fs d = None \<and> \<not> hosts_vfs fs d) ds)
     (visible (discoverDeviceGroups_log fs (Inr ds)))"
proof (induction ds)
  case (Cons d ds)
  from device_log_cases [of fs d] Cons show ?case
    by (auto simp: discoverDeviceGroups_log_def hosting_not_advertised)
qed (simp add: discoverDeviceGroups_log_def)

text \<open>
  C18: a scan accounts for every device it leaves out.  At the default level the log of a scan holds, in
  the order of the devices, exactly one error for each device that is neither advertised nor a
  function hosting VFs, naming it and its PCI address, and nothing for the others; a failed device
  query is one error.
\<close>

theorem scan_log_accounts:
  "list_all2 skip_record (filter (\<lambda>d. advertised fs d = None \<and> \<not> hosts_vfs fs d) ds)
     (visible (discoverDeviceGroups_log fs (Inr ds)))
   \<and> (\<exists>r. visible (discoverDeviceGroups_log fs (Inl err)) = [r] \<and> lr_level r = LevelError
        \<and> (''err'', LErr err) \<in> set (lr_attrs r))"
  by (simp add: scan_log_errors, simp add: discoverDeviceGroups_log_def slog_level_defs)

end
