(* ===== verification/Quiet.thy ===== *)
theory Quiet imports ManagerProps ScanLog begin

text \<open>
  The steady state: a scan that finds nothing new.
\<close>

section \<open>Unchanged plugins\<close>

text \<open>The scan finds what the plugin has, up to what the inventory difference compares.\<close>

definition unchanged :: "resourcePlugin \<Rightarrow> deviceGroup \<Rightarrow> bool" where
  "unchanged p g \<longleftrightarrow> isEmpty (diffDeviceInventories (p_devices p) (Devices g))"

lemma UpdateDevices_unchanged:
  assumes "unchanged p g" "length (p_updateCh p) \<le> 1"
  shows "UpdateDevices api (Devices g) p w = Some (updated api p g, w)"
proof -
  obtain w' where u: "UpdateDevices api (Devices g) p w = Some (updated api p g, w')"
    using UpdateDevices_total [OF assms(2), of api "Devices g" w] by (auto simp: updated_def)
  have "w' = w"
    using u assms(1) by (auto simp: UpdateDevices_def Let_def split_beta unchanged_def logInventoryDelta_def)
  with u show ?thesis by simp
qed

lemma reconcile_existing_unchanged:
  assumes "distinct names"
    and "\<forall>r\<in>set names. \<exists>p g. map_of plugins r = Some p \<and> map_of groups r = Some g
      \<and> unchanged p g \<and> length (p_updateCh p) \<le> 1"
  shows "\<exists>groups' plugins'. reconcile_existing api names groups plugins w = Some (None, groups', plugins', w)"
  using assms
proof (induction names arbitrary: groups plugins)
  case (Cons r names)
  then obtain p g where pg: "map_of plugins r = Some p" "map_of groups r = Some g" "unchanged p g"
    "length (p_updateCh p) \<le> 1" by auto
  have "\<forall>q\<in>set names. \<exists>p' g'. map_of (AList.update r (updated api p g) plugins) q = Some p'
      \<and> map_of (AList.delete r groups) q = Some g' \<and> unchanged p' g' \<and> length (p_updateCh p') \<le> 1"
  proof
    fix q assume q: "q \<in> set names"
    with Cons.prems(1) have "q \<noteq> r" by auto
    moreover obtain p' g' where "map_of plugins q = Some p'" "map_of groups q = Some g'" "unchanged p' g'"
      "length (p_updateCh p') \<le> 1" using Cons.prems(2) q by auto
    ultimately show "\<exists>p' g'. map_of (AList.update r (updated api p g) plugins) q = Some p'
        \<and> map_of (AList.delete r groups) q = Some g' \<and> unchanged p' g' \<and> length (p_updateCh p') \<le> 1"
      by (intro exI [of _ p'] exI [of _ g']) (simp add: go_map_simps)
  qed
  from Cons.IH [OF _ this] Cons.prems(1) obtain groups' plugins' where
    "reconcile_existing api names (AList.delete r groups) (AList.update r (updated api p g) plugins) w
      = Some (None, groups', plugins', w)" by auto
  with pg UpdateDevices_unchanged [OF pg(3,4)] show ?case by simp
qed simp

text \<open>
  C17: the default stream is no heartbeat.  A scan that finds exactly the resources of the plugins, with
  devices the inventory difference does not tell apart, succeeds and changes nothing outside the plugins: it
  makes none of the calls of the plugin lifecycle that can fail (no file is removed, no socket opened, the
  kubelet is not dialled; the scan itself still reads sysfs), registers nothing, opens and closes nothing.  All it
  adds to the default stream is, in order, one error for each device that is neither advertised nor a function
  hosting VFs; a node without such devices adds nothing.
\<close>

theorem reconcile_quiet:
  assumes inv: "manager_inv flags (m_plugins m) w" and order: "order_ok (sc_order scan)"
    and scan: "sc_devices scan = Inr ds"
    and same: "\<forall>r. map_of (scan_groups api scan) r = None \<longleftrightarrow> map_of (m_plugins m) r = None"
      "\<forall>r p g. map_of (m_plugins m) r = Some p \<longrightarrow> map_of (scan_groups api scan) r = Some g \<longrightarrow> unchanged p g"
  shows "\<exists>m' w' errors. reconcile api flags scan m w = Some (None, m', w')
    \<and> visible (w_logs w') = visible (w_logs w) @ errors
    \<and> list_all2 skip_record
        (filter (\<lambda>d. advertised (sc_fs scan) d = None \<and> \<not> hosts_vfs (sc_fs scan) d) ds) errors
    \<and> w_clock w' = w_clock w
    \<and> w_registered w' = w_registered w \<and> w_listening w' = w_listening w \<and> w_paths w' = w_paths w"
proof -
  let ?groups = "scan_groups api scan" and ?names = "sc_order scan (map fst (m_plugins m))"
  let ?w = "emit_all (discoverDeviceGroups_log (sc_fs scan) (sc_devices scan)) w"
  have names: "distinct ?names" "set ?names = fst ` set (m_plugins m)"
    using inv order_ok_distinct [OF order] order_ok_set [OF order]
    by (simp_all add: manager_inv_def go_map_ok_def)
  have "\<forall>r\<in>set ?names. \<exists>p g. map_of (m_plugins m) r = Some p \<and> map_of ?groups r = Some g
      \<and> unchanged p g \<and> length (p_updateCh p) \<le> 1"
  proof
    fix r assume "r \<in> set ?names"
    then obtain p where p: "map_of (m_plugins m) r = Some p" using names(2) keys_iff_map_of by metis
    then obtain g where "map_of ?groups r = Some g" using same(1) by fastforce
    with p same(2) manager_inv_plugin [OF inv p] show "\<exists>p g. map_of (m_plugins m) r = Some p
        \<and> map_of ?groups r = Some g \<and> unchanged p g \<and> length (p_updateCh p) \<le> 1"
      by (simp add: plugin_ok_def)
  qed
  from reconcile_existing_unchanged [OF names(1) this] obtain groups' plugins' where
    run: "reconcile_existing api ?names ?groups (m_plugins m) ?w = Some (None, groups', plugins', ?w)" by blast
  have inv0: "manager_inv flags (m_plugins m) ?w" using inv by simp
  have "map_of groups' = left_groups ?names ?groups (m_plugins m)"
    using reconcile_existing_spec [OF inv0 names(1), of api ?groups] run by auto
  moreover have "left_groups ?names ?groups (m_plugins m) r = None" for r
    using same(1) names(2) keys_iff_map_of [of r "m_plugins m"] by (auto simp: left_groups_def)
  ultimately have "groups' = []" by (metis map_of_eq_empty_iff ext)
  moreover have "sc_order scan [] = []" using order_ok_set [OF order, of "[]"] by simp
  ultimately have "\<exists>attrs. reconcile api flags scan m w
      = Some (None, m\<lparr>m_plugins := plugins'\<rparr>, emit LevelDebug ''Reconciled device inventory'' attrs ?w)"
    by (intro exI) (simp add: reconcile_def Let_def run)
  then obtain attrs where result: "reconcile api flags scan m w
      = Some (None, m\<lparr>m_plugins := plugins'\<rparr>, emit LevelDebug ''Reconciled device inventory'' attrs ?w)" by blast
  have "visible (w_logs (emit LevelDebug ''Reconciled device inventory'' attrs ?w))
      = visible (w_logs w) @ visible (discoverDeviceGroups_log (sc_fs scan) (Inr ds))"
    by (simp add: emit_def emit_all_def scan)
  with result scan_log_errors [of "sc_fs scan" ds] show ?thesis
    by (intro exI [of _ "m\<lparr>m_plugins := plugins'\<rparr>"] exI
        [of _ "emit LevelDebug ''Reconciled device inventory'' attrs ?w"]
        exI [of _ "visible (discoverDeviceGroups_log (sc_fs scan) (Inr ds))"]) (simp add: world_simps)
qed

theorem reconcile_quiet_witness:
  "\<exists>m1 w1 m2 w2. reconcile sample_api sample_flags sample_scan sample_manager empty_world = Some (None, m1, w1)
     \<and> reconcile sample_api sample_flags sample_scan m1 w1 = Some (None, m2, w2)
     \<and> visible (w_logs w2) = visible (w_logs w1)
     \<and> w_clock w2 = w_clock w1 \<and> w_registered w2 = w_registered w1"
proof -
  obtain m1 w1 where run: "reconcile sample_api sample_flags sample_scan sample_manager empty_world = Some (None, m1, w1)"
    using sample_reconcile by blast
  then have inv: "manager_inv sample_flags (m_plugins m1) w1"
    and target: "map_of (m_plugins m1) = target_plugin sample_api sample_flags sample_scan sample_manager"
    using reconcile_outcome [OF sample_manager_inv [of sample_flags] sample_order(2), of sample_api] by auto
  have target: "map_of (m_plugins m1) r = map_option (new_plugin sample_api sample_flags (m_cdi sample_manager) r)
      (map_of (scan_groups sample_api sample_scan) r)" for r
    by (simp add: target target_plugin_def sample_manager_def split: option.split)
  have same: "\<forall>r. map_of (scan_groups sample_api sample_scan) r = None \<longleftrightarrow> map_of (m_plugins m1) r = None"
    "\<forall>r p g. map_of (m_plugins m1) r = Some p \<longrightarrow> map_of (scan_groups sample_api sample_scan) r = Some g \<longrightarrow> unchanged p g"
    by (auto simp: target unchanged_def diff_isEmpty new_plugin_def NewResourcePlugin_def)
  have "filter (\<lambda>d. advertised (sc_fs sample_scan) d = None \<and> \<not> hosts_vfs (sc_fs sample_scan) d) sriov_devices = []"
    by code_simp
  moreover have "sc_devices sample_scan = Inr sriov_devices" by (simp add: sample_scan_def)
  ultimately obtain m2 w2 where "reconcile sample_api sample_flags sample_scan m1 w1 = Some (None, m2, w2)"
    "visible (w_logs w2) = visible (w_logs w1)"
    "w_clock w2 = w_clock w1" "w_registered w2 = w_registered w1"
    using reconcile_quiet [OF inv sample_order(2) _ same] by fastforce
  with run show ?thesis by blast
qed

end
