(* ===== verification/ManagerStop.thy ===== *)
theory ManagerStop imports ManagerProps begin

text \<open>
  Stopping and restarting: \<open>restart\<close> after the kubelet comes back, \<open>Stop\<close> at shutdown, and
  what remains of a plugin whose \<open>Stop\<close> failed.
\<close>

section \<open>Stopping every plugin\<close>

lemma stop_step:
  assumes inv: "manager_inv flags plugins w" and p: "map_of plugins r = Some p"
    and stop: "plugin_Stop p w = (e, p', w')"
  shows "manager_inv flags (AList.update r p' plugins) w'" "others_same flags w w'"
    "w_registered w' = w_registered w" "p_stopCh p'"
proof -
  note ok = manager_inv_plugin [OF inv p] and res = manager_inv_resource [OF inv p]
  note st = plugin_Stop_managed [OF ok res stop]
  show "manager_inv flags (AList.update r p' plugins) w'" by (rule manager_inv_update [OF inv res st(1,3)])
  show "others_same flags w w'" "w_registered w' = w_registered w" "p_stopCh p'" by (rule st)+
qed

lemma stop_all_spec:
  assumes "manager_inv flags plugins w" "distinct names" "stop_all names plugins w = (e, plugins', w')"
  shows "manager_inv flags plugins' w' \<and> others_same flags w w' \<and> w_registered w' = w_registered w
    \<and> (\<forall>r. map_of plugins' r = None \<longleftrightarrow> map_of plugins r = None)
    \<and> (\<forall>r. r \<notin> set names \<longrightarrow> map_of plugins' r = map_of plugins r)
    \<and> (e = None \<longrightarrow> (\<forall>r\<in>set names. \<forall>p. map_of plugins' r = Some p \<longrightarrow> p_stopCh p))"
  using assms
proof (induction names arbitrary: plugins w)
  case (Cons r names)
  show ?case
  proof (cases "map_of plugins r")
    case None
    then have "stop_all names plugins w = (e, plugins', w')" using Cons.prems(3) by simp
    from Cons.IH [OF Cons.prems(1) _ this] Cons.prems(2) None show ?thesis by auto
  next
    case (Some p)
    obtain e1 p' w1 where stop: "plugin_Stop p w = (e1, p', w1)" by (metis prod_cases3)
    note st = stop_step [OF Cons.prems(1) Some stop]
    show ?thesis
    proof (cases e1)
      case e1: None
      then have "stop_all names (AList.update r p' plugins) w1 = (e, plugins', w')"
        using Cons.prems(3) Some stop by simp
      from Cons.IH [OF st(1) _ this] Cons.prems(2) have ih:
        "manager_inv flags plugins' w'" "others_same flags w1 w'" "w_registered w' = w_registered w1"
        "\<forall>q. map_of plugins' q = None \<longleftrightarrow> map_of (AList.update r p' plugins) q = None"
        "\<forall>q. q \<notin> set names \<longrightarrow> map_of plugins' q = map_of (AList.update r p' plugins) q"
        "e = None \<longrightarrow> (\<forall>r\<in>set names. \<forall>p. map_of plugins' r = Some p \<longrightarrow> p_stopCh p)"
        by auto
      have "map_of plugins' r = Some p'" using ih(5) Cons.prems(2) by (simp add: go_map_simps)
      with ih st(3,4) others_same_trans [OF st(2) ih(2)] Some show ?thesis
        by (auto simp: go_map_simps)
    next
      case (Some err)
      then have "e = Some (StopPluginFailed r err)" "plugins' = AList.update r p' plugins" "w' = w1"
        using Cons.prems(3) \<open>map_of plugins r = Some p\<close> stop by simp_all
      with st \<open>map_of plugins r = Some p\<close> show ?thesis by (auto simp: go_map_simps)
    qed
  qed
qed simp

lemma all_stopped_closed:
  assumes "manager_inv flags plugins w" "\<forall>r p. map_of plugins r = Some p \<longrightarrow> p_stopCh p"
  shows "\<forall>r\<in>resource_names. resource_socket flags r \<notin> set (w_listening w)"
proof
  fix r assume "r \<in> resource_names"
  with assms manager_inv_plugin [OF assms(1), of r]
  show "resource_socket flags r \<notin> set (w_listening w)"
    by (cases "map_of plugins r") (auto simp: manager_inv_def plugin_ok_def)
qed

section \<open>restart\<close>

definition restarted_plugin ::
    "kubelet_api \<Rightarrow> flags \<Rightarrow> scan \<Rightarrow> manager \<Rightarrow> string \<Rightarrow> resourcePlugin option" where
  "restarted_plugin api flags scan m r =
     map_option (new_plugin api flags (m_cdi m) r) (map_of (scan_groups api scan) r)"

lemma restart_outcome:
  assumes inv: "manager_inv flags (m_plugins m) w" and order: "order_ok (sc_order scan)"
  shows "\<exists>e m' w' new. restart api flags read_dir scan m w = Some (e, m', w')
    \<and> m_cdi m' = m_cdi m \<and> m_health m' = m_health m \<and> manager_inv flags (m_plugins m') w'
    \<and> distinct new \<and> w_registered w' = w_registered w @ map (resource_request api flags) new
    \<and> (e = None \<longrightarrow> set new = {r. map_of (scan_groups api scan) r \<noteq> None}
        \<and> map_of (m_plugins m') = restarted_plugin api flags scan m)"
proof -
  let ?names = "sc_order scan (map fst (m_plugins m))"
  have names: "distinct ?names" "set ?names = fst ` set (m_plugins m)"
    using inv order_ok_distinct [OF order] order_ok_set [OF order]
    by (simp_all add: manager_inv_def go_map_ok_def)
  obtain e plugins1 w1 where stop: "stop_all ?names (m_plugins m) w = (e, plugins1, w1)"
    by (metis prod_cases3)
  note st = stop_all_spec [OF inv names(1) stop]
  show ?thesis
  proof (cases e)
    case (Some err)
    with st show ?thesis
      by (intro exI [of _ "Some err"] exI [of _ "m\<lparr>m_plugins := plugins1\<rparr>"] exI [of _ w1] exI [of _ "[]"])
        (simp add: restart_def stop)
  next
    case None
    have "\<forall>r p. map_of plugins1 r = Some p \<longrightarrow> p_stopCh p"
      using st None names(2) by (metis keys_iff_map_of option.distinct(1) option.exhaust)
    then have closed: "\<forall>r\<in>resource_names. resource_socket flags r \<notin> set (w_listening w1)"
      using all_stopped_closed st by blast
    obtain e2 w2 where init: "cdi_Initialize read_dir (m_cdi m) w1 = (e2, w2)" by fastforce
    note ci = cdi_Initialize_fields [OF init]
    have inv2: "manager_inv flags [] w2" using closed ci(1) by (simp add: manager_inv_Nil)
    show ?thesis
    proof (cases e2)
      case (Some err)
      with inv2 ci(2) st None show ?thesis
        by (intro exI [of _ "Some (CdiInitializeFailed err)"] exI [of _ "m\<lparr>m_plugins := []\<rparr>"]
            exI [of _ w2] exI [of _ "[]"]) (simp add: restart_def stop init)
    next
      case e2: None
      have "restart api flags read_dir scan m w = reconcile api flags scan (m\<lparr>m_plugins := []\<rparr>) w2"
        by (simp add: restart_def stop init None e2)
      moreover have "target_plugin api flags scan (m\<lparr>m_plugins := []\<rparr>) = restarted_plugin api flags scan m"
        "fresh_resources api scan (m\<lparr>m_plugins := []\<rparr>) = {r. map_of (scan_groups api scan) r \<noteq> None}"
        by (auto simp: target_plugin_def restarted_plugin_def fresh_resources_def fun_eq_iff split: option.split)
      moreover have "manager_inv flags (m_plugins (m\<lparr>m_plugins := []\<rparr>)) w2" using inv2 by simp
      from reconcile_outcome [OF this order, of api] obtain e3 m3 w3 new where
        "reconcile api flags scan (m\<lparr>m_plugins := []\<rparr>) w2 = Some (e3, m3, w3)"
        "m_cdi m3 = m_cdi m" "m_health m3 = m_health m" "manager_inv flags (m_plugins m3) w3" "distinct new"
        "w_registered w3 = w_registered w2 @ map (resource_request api flags) new"
        "e3 = None \<longrightarrow> set new = fresh_resources api scan (m\<lparr>m_plugins := []\<rparr>)
          \<and> map_of (m_plugins m3) = target_plugin api flags scan (m\<lparr>m_plugins := []\<rparr>)" by auto
      ultimately show ?thesis using ci(2) st
        by (intro exI [of _ e3] exI [of _ m3] exI [of _ w3] exI [of _ new]) simp
    qed
  qed
qed

text \<open>
  C30: a restart re-registers everything.  After a successful \<open>restart\<close>, whatever plugins there
  were, there is a new running plugin for every resource of the scan and for no other, and the
  kubelet received exactly one registration for each of them; an unsuccessful one still leaves the
  manager consistent.
\<close>

theorem restart_reregisters:
  assumes "manager_inv flags (m_plugins m) w" "order_ok (sc_order scan)"
    and "restart api flags read_dir scan m w = Some (e, m', w')"
  shows "manager_inv flags (m_plugins m') w'
    \<and> (e = None \<longrightarrow> map_of (m_plugins m') = restarted_plugin api flags scan m
        \<and> all_running (m_plugins m')
        \<and> (\<exists>new. distinct new \<and> set new = {r. map_of (scan_groups api scan) r \<noteq> None}
            \<and> w_registered w' = w_registered w @ map (resource_request api flags) new))"
proof -
  from restart_outcome [OF assms(1,2), of api read_dir] assms(3) obtain new where r:
    "manager_inv flags (m_plugins m') w'" "distinct new"
    "w_registered w' = w_registered w @ map (resource_request api flags) new"
    "e = None \<longrightarrow> set new = {r. map_of (scan_groups api scan) r \<noteq> None}
        \<and> map_of (m_plugins m') = restarted_plugin api flags scan m" by auto
  then have "all_running (m_plugins m')" if "e = None"
    using that by (auto simp: all_running_def restarted_plugin_def new_plugin_def NewResourcePlugin_def)
  with r show ?thesis by blast
qed

section \<open>Stop\<close>

lemma stop_logged_cong:
  "(\<forall>r\<in>set names. map_of plugins r = map_of plugins' r) \<Longrightarrow>
     stop_logged names plugins w = stop_logged names plugins' w"
  by (induction names arbitrary: w) (auto split: option.split prod.split)

lemma stop_logged_spec:
  assumes "manager_inv flags plugins w" "distinct names"
  shows "\<exists>plugins'. manager_inv flags plugins' (stop_logged names plugins w)
    \<and> (\<forall>r. r \<notin> set names \<longrightarrow> map_of plugins' r = map_of plugins r)
    \<and> (\<forall>r\<in>set names. \<forall>p. map_of plugins' r = Some p \<longrightarrow> p_stopCh p)
    \<and> others_same flags w (stop_logged names plugins w)
    \<and> w_registered (stop_logged names plugins w) = w_registered w"
  using assms
proof (induction names arbitrary: plugins w)
  case (Cons r names)
  show ?case
  proof (cases "map_of plugins r")
    case None
    with Cons.IH [OF Cons.prems(1)] Cons.prems(2) obtain plugins' where
      "manager_inv flags plugins' (stop_logged names plugins w)"
      "\<forall>q. q \<notin> set names \<longrightarrow> map_of plugins' q = map_of plugins q"
      "\<forall>q\<in>set names. \<forall>p. map_of plugins' q = Some p \<longrightarrow> p_stopCh p"
      "others_same flags w (stop_logged names plugins w)"
      "w_registered (stop_logged names plugins w) = w_registered w" by auto
    with None Cons.prems(2) show ?thesis by (intro exI [of _ plugins']) auto
  next
    case (Some p)
    obtain e p' w1 where stop: "plugin_Stop p w = (e, p', w1)" by (metis prod_cases3)
    note st = stop_step [OF Cons.prems(1) Some stop]
    define w2 where "w2 = (case e of None \<Rightarrow> w1 | Some err \<Rightarrow> emit LevelError ''Failed to stop device plugin''
        [(''err'', LErr (err_text err)), (''resourceName'', LString r)] w1)"
    have w2: "manager_inv flags (AList.update r p' plugins) w2" "others_same flags w w2"
      "w_registered w2 = w_registered w"
      using st by (simp_all add: w2_def world_simps split: option.split)
    have "stop_logged (r # names) plugins w = stop_logged names plugins w2"
      by (simp add: Some stop w2_def split: option.split)
    also have "\<dots> = stop_logged names (AList.update r p' plugins) w2"
      using Cons.prems(2) by (intro stop_logged_cong) (auto simp: go_map_simps)
    finally have run: "stop_logged (r # names) plugins w = stop_logged names (AList.update r p' plugins) w2" .
    obtain plugins' where ih: "manager_inv flags plugins' (stop_logged names (AList.update r p' plugins) w2)"
      "\<forall>q. q \<notin> set names \<longrightarrow> map_of plugins' q = map_of (AList.update r p' plugins) q"
      "\<forall>q\<in>set names. \<forall>p. map_of plugins' q = Some p \<longrightarrow> p_stopCh p"
      "others_same flags w2 (stop_logged names (AList.update r p' plugins) w2)"
      "w_registered (stop_logged names (AList.update r p' plugins) w2) = w_registered w2"
      using Cons.IH [OF w2(1)] Cons.prems(2) by auto
    have "map_of plugins' r = Some p'" using ih(2) Cons.prems(2) by (simp add: go_map_simps)
    then show ?thesis
      unfolding run using ih st(4) w2(3) others_same_trans [OF w2(2) ih(4)]
      by (intro exI [of _ plugins']) (auto simp: go_map_simps)
  qed
qed auto

text \<open>The address of the health service is no socket of a resource: it ends in a digit.\<close>

definition health_ok :: "manager \<Rightarrow> bool" where
  "health_ok m \<longleftrightarrow> (case m_health m of None \<Rightarrow> True | Some h \<Rightarrow> \<exists>port. h_addr h = health_addr port)"

lemma last_health_addr: "is_digit (last (health_addr port))"
proof -
  have "nat_digits n \<noteq> [] \<and> is_digit (last (nat_digits n))" for n
    using nat_digits_digits [of n] by (simp add: list_all_iff)
  then show ?thesis by (auto simp: health_addr_def itoa_def)
qed

lemma last_resource_socket:
  assumes "r \<in> resource_names"
  shows "last (resource_socket flags r) = CHR ''k''"
proof -
  obtain pre where "resource_socket flags r = pre @ socketNameForResource r"
    using path_join_name [OF socket_name_good [OF assms]] socket_name_good [OF assms]
    by (metis resource_socket_def)
  then show ?thesis using assms by (auto simp: resource_names_eq socket_names)
qed

lemma health_addr_no_socket: "r \<in> resource_names \<Longrightarrow> health_addr port \<noteq> resource_socket flags r"
proof
  assume "r \<in> resource_names" "health_addr port = resource_socket flags r"
  then have "is_digit (CHR ''k'')" using last_health_addr [of port] last_resource_socket [of r flags] by simp
  then show False by (simp add: is_digit_def)
qed

lemma manager_Stop_closes:
  assumes "manager_inv flags (m_plugins m) w" "order_ok order" "health_ok m"
  shows "case manager_Stop order m w of (m', w') \<Rightarrow>
    m_plugins m' = [] \<and> manager_inv flags (m_plugins m') w'
    \<and> (\<forall>r\<in>resource_names. resource_socket flags r \<notin> set (w_listening w'))
    \<and> (\<forall>h'. m_health m' = Some h' \<longrightarrow> Check h' [] = Inr NOT_SERVING \<and> h_addr h' \<notin> set (w_listening w'))
    \<and> w_registered w' = w_registered w"
proof -
  let ?names = "order (map fst (m_plugins m))"
  define h1 where "h1 = map_option (SetServing False) (m_health m)"
  define w1 where "w1 = (case h1 of None \<Rightarrow> w | Some h \<Rightarrow> health_Stop h w)"
  have names: "distinct ?names" "set ?names = fst ` set (m_plugins m)"
    using assms order_ok_distinct [OF assms(2)] order_ok_set [OF assms(2)]
    by (simp_all add: manager_inv_def go_map_ok_def)
  have addr: "\<exists>port. h_addr h = health_addr port" if "h1 = Some h" for h
    using assms(3) that by (auto simp: health_ok_def h1_def SetServing_def split: option.splits)
  have same: "resource_socket flags r \<in> set (w_listening w1) \<longleftrightarrow> resource_socket flags r \<in> set (w_listening w)"
    if "r \<in> resource_names" for r
  proof (cases h1)
    case (Some h)
    obtain port where "h_addr h = health_addr port" using addr [OF Some] by blast
    then show ?thesis
      using health_addr_no_socket [OF that, of port flags] by (simp add: w1_def Some world_simps)
  qed (simp add: w1_def)
  have inv1: "manager_inv flags (m_plugins m) w1" using manager_inv_world [OF assms(1)] same by blast
  obtain plugins' where s: "manager_inv flags plugins' (stop_logged ?names (m_plugins m) w1)"
    "\<forall>r. r \<notin> set ?names \<longrightarrow> map_of plugins' r = map_of (m_plugins m) r"
    "\<forall>r\<in>set ?names. \<forall>p. map_of plugins' r = Some p \<longrightarrow> p_stopCh p"
    "others_same flags w1 (stop_logged ?names (m_plugins m) w1)"
    "w_registered (stop_logged ?names (m_plugins m) w1) = w_registered w1"
    using stop_logged_spec [OF inv1 names(1)] by blast
  have "p_stopCh p" if "map_of plugins' r = Some p" for r p
    using that s(2,3) names(2) by (metis keys_iff_map_of)
  then have closed: "\<forall>r\<in>resource_names. resource_socket flags r
      \<notin> set (w_listening (stop_logged ?names (m_plugins m) w1))"
    using all_stopped_closed [OF s(1)] by blast
  have health: "Check h' [] = Inr NOT_SERVING
      \<and> h_addr h' \<notin> set (w_listening (stop_logged ?names (m_plugins m) w1))" if some: "h1 = Some h'" for h'
  proof
    show "Check h' [] = Inr NOT_SERVING"
      using some by (auto simp: h1_def SetServing_def Check_def)
    obtain port where p: "h_addr h' = health_addr port" using addr [OF some] by blast
    then have "h_addr h' \<notin> resource_socket flags ` resource_names"
      using health_addr_no_socket by auto
    moreover have "h_addr h' \<notin> set (w_listening w1)" by (simp add: w1_def some world_simps)
    ultimately show "h_addr h' \<notin> set (w_listening (stop_logged ?names (m_plugins m) w1))"
      using s(4) by (simp add: others_same_def)
  qed
  have "manager_Stop order m w = (m\<lparr>m_health := h1, m_plugins := []\<rparr>,
      emit LevelInfo ''Stopped rbln-device-plugin'' [(''resourceCount'', LInt (int (length (m_plugins m))))]
        (stop_logged ?names (m_plugins m) w1))"
    by (simp add: manager_Stop_def Let_def h1_def w1_def split: option.split)
  moreover have "w_registered w1 = w_registered w" by (simp add: w1_def world_simps split: option.split)
  ultimately show ?thesis
    using closed health s(5) by (simp add: world_simps manager_inv_Nil)
qed

text \<open>
  \<open>Stop\<close> closes everything, whatever fails.  Afterwards the manager has no plugins, the socket
  of no resource is open, the health service has no listener left and answers not serving, and the
  kubelet received no further registration.
\<close>

theorem manager_stop_closes_all:
  assumes "manager_inv flags (m_plugins m) w" "order_ok order" "health_ok m"
  shows "case manager_Stop order m w of (m', w') \<Rightarrow>
    m_plugins m' = [] \<and> manager_inv flags (m_plugins m') w'
    \<and> (\<forall>r\<in>resource_names. resource_socket flags r \<notin> set (w_listening w'))
    \<and> (\<forall>h'. m_health m' = Some h' \<longrightarrow> Check h' [] = Inr NOT_SERVING \<and> h_addr h' \<notin> set (w_listening w'))
    \<and> w_registered w' = w_registered w"
  by (rule manager_Stop_closes [OF assms])

text \<open>A manager that runs the plugins of the sample scan.\<close>

lemma running_manager_ok:
  obtains m w where "reconcile sample_api sample_flags sample_scan sample_manager empty_world = Some (None, m, w)"
    "manager_inv sample_flags (m_plugins m) w" "m_health m = None"
proof -
  obtain m w where run: "reconcile sample_api sample_flags sample_scan sample_manager empty_world = Some (None, m, w)"
    using sample_reconcile by blast
  with reconcile_outcome [OF sample_manager_inv sample_order(2), of sample_api sample_flags] that
  show ?thesis by (auto simp: sample_manager_def)
qed

theorem restart_reregisters_witness:
  "\<exists>m w m' w'. reconcile sample_api sample_flags sample_scan sample_manager empty_world = Some (None, m, w)
     \<and> restart sample_api sample_flags cdi_listing sample_scan m w = Some (None, m', w')
     \<and> map_of (m_plugins m') ''rebellions.ai/npu'' \<noteq> None \<and> all_running (m_plugins m')"
proof -
  obtain m w where run: "reconcile sample_api sample_flags sample_scan sample_manager empty_world = Some (None, m, w)"
    and inv: "manager_inv sample_flags (m_plugins m) w" by (rule running_manager_ok)
  have "(case reconcile sample_api sample_flags sample_scan sample_manager empty_world of
      Some (_, m, w) \<Rightarrow> map_option fst (restart sample_api sample_flags cdi_listing sample_scan m w)
    | None \<Rightarrow> None) = Some None" by code_simp
  then obtain m' w' where re: "restart sample_api sample_flags cdi_listing sample_scan m w = Some (None, m', w')"
    by (auto simp: run)
  have "map_of (scan_groups sample_api sample_scan) ''rebellions.ai/npu'' \<noteq> None" by code_simp
  then show ?thesis
    using restart_reregisters [OF inv sample_order(2) re] run re by (auto simp: restarted_plugin_def)
qed

theorem manager_stop_closes_all_witness:
  "\<exists>m w. reconcile sample_api sample_flags sample_scan sample_manager empty_world = Some (None, m, w)
     \<and> resource_socket sample_flags ''rebellions.ai/npu'' \<notin> set (w_listening (snd (manager_Stop rev m w)))"
proof -
  obtain m w where run: "reconcile sample_api sample_flags sample_scan sample_manager empty_world = Some (None, m, w)"
    and inv: "manager_inv sample_flags (m_plugins m) w" and h: "m_health m = None" by (rule running_manager_ok)
  have "health_ok m" by (simp add: health_ok_def h)
  moreover have "''rebellions.ai/npu'' \<in> resource_names" by (simp add: resource_names_eq)
  ultimately show ?thesis
    using manager_stop_closes_all [OF inv sample_order(3)] run by (auto simp: split_beta)
qed

section \<open>A plugin whose Stop failed\<close>

text \<open>
  C33: a stopped plugin is not revived.  When the plugin of an absent resource fails to stop it stays in
  the map; if its resource is back in a later scan, \<open>reconcile\<close> succeeds by handing it the devices,
  but its channel to the kubelet stays closed: the socket is not open and no registration is sent.
\<close>

theorem reconcile_keeps_stopped_plugin:
  assumes "manager_inv flags (m_plugins m) w" "order_ok (sc_order scan)"
    and "map_of (m_plugins m) r = Some p" "p_stopCh p" "map_of (scan_groups api scan) r = Some g"
    and "reconcile api flags scan m w = Some (None, m', w')"
  shows "map_of (m_plugins m') r = Some (updated api p g) \<and> p_stopCh (updated api p g)
    \<and> resource_socket flags r \<notin> set (w_listening w')
    \<and> (\<exists>new. r \<notin> set new \<and> w_registered w' = w_registered w @ map (resource_request api flags) new)"
proof -
  from reconcile_outcome [OF assms(1,2), of api] assms(6) obtain new where n:
    "manager_inv flags (m_plugins m') w'" "set new = fresh_resources api scan m"
    "w_registered w' = w_registered w @ map (resource_request api flags) new"
    "map_of (m_plugins m') = target_plugin api flags scan m" by auto
  have at: "map_of (m_plugins m') r = Some (updated api p g)" using n(4) assms(3,5) by (simp add: target_plugin_def)
  from manager_inv_plugin [OF n(1) at] assms(4)
  have "resource_socket flags r \<notin> set (w_listening w')" by (simp add: plugin_ok_def)
  moreover have "r \<notin> set new" using n(2) assms(3) by (simp add: fresh_resources_def)
  ultimately show ?thesis using at assms(4) n(3) by auto
qed

text \<open>The directory turns read-only while the resources disappear and is writable again afterwards.\<close>

definition readonly_world :: world where
  "readonly_world = empty_world\<lparr>w_fault := (\<lambda>n. if n \<in> {12, 13} then Some ''read-only file system'' else None)\<rparr>"

definition no_devices_scan :: scan where
  "no_devices_scan = sample_scan\<lparr>sc_devices := Inr []\<rparr>"

definition three_scans :: "(manager_error option list \<times> manager \<times> world) option" where
  "three_scans =
     Option.bind (reconcile sample_api sample_flags sample_scan sample_manager readonly_world) (\<lambda>(e1, m1, w1).
     Option.bind (reconcile sample_api sample_flags no_devices_scan m1 w1) (\<lambda>(e2, m2, w2).
     map_option (\<lambda>(e3, m3, w3). ([e1, e2, e3], m3, w3))
       (reconcile sample_api sample_flags sample_scan m2 w2)))"

theorem reconcile_keeps_stopped_plugin_witness:
  "\<exists>m w. map_option (\<lambda>(es, m, w). (map (\<lambda>e. e = None) es, m, w)) three_scans = Some ([True, False, True], m, w)
     \<and> map_of (m_plugins m) ''rebellions.ai/npu-vf4'' \<noteq> None
     \<and> resource_socket sample_flags ''rebellions.ai/npu-vf4'' \<notin> set (w_listening w)"
proof -
  let ?r = "''rebellions.ai/npu-vf4''"
  have inv0: "manager_inv sample_flags (m_plugins sample_manager) readonly_world"
    by (simp add: sample_manager_def manager_inv_Nil empty_world_def readonly_world_def)
  have order: "order_ok (sc_order no_devices_scan)" using sample_order(2) by (simp add: no_devices_scan_def)
  obtain e1 m1 w1 where r1: "reconcile sample_api sample_flags sample_scan sample_manager readonly_world = Some (e1, m1, w1)"
    and inv1: "manager_inv sample_flags (m_plugins m1) w1"
    using reconcile_outcome [OF inv0 sample_order(2), of sample_api] by blast
  obtain e2 m2 w2 where r2: "reconcile sample_api sample_flags no_devices_scan m1 w1 = Some (e2, m2, w2)"
    and inv2: "manager_inv sample_flags (m_plugins m2) w2"
    using reconcile_outcome [OF inv1 order, of sample_api] by blast
  obtain e3 m3 w3 where r3: "reconcile sample_api sample_flags sample_scan m2 w2 = Some (e3, m3, w3)"
    using reconcile_outcome [OF inv2 sample_order(2), of sample_api] by blast
  have "map_option (\<lambda>(es, m, w). map (\<lambda>e. e = None) es) three_scans = Some [True, False, True]" by code_simp
  then have e: "e1 = None" "e2 \<noteq> None" "e3 = None" by (simp_all add: three_scans_def r1 r2 r3)
  have "Option.bind (reconcile sample_api sample_flags sample_scan sample_manager readonly_world) (\<lambda>(e1, m1, w1).
     Option.bind (reconcile sample_api sample_flags no_devices_scan m1 w1) (\<lambda>(e2, m2, w2).
       map_option p_stopCh (map_of (m_plugins m2) ?r))) = Some True" by code_simp
  then obtain p where p: "map_of (m_plugins m2) ?r = Some p" "p_stopCh p" by (auto simp: r1 r2)
  have "map_of (scan_groups sample_api sample_scan) ?r \<noteq> None" by code_simp
  then obtain g where g: "map_of (scan_groups sample_api sample_scan) ?r = Some g" by blast
  from reconcile_keeps_stopped_plugin [OF inv2 sample_order(2) p g] r3 e
  show ?thesis by (auto simp: three_scans_def r1 r2 r3)
qed

end
