(* ===== verification/RunLoop.thy ===== *)
theory RunLoop imports ManagerStop begin

text \<open>
  \<open>Manager.Run\<close> of \<open>cmd/rbln-device-plugin/manager.go\<close>: the first scan and the event loop.
  The input is the sequence of events in the order in which \<open>select\<close> picks them; an exhausted
  sequence leaves the loop waiting.  A tick and a kubelet event carry the scan they make, so every
  interleaving of scans, kubelet restarts and faults is such a sequence.  Two events are no case of
  the loop: \<open>Outside\<close>, by which the kubelet or an administrator changes the files of the
  directory in any way, and \<open>SignalReceived\<close>, by which the goroutine of \<open>watchShutdownSignals\<close> logs
  the signal; the context it cancels then is a later \<open>CtxDone\<close>.  The \<open>fsnotify\<close> library is the record \<open>watch_library\<close>: the error, if
  any, of \<open>NewWatcher\<close>, \<open>Add\<close> and \<open>Close\<close>.  \<open>time.NewTicker\<close> panics on an interval that
  is not positive: \<open>TickerPanic\<close>.
\<close>

section \<open>Operations\<close>

record watch_library =
  wl_new :: "string option"
  wl_add :: "string \<Rightarrow> string option"
  wl_close :: "string option"

datatype run_event =
    CtxDone
  | Tick scan
  | FsEvent fs_event dir_listing scan
  | EventsClosed
  | FsError_event string
  | ErrorsClosed
  | SignalReceived string
  | Outside "string list"

datatype run_error =
    Canceled
  | ManagerFailed manager_error
  | CreateWatcherFailed string
  | WatchDirectoryFailed string string
  | WatcherClosed
  | TickerPanic

text \<open>The messages of the wrapped errors, as \<open>fmt.Errorf\<close> builds them.\<close>

fun plugin_error_text :: "plugin_error \<Rightarrow> string" where
  "plugin_error_text (MkdirFailed err) = err_text err"
| "plugin_error_text (RemoveFailed err) = err_text err"
| "plugin_error_text (ListenFailed path err) = ''listen on '' @ path @ '': '' @ err_text err"
| "plugin_error_text (ConnectFailed socket err) =
     ''connect to kubelet socket '' @ socket @ '': '' @ err_text err"
| "plugin_error_text (RegisterFailed resourceName err) =
     ''register resource '' @ resourceName @ '': '' @ err_text err"

fun health_error_text :: "health_error \<Rightarrow> string" where
  "health_error_text (ListenHealthFailed addr err) =
     ''listen for healthcheck service at '' @ addr @ '': '' @ err_text err"

fun manager_error_text :: "manager_error \<Rightarrow> string" where
  "manager_error_text (StopPluginFailed resourceName err) =
     ''stop device plugin '' @ resourceName @ '': '' @ err_text err"
| "manager_error_text (StartPluginFailed resourceName err) =
     ''start device plugin '' @ resourceName @ '': '' @ plugin_error_text err"
| "manager_error_text (CdiInitializeFailed err) = err_text err"
| "manager_error_text (HealthcheckFailed err) = health_error_text err"

definition log_reconcile_failed :: "manager_error option \<Rightarrow> world \<Rightarrow> world" where
  "log_reconcile_failed r w =
     (case r of
        Some err \<Rightarrow> emit LevelError ''Device reconciliation failed'' [(''err'', LErr (manager_error_text err))] w
      | None \<Rightarrow> w)"

definition signal_received :: "string \<Rightarrow> world \<Rightarrow> world" where
  "signal_received sig = emit LevelInfo ''Shutdown signal received'' [(''signal'', LString sig)]"

definition log_recreated :: "fs_event \<Rightarrow> world \<Rightarrow> world" where
  "log_recreated event =
     emit LevelInfo ''Detected kubelet socket recreation; restarting device plugins''
       [(''path'', LString (ev_Name event)), (''op'', LString (ev_Op event))]"

fun run_loop ::
    "kubelet_api \<Rightarrow> flags \<Rightarrow> run_event list \<Rightarrow> manager \<Rightarrow> world \<Rightarrow>
     (run_error option \<times> manager \<times> world) option" where
  "run_loop api flags [] m w = Some (None, m, w)"
| "run_loop api flags (CtxDone # events) m w = Some (Some Canceled, m, w)"
| "run_loop api flags (Tick scan # events) m w =
     Option.bind (reconcile api flags scan m w) (\<lambda>(r, m, w).
       run_loop api flags events m (log_reconcile_failed r w))"
| "run_loop api flags (FsEvent event read_dir scan # events) m w =
     (if \<not> isKubeletRestartEvent (KubeletSocketPath api flags) event then run_loop api flags events m w
      else Option.bind (restart api flags read_dir scan m (log_recreated event w)) (\<lambda>(r, m, w).
        case r of Some err \<Rightarrow> Some (Some (ManagerFailed err), m, w)
        | None \<Rightarrow> run_loop api flags events m w))"
| "run_loop api flags (EventsClosed # events) m w = Some (Some WatcherClosed, m, w)"
| "run_loop api flags (FsError_event err # events) m w =
     run_loop api flags events m (emit LevelError ''Kubelet socket watcher error'' [(''err'', LErr err)] w)"
| "run_loop api flags (ErrorsClosed # events) m w = Some (Some WatcherClosed, m, w)"
| "run_loop api flags (SignalReceived sig # events) m w = run_loop api flags events m (signal_received sig w)"
| "run_loop api flags (Outside paths # events) m w = run_loop api flags events m (w\<lparr>w_paths := paths\<rparr>)"

definition close_watcher :: "watch_library \<Rightarrow> world \<Rightarrow> world" where
  "close_watcher lib w =
     (case wl_close lib of
        Some err \<Rightarrow> emit LevelWarn ''Failed to close kubelet socket watcher'' [(''err'', LErr err)] w
      | None \<Rightarrow> w)"

definition manager_Run ::
    "kubelet_api \<Rightarrow> flags \<Rightarrow> watch_library \<Rightarrow> scan \<Rightarrow> run_event list \<Rightarrow> manager \<Rightarrow> world \<Rightarrow>
     (run_error option \<times> manager \<times> world) option" where
  "manager_Run api flags lib scan events m w =
     Option.bind (reconcile api flags scan m w) (\<lambda>(r, m, w).
       case r of
         Some err \<Rightarrow> Some (Some (ManagerFailed err), m, w)
       | None \<Rightarrow>
           (let m = m\<lparr>m_health := map_option (SetServing True) (m_health m)\<rparr> in
            if deviceScanInterval flags \<le> 0 then Some (Some TickerPanic, m, w)
            else case wl_new lib of
              Some err \<Rightarrow> Some (Some (CreateWatcherFailed err), m, w)
            | None \<Rightarrow>
                (case wl_add lib (kubeletDevicePluginPath flags) of
                   Some err \<Rightarrow>
                     Some (Some (WatchDirectoryFailed (kubeletDevicePluginPath flags) err), m,
                       close_watcher lib w)
                 | None \<Rightarrow>
                     map_option (\<lambda>(r, m, w). (r, m, if r = None then w else close_watcher lib w))
                       (run_loop api flags events m w))))"

section \<open>The loop\<close>

text \<open>The scans of the events iterate over the keys of a map as Go does.\<close>

fun event_ok :: "run_event \<Rightarrow> bool" where
  "event_ok (Tick scan) \<longleftrightarrow> order_ok (sc_order scan)"
| "event_ok (FsEvent event read_dir scan) \<longleftrightarrow> order_ok (sc_order scan)"
| "event_ok _ \<longleftrightarrow> True"

text \<open>What can end the loop, and with which error.\<close>

fun ends_with :: "kubelet_api \<Rightarrow> flags \<Rightarrow> run_error \<Rightarrow> run_event \<Rightarrow> bool" where
  "ends_with api flags err CtxDone \<longleftrightarrow> err = Canceled"
| "ends_with api flags err EventsClosed \<longleftrightarrow> err = WatcherClosed"
| "ends_with api flags err ErrorsClosed \<longleftrightarrow> err = WatcherClosed"
| "ends_with api flags err (FsEvent event read_dir scan) \<longleftrightarrow>
     isKubeletRestartEvent (KubeletSocketPath api flags) event
     \<and> (case err of ManagerFailed _ \<Rightarrow> True | _ \<Rightarrow> False)"
| "ends_with api flags err _ \<longleftrightarrow> False"

lemma manager_inv_paths [simp]: "manager_inv flags plugins (w\<lparr>w_paths := paths\<rparr>) = manager_inv flags plugins w"
  by (simp add: manager_inv_def plugin_ok_def)

lemma manager_inv_log_reconcile [simp]:
  "manager_inv flags plugins (log_reconcile_failed r w) = manager_inv flags plugins w"
  by (simp add: log_reconcile_failed_def split: option.split)

lemma manager_inv_log_recreated [simp]:
  "manager_inv flags plugins (log_recreated event w) = manager_inv flags plugins w"
  by (simp add: log_recreated_def)

definition loop_result ::
    "kubelet_api \<Rightarrow> flags \<Rightarrow> run_event list \<Rightarrow> manager \<Rightarrow> (run_error option \<times> manager \<times> world) option \<Rightarrow> bool"
  where
  "loop_result api flags events m result \<longleftrightarrow>
     (\<exists>r m' w'. result = Some (r, m', w') \<and> manager_inv flags (m_plugins m') w'
        \<and> m_health m' = m_health m \<and> m_cdi m' = m_cdi m
        \<and> (\<forall>err. r = Some err \<longrightarrow> (\<exists>e\<in>set events. ends_with api flags err e)))"

lemma loop_resultI:
  "manager_inv flags (m_plugins m') w' \<Longrightarrow> m_health m' = m_health m \<Longrightarrow> m_cdi m' = m_cdi m \<Longrightarrow>
     (\<And>err. r = Some err \<Longrightarrow> \<exists>e\<in>set events. ends_with api flags err e) \<Longrightarrow>
     loop_result api flags events m (Some (r, m', w'))"
  by (simp add: loop_result_def)

lemma loop_result_Cons:
  "loop_result api flags events m' result \<Longrightarrow> m_health m' = m_health m \<Longrightarrow> m_cdi m' = m_cdi m \<Longrightarrow>
     loop_result api flags (e # events) m result"
  unfolding loop_result_def by (elim exE conjE) (auto simp: bex_simps)

lemma run_loop_result:
  assumes "manager_inv flags (m_plugins m) w" "\<forall>e\<in>set events. event_ok e"
  shows "loop_result api flags events m (run_loop api flags events m w)"
  using assms
proof (induction api flags events m w rule: run_loop.induct)
  case (3 api flags scan events m w)
  from 3(2,3) reconcile_outcome [of flags m w scan api] obtain r m1 w1 where
    rec: "reconcile api flags scan m w = Some (r, m1, w1)" and
    m1: "m_cdi m1 = m_cdi m" "m_health m1 = m_health m" "manager_inv flags (m_plugins m1) w1" by auto
  have "loop_result api flags events m1 (run_loop api flags events m1 (log_reconcile_failed r w1))"
    using "3.IH" rec m1(3) 3(3) by simp
  from loop_result_Cons [OF this m1(2,1)] show ?case by (simp add: rec)
next
  case (4 api flags event read_dir scan events m w)
  show ?case
  proof (cases "isKubeletRestartEvent (KubeletSocketPath api flags) event")
    case False
    with "4.IH"(1) "4.prems" have "loop_result api flags events m (run_loop api flags events m w)" by simp
    from loop_result_Cons [OF this] False show ?thesis by simp
  next
    case True
    let ?w = "log_recreated event w"
    from "4.prems" restart_outcome [of flags m ?w scan api read_dir] obtain r m1 w1 where
      rec: "restart api flags read_dir scan m ?w = Some (r, m1, w1)" and
      m1: "m_cdi m1 = m_cdi m" "m_health m1 = m_health m" "manager_inv flags (m_plugins m1) w1" by auto
    show ?thesis
    proof (cases r)
      case None
      have "loop_result api flags events m1 (run_loop api flags events m1 w1)"
        using "4.IH"(2) True rec None m1(3) "4.prems"(2) by simp
      from loop_result_Cons [OF this m1(2,1)] show ?thesis by (simp add: rec True None)
    next
      case (Some err)
      then show ?thesis
        using True m1 by (simp add: rec loop_result_def)
    qed
  qed
next
  case (6 api flags err events m w)
  then have "loop_result api flags events m
      (run_loop api flags events m (emit LevelError ''Kubelet socket watcher error'' [(''err'', LErr err)] w))"
    by simp
  from loop_result_Cons [OF this] show ?case by simp
next
  case (8 api flags sig events m w)
  then have "loop_result api flags events m (run_loop api flags events m (signal_received sig w))"
    by (simp add: signal_received_def)
  from loop_result_Cons [OF this] show ?case by simp
next
  case (9 api flags paths events m w)
  then have "loop_result api flags events m (run_loop api flags events m (w\<lparr>w_paths := paths\<rparr>))" by simp
  from loop_result_Cons [OF this] show ?case by simp
qed (simp_all add: loop_result_def)

lemma run_loop_append:
  "run_loop api flags (us @ vs) m w =
     Option.bind (run_loop api flags us m w)
       (\<lambda>(r, m, w). case r of Some err \<Rightarrow> Some (Some err, m, w) | None \<Rightarrow> run_loop api flags vs m w)"
proof (induction api flags us m w rule: run_loop.induct)
  case (3 api flags scan events m w)
  then show ?case by (cases "reconcile api flags scan m w") (auto simp: split_beta)
next
  case (4 api flags event read_dir scan events m w)
  then show ?case
    by (cases "restart api flags read_dir scan m (log_recreated event w)")
      (auto simp: split_beta split: option.split)
qed simp_all

section \<open>Run\<close>

text \<open>Why \<open>Run\<close> returns with an error.\<close>

definition run_cause ::
    "kubelet_api \<Rightarrow> flags \<Rightarrow> watch_library \<Rightarrow> manager_error option \<Rightarrow> run_event list \<Rightarrow> run_error \<Rightarrow> bool" where
  "run_cause api flags lib first events err \<longleftrightarrow>
     (case first of
        Some e \<Rightarrow> err = ManagerFailed e
      | None \<Rightarrow>
          if deviceScanInterval flags \<le> 0 then err = TickerPanic
          else (case wl_new lib of
             Some t \<Rightarrow> err = CreateWatcherFailed t
           | None \<Rightarrow>
               (case wl_add lib (kubeletDevicePluginPath flags) of
                  Some t \<Rightarrow> err = WatchDirectoryFailed (kubeletDevicePluginPath flags) t
                | None \<Rightarrow> \<exists>e\<in>set events. ends_with api flags err e)))"

lemma manager_inv_close_watcher [simp]:
  "manager_inv flags plugins (close_watcher lib w) = manager_inv flags plugins w"
  by (simp add: close_watcher_def split: option.split)

lemma manager_Run_outcome:
  assumes "manager_inv flags (m_plugins m) w" "order_ok (sc_order scan)" "\<forall>e\<in>set events. event_ok e"
  shows "\<exists>first m1 w1 r m' w'. reconcile api flags scan m w = Some (first, m1, w1)
    \<and> manager_Run api flags lib scan events m w = Some (r, m', w')
    \<and> manager_inv flags (m_plugins m') w' \<and> m_cdi m' = m_cdi m
    \<and> m_health m' = map_option (if first = None then SetServing True else (\<lambda>h. h)) (m_health m)
    \<and> (\<forall>err. r = Some err \<longrightarrow> run_cause api flags lib first events err)"
proof -
  obtain first m1 w1 where rec: "reconcile api flags scan m w = Some (first, m1, w1)"
    and m1: "m_cdi m1 = m_cdi m" "m_health m1 = m_health m" "manager_inv flags (m_plugins m1) w1"
    using reconcile_outcome [OF assms(1,2), of api] by auto
  let ?m = "m1\<lparr>m_health := map_option (SetServing True) (m_health m1)\<rparr>"
  have "manager_inv flags (m_plugins ?m) w1" using m1(3) by simp
  then obtain r m2 w2 where loop: "run_loop api flags events ?m w1 = Some (r, m2, w2)"
    and m2: "manager_inv flags (m_plugins m2) w2" "m_health m2 = m_health ?m" "m_cdi m2 = m_cdi m1"
      "\<forall>err. r = Some err \<longrightarrow> (\<exists>e\<in>set events. ends_with api flags err e)"
    using run_loop_result [of flags ?m w1 events api] assms(3) by (auto simp: loop_result_def)
  have "\<exists>r m' w'. manager_Run api flags lib scan events m w = Some (r, m', w')
    \<and> manager_inv flags (m_plugins m') w' \<and> m_cdi m' = m_cdi m
    \<and> m_health m' = map_option (if first = None then SetServing True else (\<lambda>h. h)) (m_health m)
    \<and> (\<forall>err. r = Some err \<longrightarrow> run_cause api flags lib first events err)"
  proof (cases first)
    case (Some err)
    with rec m1 show ?thesis by (simp add: manager_Run_def run_cause_def option.map_ident)
  next
    case None
    with rec m1 m2 loop show ?thesis
      by (cases "wl_new lib"; cases "wl_add lib (kubeletDevicePluginPath flags)")
        (simp_all add: manager_Run_def run_cause_def Let_def)
  qed
  with rec show ?thesis by blast
qed

text \<open>
  C8: the manager stays consistent through its whole life.  For every first scan, every sequence of
  events and every pattern of failing calls, \<open>Run\<close> never blocks and keeps the invariant of the
  plugins; the health service reports serving exactly from the first successful scan on; and
  \<open>Run\<close> ends only because the first scan failed, the scan interval is not positive (the ticker then
  panics), the watcher could not be set up, the context was cancelled, the watcher was closed or a
  restart failed: a failing scan of a tick and an error of the watcher never end it.
\<close>

theorem manager_Run_keeps_invariant:
  assumes "manager_inv flags (m_plugins m) w" "order_ok (sc_order scan)" "\<forall>e\<in>set events. event_ok e"
  shows "\<exists>first m1 w1 r m' w'. reconcile api flags scan m w = Some (first, m1, w1)
    \<and> manager_Run api flags lib scan events m w = Some (r, m', w')
    \<and> manager_inv flags (m_plugins m') w'
    \<and> m_health m' = map_option (if first = None then SetServing True else (\<lambda>h. h)) (m_health m)
    \<and> (\<forall>err. r = Some err \<longrightarrow> run_cause api flags lib first events err)"
  using manager_Run_outcome [OF assms, of api lib] by blast

definition quiet_library :: watch_library where
  "quiet_library = \<lparr>wl_new = None, wl_add = (\<lambda>_. None), wl_close = None\<rparr>"

definition kubelet_created :: run_event where
  "kubelet_created = FsEvent \<lparr>ev_Name = ''/var/lib/kubelet/device-plugins/kubelet.sock'', ev_Create = True,
     ev_Op = ''CREATE''\<rparr> (\<lambda>_. Inl NotExist) sample_scan"

theorem manager_Run_keeps_invariant_witness:
  "\<exists>r m w. manager_Run sample_api sample_flags quiet_library sample_scan
       [Tick sample_scan, Outside [], kubelet_created, CtxDone] sample_manager register_fails_world = Some (r, m, w)
     \<and> manager_inv sample_flags (m_plugins m) w"
proof -
  have "manager_inv sample_flags (m_plugins sample_manager) register_fails_world"
    by (simp add: sample_manager_def manager_inv_Nil empty_world_def register_fails_world_def)
  moreover have "\<forall>e\<in>set [Tick sample_scan, Outside [], kubelet_created, CtxDone]. event_ok e"
    by (simp add: kubelet_created_def sample_order)
  ultimately show ?thesis using manager_Run_keeps_invariant [OF _ sample_order(2)] by blast
qed

section \<open>Detecting a restart of the kubelet\<close>

definition clean_stack :: "bool \<Rightarrow> string list \<Rightarrow> bool" where
  "clean_stack rooted st \<longleftrightarrow>
     (\<exists>gs k. st = gs @ replicate k ''..'' \<and> (\<forall>g\<in>set gs. good_seg g) \<and> (rooted \<longrightarrow> k = 0))"

lemma clean_stack_step: "clean_stack r st \<Longrightarrow> CHR ''/'' \<notin> set seg \<Longrightarrow> clean_stack r (clean_step r st seg)"
  unfolding clean_stack_def
proof (elim exE conjE)
  fix gs k
  assume st: "st = gs @ replicate k ''..''" "\<forall>g\<in>set gs. good_seg g" "r \<longrightarrow> k = 0" and seg: "CHR ''/'' \<notin> set seg"
  show "\<exists>gs k. clean_step r st seg = gs @ replicate k ''..'' \<and> (\<forall>g\<in>set gs. good_seg g) \<and> (r \<longrightarrow> k = 0)"
  proof (cases "seg = ''..''")
    case True
    show ?thesis
    proof (cases gs)
      case Nil
      with True st have "clean_step r st seg = replicate (if r then 0 else Suc k) ''..''"
        by (cases k) (auto simp: clean_step_def)
      then show ?thesis by (intro exI [of _ "[]"] exI [of _ "if r then 0 else Suc k"]) simp
    next
      case (Cons g gs')
      with True st have "clean_step r st seg = gs' @ replicate k ''..''"
        by (auto simp: clean_step_def good_seg_def)
      with Cons st show ?thesis by (intro exI [of _ gs'] exI [of _ k]) simp
    qed
  next
    case False
    show ?thesis
    proof (cases "seg = [] \<or> seg = ''.''")
      case True
      then have "clean_step r st seg = st" by (simp add: clean_step_def)
      with st show ?thesis by (intro exI [of _ gs] exI [of _ k]) simp
    next
      case no: False
      with False seg st show ?thesis
        by (intro exI [of _ "seg # gs"] exI [of _ k]) (simp add: clean_step_def good_seg_def)
    qed
  qed
qed

lemma clean_stack_fold:
  "clean_stack r st \<Longrightarrow> \<forall>w\<in>set ws. CHR ''/'' \<notin> set w \<Longrightarrow> clean_stack r (foldl (clean_step r) st ws)"
  by (induction ws arbitrary: st) (auto simp: clean_stack_step)

lemma clean_stack_kept:
  assumes "clean_stack r st"
  shows "foldl (clean_step r) [] (rev st) = st"
proof -
  obtain gs k where st: "st = gs @ replicate k ''..''" "\<forall>g\<in>set gs. good_seg g" "r \<longrightarrow> k = 0"
    using assms by (auto simp: clean_stack_def)
  have "foldl (clean_step r) (replicate n ''..'') (replicate k ''..'') = replicate (n + k) ''..''" for n
    using st(3)
  proof (induction k arbitrary: n)
    case (Suc k)
    then have "clean_step r (replicate n ''..'') ''..'' = replicate (Suc n) ''..''"
      by (cases n) (simp_all add: clean_step_def)
    moreover have "foldl (clean_step r) (replicate (Suc n) ''..'') (replicate k ''..'') = replicate (Suc n + k) ''..''"
      using Suc.IH [of "Suc n"] Suc.prems by simp
    ultimately show ?case by simp
  qed simp
  from this [of 0] show ?thesis using st(2) by (simp add: st(1) clean_good)
qed

lemma clean_stack_segs: "clean_stack r st \<Longrightarrow> w \<in> set st \<Longrightarrow> w \<noteq> [] \<and> CHR ''/'' \<notin> set w"
proof -
  assume "clean_stack r st" "w \<in> set st"
  then obtain gs k where "\<forall>g\<in>set gs. good_seg g" "w \<in> set gs \<or> w \<in> set (replicate k ''..'')"
    unfolding clean_stack_def by (metis Un_iff set_append)
  then have "good_seg w \<or> w = ''..''" by auto
  then show ?thesis by (auto simp: good_seg_def)
qed

lemma path_clean_idem: "path_clean (path_clean s) = path_clean s"
proof -
  let ?r = "has_prefix s ''/''"
  let ?st = "foldl (clean_step ?r) [] (go_split CHR ''/'' s)"
  have "clean_stack ?r []" by (auto simp: clean_stack_def)
  moreover have "\<forall>w\<in>set (go_split CHR ''/'' s). CHR ''/'' \<notin> set w" by (intro ballI) (rule go_split_no_sep)
  ultimately have ok: "clean_stack ?r ?st" by (rule clean_stack_fold)
  have split: "go_split CHR ''/'' (go_join ''/'' (rev ?st)) = rev ?st" if "?st \<noteq> []"
    using that clean_stack_segs [OF ok] by (intro go_split_join) auto
  show ?thesis
  proof (cases ?r)
    case True
    then have c: "path_clean s = ''/'' @ go_join ''/'' (rev ?st)" by (simp add: path_clean_def Let_def)
    have "foldl (clean_step True) [] (go_split CHR ''/'' (''/'' @ go_join ''/'' (rev ?st))) = ?st"
      using split clean_stack_kept [OF ok] True
      by (cases "?st = []") (simp_all add: clean_step_def [of _ _ "[]"])
    moreover have "path_clean (''/'' @ j) = ''/'' @ go_join ''/''
        (rev (foldl (clean_step True) [] (go_split CHR ''/'' (''/'' @ j))))" for j
      by (simp add: path_clean_def Let_def has_prefix_def)
    ultimately show ?thesis unfolding c by simp
  next
    case False
    show ?thesis
    proof (cases "?st = []")
      case True
      then have "path_clean s = ''.''" using False by (simp add: path_clean_def Let_def)
      then show ?thesis by (simp add: path_clean_def clean_step_def has_prefix_def)
    next
      case ne: False
      then have c: "path_clean s = go_join ''/'' (rev ?st)" using False by (simp add: path_clean_def Let_def)
      obtain w ws where w: "rev ?st = w # ws" using ne by (cases "rev ?st") auto
      then have "w \<in> set ?st" by (metis list.set_intros(1) set_rev)
      with clean_stack_segs [OF ok] have "w \<noteq> []" "CHR ''/'' \<notin> set w" by blast+
      then have "\<not> has_prefix (go_join ''/'' (w # ws)) ''/''"
        by (cases w; cases ws) (auto simp: has_prefix_def)
      then have "\<not> has_prefix (go_join ''/'' (rev ?st)) ''/''" by (simp add: w)
      then show ?thesis
        using split [OF ne] clean_stack_kept [OF ok] False ne
        by (simp add: c path_clean_def [of "go_join _ _"] Let_def)
    qed
  qed
qed

lemma path_join_clean: "n \<noteq> [] \<Longrightarrow> path_clean (path_join [d, n]) = path_join [d, n]"
  by (simp add: path_join_def path_clean_idem)

text \<open>
  C38: a restart of the kubelet is recognised.  A file event restarts the plugins exactly when it is a
  creation of the socket of the kubelet, under any spelling of its path; in particular, an event for
  the entry \<open>n\<close> of the device-plugin directory, however this directory is written, restarts
  them exactly when \<open>n\<close> is created and is \<open>kubelet.sock\<close>.
\<close>

theorem kubelet_restart_event:
  assumes "path_base (KubeletSocket api) = ''kubelet.sock''" "good_seg n"
  shows "(isKubeletRestartEvent (KubeletSocketPath api flags) event \<longleftrightarrow>
      ev_Create event \<and> path_clean (ev_Name event) = KubeletSocketPath api flags)
    \<and> (isKubeletRestartEvent (KubeletSocketPath api flags)
         (event\<lparr>ev_Name := path_join [kubeletDevicePluginPath flags, n]\<rparr>) \<longleftrightarrow>
      ev_Create event \<and> n = ''kubelet.sock'')"
proof -
  have "good_seg ''kubelet.sock''" by (simp add: good_seg_def)
  moreover have "n \<noteq> []" using assms(2) by (simp add: good_seg_def)
  ultimately show ?thesis
    using assms path_join_name_inject [OF assms(2)]
    by (auto simp: isKubeletRestartEvent_def KubeletSocketPath_def path_join_clean)
qed

theorem kubelet_restart_event_witness:
  "isKubeletRestartEvent (KubeletSocketPath sample_api sample_flags)
     \<lparr>ev_Name = path_join [''/var/lib/kubelet/device-plugins/'', ''kubelet.sock''], ev_Create = True, ev_Op = []\<rparr>"
proof -
  have "path_base (KubeletSocket sample_api) = ''kubelet.sock''" by code_simp
  moreover have "good_seg ''kubelet.sock''" by (simp add: good_seg_def)
  ultimately show ?thesis
    using kubelet_restart_event [of sample_api "''kubelet.sock''" sample_flags
        "\<lparr>ev_Name = [], ev_Create = True, ev_Op = []\<rparr>"] by (simp add: sample_flags_def)
qed

end
