(* ===== verification/Converge.thy ===== *)
theory Converge imports RunLoop begin

text \<open>
  Recovery: once the system calls stop failing, one tick of \<open>Manager.Run\<close> brings the plugins to
  the inventory of its scan.
\<close>

section \<open>Calls without faults\<close>

definition calm :: "world \<Rightarrow> bool" where
  "calm w \<longleftrightarrow> (\<forall>n\<ge>w_clock w. w_fault w n = None)"

named_theorems calm_simps \<open>calls in a world without faults\<close>

lemma calm_tick [calm_simps]: "calm w \<Longrightarrow> sys_tick w = (None, w\<lparr>w_clock := Suc (w_clock w)\<rparr>)"
  by (simp add: calm_def sys_tick_def)

lemma calm_later [calm_simps]: "calm w \<Longrightarrow> calm (w\<lparr>w_clock := Suc (w_clock w)\<rparr>)"
  by (simp add: calm_def)

lemma calm_fields [calm_simps]:
  "calm (w\<lparr>w_paths := ps\<rparr>) = calm w" "calm (w\<lparr>w_listening := ls\<rparr>) = calm w"
  "calm (w\<lparr>w_registered := rs\<rparr>) = calm w" "calm (w\<lparr>w_logs := lg\<rparr>) = calm w"
  by (simp_all add: calm_def)

lemma calm_emit [calm_simps]: "calm (emit l msg a w) = calm w" "calm (plugin_emit p l msg a w) = calm w"
  by (simp_all add: plugin_emit_def emit_def calm_simps)

lemma calm_emit_all [calm_simps]: "calm (emit_all rs w) = calm w"
  by (simp add: emit_all_def calm_simps)

lemma calm_os_remove:
  "calm w \<Longrightarrow> calm (snd (os_remove p w))
     \<and> fst (os_remove p w) = (if p \<in> set (w_paths w) then None else Some NotExist)"
  by (simp add: os_remove_def calm_simps)

lemma calm_net_listen:
  "calm w \<Longrightarrow> calm (snd (net_listen p w)) \<and> (p \<notin> set (w_paths w) \<longrightarrow> fst (net_listen p w) = None)"
  by (simp add: net_listen_def calm_simps)

lemma calm_listener_close: "calm w \<Longrightarrow> calm (listener_close p w)"
  using calm_os_remove [of "w\<lparr>w_listening := removeAll p (w_listening w)\<rparr>" p]
  by (simp add: listener_close_def calm_simps)

lemma calm_fold: "(\<And>x w. calm (f x w) = calm w) \<Longrightarrow> calm (fold f xs w) = calm w"
  by (induction xs arbitrary: w) simp_all

lemma calm_log_registered [calm_simps]: "calm (log_registered api p w) = calm w"
  by (simp add: log_registered_def Let_def split_beta calm_fold calm_simps)

lemma calm_logInventoryDelta [calm_simps]: "calm (logInventoryDelta api p d h u w) = calm w"
  by (simp add: logInventoryDelta_def Let_def log_with_def calm_fold calm_simps)

lemma calm_close_connection [calm_simps]: "calm w \<Longrightarrow> calm (close_connection p w)"
  by (simp add: close_connection_def calm_simps)

lemma calm_kubelet_register:
  "calm w \<Longrightarrow> calm (snd (kubelet_register r w)) \<and> fst (kubelet_register r w) = None"
  by (simp add: kubelet_register_def calm_simps)

lemma calm_register:
  assumes "calm w"
  shows "calm (snd (plugin_register api p w)) \<and> fst (plugin_register api p w) = None"
proof -
  let ?w = "w\<lparr>w_clock := Suc (w_clock w)\<rparr>"
  have "calm ?w" using assms by (rule calm_later)
  moreover obtain e w1 where reg: "kubelet_register (register_request_of api p) ?w = (e, w1)" by fastforce
  ultimately have "e = None" "calm w1" using calm_kubelet_register [of ?w "register_request_of api p"] by simp_all
  then show ?thesis by (simp add: plugin_register_def calm_tick [OF assms] reg calm_simps)
qed

section \<open>Plugins without faults\<close>

lemma calm_Stop:
  assumes "calm w" "plugin_Stop p w = (e, p', w')"
  shows "e = None \<and> calm w'"
proof -
  let ?w1 = "if p_server p then listener_close (p_socketPath p) w else w"
  let ?w2 = "if p_listener p then listener_close (p_socketPath p) ?w1 else ?w1"
  have "calm ?w2" using assms(1) calm_listener_close by simp
  note r = calm_os_remove [OF this, of "p_socketPath p"]
  then show ?thesis
    using assms(2) by (auto simp: plugin_Stop_def Let_def split: prod.splits option.splits if_splits)
qed

lemma calm_Start:
  assumes "calm w" "plugin_Start api p w = (e, p', w')"
  shows "e = None \<and> calm w'"
proof -
  let ?w1 = "w\<lparr>w_clock := Suc (w_clock w)\<rparr>" and ?s = "p_socketPath p"
  obtain removed w2 where rm: "os_remove ?s ?w1 = (removed, w2)" by fastforce
  with calm_os_remove [of ?w1 ?s] assms(1) have c2: "calm w2" "removed = None \<or> removed = Some NotExist"
    by (auto simp: calm_simps split: if_splits)
  with os_remove_gone [of ?s ?w1] rm have "?s \<notin> set (w_paths w2)" by simp
  moreover obtain err w3 where li: "net_listen ?s w2 = (err, w3)" by fastforce
  ultimately have c3: "calm w3" "err = None" using calm_net_listen [OF c2(1), of ?s] by simp_all
  let ?p = "p\<lparr>p_listener := True, p_server := True\<rparr>"
  obtain r w4 where reg: "plugin_register api ?p w3 = (r, w4)" by fastforce
  with calm_register [OF c3(1), of api ?p] have "r = None" "calm w4" by simp_all
  moreover have "plugin_Start api p w = (None, ?p, w4)" if "r = None"
    using c2(2) that
    by (auto simp: plugin_Start_def calm_tick [OF assms(1)] rm li reg c3(2) Let_def)
  ultimately show ?thesis using assms(2) by simp
qed

lemma calm_existing:
  "calm w \<Longrightarrow> reconcile_existing api names groups plugins w = Some (e, groups', plugins', w') \<Longrightarrow>
     e = None \<and> calm w'"
proof (induction names arbitrary: groups plugins w)
  case (Cons r names)
  show ?case
  proof (cases "map_of plugins r")
    case None
    with Cons show ?thesis by simp
  next
    case (Some p)
    show ?thesis
    proof (cases "map_of groups r")
      case None
      obtain e1 p1 w1 where stop: "plugin_Stop p w = (e1, p1, w1)" by (metis prod_cases3)
      note c = calm_Stop [OF Cons.prems(1) stop]
      have run: "reconcile_existing api names groups (AList.delete r plugins)
          (emit LevelInfo ''Stopped device plugin for absent resource'' [(''resourceName'', LString r)] w1)
          = Some (e, groups', plugins', w')"
        using Cons.prems(2) Some None stop c by simp
      show ?thesis by (rule Cons.IH [OF _ run]) (simp add: c calm_simps)
    next
      case g: (Some g)
      then obtain p1 w1 where u: "UpdateDevices api (Devices g) p w = Some (p1, w1)"
        "reconcile_existing api names (AList.delete r groups) (AList.update r p1 plugins) w1
          = Some (e, groups', plugins', w')"
        using Cons.prems(2) Some by (auto simp: bind_eq_Some_conv)
      have "calm w1" using u(1) Cons.prems(1)
        by (auto simp: UpdateDevices_def Let_def split_beta calm_simps)
      from Cons.IH [OF this u(2)] show ?thesis .
    qed
  qed
qed simp

lemma calm_new:
  "calm w \<Longrightarrow> reconcile_new api flags cdi names groups plugins w = (e, plugins', w') \<Longrightarrow>
     e = None \<and> calm w'"
proof (induction names arbitrary: plugins w)
  case (Cons r names)
  show ?case
  proof (cases "map_of groups r")
    case None
    with Cons show ?thesis by simp
  next
    case (Some g)
    let ?p = "NewResourcePlugin r (resource_socket flags r) (KubeletSocketPath api flags) (Some cdi) (Devices g)"
    obtain e1 p1 w1 where run: "plugin_Start api ?p w = (e1, p1, w1)" by (metis prod_cases3)
    note c = calm_Start [OF Cons.prems(1) run]
    have "reconcile_new api flags cdi names groups (AList.update r p1 plugins) w1 = (e, plugins', w')"
      using Cons.prems(2) Some run c by (simp add: Let_def)
    from Cons.IH [OF _ this] c show ?thesis by simp
  qed
qed simp

lemma calm_reconcile:
  assumes "calm w" "reconcile api flags scan m w = Some (e, m', w')"
  shows "e = None"
proof -
  let ?w = "emit_all (discoverDeviceGroups_log (sc_fs scan) (sc_devices scan)) w"
  have "calm ?w" using assms(1) by (simp add: calm_simps)
  obtain r groups plugins w1 where ex: "reconcile_existing api (sc_order scan (map fst (m_plugins m)))
      (discoverDeviceGroups api (sc_fs scan) (sc_devices scan)) (m_plugins m) ?w = Some (r, groups, plugins, w1)"
    using assms(2) by (auto simp: reconcile_def Let_def)
  note c = calm_existing [OF \<open>calm ?w\<close> ex]
  obtain e2 plugins2 w2 where new: "reconcile_new api flags (m_cdi m) (sc_order scan (map fst groups))
      groups plugins w1 = (e2, plugins2, w2)" by (metis prod_cases3)
  have "e2 = None" using calm_new [OF _ new] c by simp
  with assms(2) show ?thesis by (simp add: reconcile_def Let_def ex c new)
qed

section \<open>Recovery\<close>

lemma run_loop_waiting:
  assumes "manager_inv flags (m_plugins m) w" "\<forall>e\<in>set events. event_ok e"
    and "\<forall>e\<in>set events. \<forall>err. \<not> ends_with api flags err e"
  obtains m' w' where "run_loop api flags events m w = Some (None, m', w')"
    "manager_inv flags (m_plugins m') w'" "m_cdi m' = m_cdi m" "m_health m' = m_health m"
  using run_loop_result [OF assms(1,2), of api] assms(3) that
  unfolding loop_result_def by (metis option.exhaust)

text \<open>
  C29: recovery.  Take any sequence of scans, watcher errors, irrelevant file events and outside
  changes of the directory, with any failing calls, and then one tick while no call fails.  The manager
  is still running, its plugins are those of the last scan with exactly the devices of the scan, and
  every resource the manager did not have before this tick has a new plugin that serves on its socket.
\<close>

theorem run_recovers:
  assumes "manager_inv flags (m_plugins m) w" "\<forall>e\<in>set events. event_ok e" "order_ok (sc_order scan)"
    and "\<forall>e\<in>set events. \<forall>err. \<not> ends_with api flags err e"
    and "\<forall>m1 w1. run_loop api flags events m w = Some (None, m1, w1) \<longrightarrow> calm w1"
  shows "\<exists>m1 w1 m2 w2. run_loop api flags events m w = Some (None, m1, w1)
    \<and> run_loop api flags (events @ [Tick scan]) m w = Some (None, m2, w2)
    \<and> map_of (m_plugins m2) = target_plugin api flags scan m1
    \<and> (\<forall>r. map_option p_devices (map_of (m_plugins m2) r)
          = map_option Devices (map_of (scan_groups api scan) r))
    \<and> (\<forall>r\<in>fresh_resources api scan m1. resource_socket flags r \<in> set (w_listening w2))"
proof -
  obtain m1 w1 where run: "run_loop api flags events m w = Some (None, m1, w1)"
    and inv: "manager_inv flags (m_plugins m1) w1"
    using run_loop_waiting [OF assms(1,2,4)] by blast
  obtain e m2 w2 where rec: "reconcile api flags scan m1 w1 = Some (e, m2, w2)"
    and inv2: "manager_inv flags (m_plugins m2) w2"
    using reconcile_outcome [OF inv assms(3), of api] by blast
  have e: "e = None" using calm_reconcile [OF _ rec] assms(5) run by blast
  have target: "map_of (m_plugins m2) = target_plugin api flags scan m1"
    using reconcile_outcome [OF inv assms(3), of api] rec e by auto
  have loop: "run_loop api flags (events @ [Tick scan]) m w = Some (None, m2, w2)"
    by (simp add: run_loop_append run rec e log_reconcile_failed_def)
  have "map_option p_devices (map_of (m_plugins m2) r) = map_option Devices (map_of (scan_groups api scan) r)" for r
    by (auto simp: target target_plugin_def updated_def new_plugin_def NewResourcePlugin_def split: option.split)
  moreover have "resource_socket flags r \<in> set (w_listening w2)" if r: "r \<in> fresh_resources api scan m1" for r
  proof -
    from r obtain g where "map_of (scan_groups api scan) r = Some g" "map_of (m_plugins m1) r = None"
      by (auto simp: fresh_resources_def)
    then have "map_of (m_plugins m2) r = Some (new_plugin api flags (m_cdi m1) r g)"
      by (simp add: target target_plugin_def)
    from manager_inv_plugin [OF inv2 this] show ?thesis
      by (simp add: plugin_ok_def new_plugin_def NewResourcePlugin_def)
  qed
  ultimately show ?thesis using run loop target by blast
qed

theorem run_recovers_witness:
  "\<exists>m w. run_loop sample_api sample_flags ([FsError_event ''overflow'', Outside [''kubelet.sock'']] @ [Tick sample_scan])
       sample_manager empty_world = Some (None, m, w)
     \<and> map_of (m_plugins m) ''rebellions.ai/npu-vf4'' \<noteq> None
     \<and> resource_socket sample_flags ''rebellions.ai/npu-vf4'' \<in> set (w_listening w)"
proof -
  let ?events = "[FsError_event ''overflow'', Outside [''kubelet.sock'']]"
  have "\<forall>e\<in>set ?events. event_ok e" "\<forall>e\<in>set ?events. \<forall>err. \<not> ends_with sample_api sample_flags err e" by simp_all
  moreover have "\<forall>m1 w1. run_loop sample_api sample_flags ?events sample_manager empty_world = Some (None, m1, w1) \<longrightarrow> calm w1"
    by (auto simp: calm_simps) (simp add: calm_def empty_world_def)
  ultimately obtain m1 w1 m2 w2 where r: "run_loop sample_api sample_flags ?events sample_manager empty_world = Some (None, m1, w1)"
    "run_loop sample_api sample_flags (?events @ [Tick sample_scan]) sample_manager empty_world = Some (None, m2, w2)"
    "map_of (m_plugins m2) = target_plugin sample_api sample_flags sample_scan m1"
    "\<forall>r\<in>fresh_resources sample_api sample_scan m1. resource_socket sample_flags r \<in> set (w_listening w2)"
    using run_recovers [OF sample_manager_inv _ sample_order(2)] by blast
  have "m1 = sample_manager" using r(1) by simp
  moreover have "map_of (scan_groups sample_api sample_scan) ''rebellions.ai/npu-vf4'' \<noteq> None" by code_simp
  ultimately have "''rebellions.ai/npu-vf4'' \<in> fresh_resources sample_api sample_scan m1"
    "map_of (m_plugins m2) ''rebellions.ai/npu-vf4'' \<noteq> None"
    by (auto simp: fresh_resources_def sample_manager_def r(3) target_plugin_def)
  with r(2,4) show ?thesis by blast
qed

end
