(* ===== verification/Logging.thy ===== *)
theory Logging imports Slog begin

text \<open>
  \<open>pkg/logging/logging.go\<close>: level and format of the process logger, the attribute rewriting and
  the short caller.  A logger is its handler options; the values of the two environment variables
  are arguments.  An attribute value is a time, a level, a source position or a string; the text of
  a formatted time is an argument of its constructor.
\<close>

section \<open>Levels and formats\<close>

definition levelString :: "slog_level \<Rightarrow> string" where
  "levelString l =
     (let str = (\<lambda>base v. if v = 0 then base else base @ (if v > 0 then ''+'' else []) @ itoa v) in
      if l < LevelInfo then str ''DEBUG'' (l - LevelDebug)
      else if l < LevelWarn then str ''INFO'' (l - LevelInfo)
      else if l < LevelError then str ''WARN'' (l - LevelWarn)
      else str ''ERROR'' (l - LevelError))"

datatype parse_error = UnknownLevel string | UnknownFormat string

definition parseLevel :: "string \<Rightarrow> (parse_error, slog_level) sum" where
  "parseLevel s =
     (let t = go_to_lower (trim_space s) in
      if t = [] \<or> t = ''info'' then Inr LevelInfo
      else if t = ''error'' then Inr LevelError
      else if t = ''warning'' \<or> t = ''warn'' then Inr LevelWarn
      else if t = ''debug'' then Inr LevelDebug
      else Inl (UnknownLevel s))"

definition parseFormat :: "string \<Rightarrow> (parse_error, string) sum" where
  "parseFormat s =
     (let t = go_to_lower (trim_space s) in
      if t = [] \<or> t = ''json'' then Inr ''json''
      else if t = ''text'' then Inr ''text''
      else Inl (UnknownFormat s))"

section \<open>The logger\<close>

record logger =
  lg_level :: slog_level
  lg_addSource :: bool
  lg_text :: bool

definition newLogger :: "slog_level \<Rightarrow> string \<Rightarrow> logger" where
  "newLogger lvl format =
     \<lparr>lg_level = lvl, lg_addSource = lvl \<le> LevelDebug, lg_text = (format = ''text'')\<rparr>"

definition enabled :: "logger \<Rightarrow> slog_level \<Rightarrow> bool" where
  "enabled lg level \<longleftrightarrow> lg_level lg \<le> level"

record log_settings =
  set_Level :: string
  set_Format :: string

datatype setup_warning = InvalidLevel parse_error string | InvalidFormat parse_error string

definition log_warn :: "logger \<Rightarrow> setup_warning \<Rightarrow> setup_warning list \<Rightarrow> setup_warning list" where
  "log_warn lg warning out = (if enabled lg LevelWarn then out @ [warning] else out)"

definition setupFromEnv ::
    "string \<Rightarrow> string \<Rightarrow> logger \<times> log_settings \<times> setup_warning list" where
  "setupFromEnv envLevel envFormat =
     (let (lvl, levelErr) = (case parseLevel envLevel of Inl err \<Rightarrow> (LevelInfo, Some err)
            | Inr lvl \<Rightarrow> (lvl, None));
          (format, formatErr) = (case parseFormat envFormat of Inl err \<Rightarrow> (''json'', Some err)
            | Inr format \<Rightarrow> (format, None));
          logger = newLogger lvl format;
          out = (case levelErr of Some err \<Rightarrow> log_warn logger (InvalidLevel err ''info'') [] | None \<Rightarrow> []);
          out = (case formatErr of Some err \<Rightarrow> log_warn logger (InvalidFormat err ''json'') out | None \<Rightarrow> out)
      in (logger, \<lparr>set_Level = go_to_lower (levelString lvl), set_Format = format\<rparr>, out))"

section \<open>Attributes\<close>

fun last_index :: "char \<Rightarrow> string \<Rightarrow> nat option" where
  "last_index c [] = None"
| "last_index c (x # s) =
     (case last_index c s of
        Some i \<Rightarrow> Some (Suc i)
      | None \<Rightarrow> if x = c then Some 0 else None)"

definition trimPath :: "string \<Rightarrow> string" where
  "trimPath file =
     (case last_index CHR ''/'' file of
        None \<Rightarrow> file
      | Some idx \<Rightarrow>
          (case last_index CHR ''/'' (take idx file) of
             Some idx2 \<Rightarrow> drop (idx2 + 1) file
           | None \<Rightarrow> file))"

datatype attr_value = ATime string | ALevel slog_level | ASource string int | AString string

definition replaceAttr :: "string list \<Rightarrow> string \<times> attr_value \<Rightarrow> string \<times> attr_value" where
  "replaceAttr groups a =
     (if groups \<noteq> [] then a
      else if fst a = ''time'' then
        (case snd a of ATime t \<Rightarrow> (''ts'', AString t) | _ \<Rightarrow> a)
      else if fst a = ''level'' then
        (case snd a of ALevel lvl \<Rightarrow> (fst a, AString (go_to_lower (levelString lvl))) | _ \<Rightarrow> a)
      else if fst a = ''source'' then
        (case snd a of
           ASource file line \<Rightarrow> (''caller'', AString (trimPath file @ '':'' @ itoa line)) | _ \<Rightarrow> a)
      else a)"

section \<open>Short callers\<close>

lemma last_index_None: "last_index c s = None \<longleftrightarrow> c \<notin> set s"
  by (induction s) (auto split: option.splits)

lemma last_index_Some:
  "last_index c s = Some i \<Longrightarrow> i < length s \<and> s = take i s @ c # drop (i + 1) s \<and> c \<notin> set (drop (i + 1) s)"
proof (induction s arbitrary: i)
  case (Cons x s)
  show ?case
  proof (cases "last_index c s")
    case None
    with Cons.prems show ?thesis using last_index_None [of c s] by (auto split: if_splits)
  next
    case (Some k)
    with Cons.prems have "i = Suc k" by simp
    then show ?thesis using Cons.IH [OF Some] by simp
  qed
qed simp

text \<open>
  The short caller is the end of the path.  \<open>trimPath\<close> keeps exactly the last two segments of
  a path, or the whole of a path with fewer.
\<close>

theorem trimPath_last_two:
  "trimPath file = (let segs = go_split CHR ''/'' file in go_join ''/'' (drop (length segs - 2) segs))"
proof (cases "last_index CHR ''/'' file")
  case None
  then have "go_split CHR ''/'' file = [file]" by (simp add: last_index_None go_split_plain)
  with None show ?thesis by (simp add: trimPath_def)
next
  case (Some i)
  let ?a = "take i file" and ?b = "drop (i + 1) file"
  have f: "file = ?a @ CHR ''/'' # ?b" "CHR ''/'' \<notin> set ?b" using last_index_Some [OF Some] by simp_all
  have "go_split CHR ''/'' file = go_split CHR ''/'' ?a @ go_split CHR ''/'' ?b"
    using go_split_append_sep [of "CHR ''/''" ?a ?b] f(1) by simp
  then have split: "go_split CHR ''/'' file = go_split CHR ''/'' ?a @ [?b]"
    using f(2) by (simp add: go_split_plain)
  show ?thesis
  proof (cases "last_index CHR ''/'' ?a")
    case None
    then have "go_split CHR ''/'' ?a = [?a]" by (simp add: last_index_None go_split_plain)
    with split f(1) Some None show ?thesis by (simp add: trimPath_def)
  next
    case a: (Some j)
    let ?c = "take j ?a" and ?d = "drop (j + 1) ?a"
    have g: "j < length ?a" "?a = ?c @ CHR ''/'' # ?d" "CHR ''/'' \<notin> set ?d"
      using last_index_Some [OF a] by blast+
    have "go_split CHR ''/'' ?a = go_split CHR ''/'' ?c @ [?d]"
      using go_split_append_sep [of "CHR ''/''" ?c ?d] g(2,3) by (simp add: go_split_plain)
    then have "go_split CHR ''/'' file = go_split CHR ''/'' ?c @ [?d, ?b]" using split by simp
    moreover have "drop (j + 1) (a @ b) = drop (j + 1) a @ b" if "j < length a" for a b :: string
      using that by simp
    then have "drop (j + 1) file = ?d @ CHR ''/'' # ?b" using f(1) g(1) by metis
    ultimately show ?thesis using Some a by (simp add: trimPath_def Let_def)
  qed
qed

section \<open>The settings\<close>

lemma parse_reported:
  "parseLevel (go_to_lower (levelString LevelInfo)) = Inr LevelInfo"
  "parseLevel (go_to_lower (levelString LevelError)) = Inr LevelError"
  "parseLevel (go_to_lower (levelString LevelWarn)) = Inr LevelWarn"
  "parseLevel (go_to_lower (levelString LevelDebug)) = Inr LevelDebug"
  "parseFormat ''json'' = Inr ''json''" "parseFormat ''text'' = Inr ''text''"
  by code_simp+

lemma parseLevel_cases: "parseLevel s = Inr l \<Longrightarrow> l \<in> {LevelInfo, LevelError, LevelWarn, LevelDebug}"
  by (auto simp: parseLevel_def Let_def split: if_splits)

lemma parseFormat_cases: "parseFormat s = Inr f \<Longrightarrow> f \<in> {''json'', ''text''}"
  by (auto simp: parseFormat_def Let_def split: if_splits)

text \<open>
  C40: the environment cannot break logging, and the settings tell the truth.  Whatever the two
  variables hold, the reported level and format parse back to the gate and the handler of the
  installed logger; each variable that does not parse, and only that one, falls back to its default;
  and the warnings name exactly the variables that did, except that a level of error hides the
  one about the format.
\<close>

theorem setupFromEnv_settings:
  "case setupFromEnv envLevel envFormat of (lg, settings, warnings) \<Rightarrow>
     parseLevel (set_Level settings) = Inr (lg_level lg)
     \<and> parseFormat (set_Format settings) = Inr (set_Format settings)
     \<and> lg_text lg = (set_Format settings = ''text'')
     \<and> lg_addSource lg = (lg_level lg = LevelDebug)
     \<and> lg_level lg = (case parseLevel envLevel of Inr l \<Rightarrow> l | Inl _ \<Rightarrow> LevelInfo)
     \<and> set_Format settings = (case parseFormat envFormat of Inr f \<Rightarrow> f | Inl _ \<Rightarrow> ''json'')
     \<and> warnings = (case parseLevel envLevel of Inl err \<Rightarrow> [InvalidLevel err ''info''] | Inr _ \<Rightarrow> [])
         @ (case parseFormat envFormat of
              Inl err \<Rightarrow> filter (\<lambda>_. lg_level lg \<noteq> LevelError) [InvalidFormat err ''json'']
            | Inr _ \<Rightarrow> [])"
proof -
  define lvl where "lvl = (case parseLevel envLevel of Inr l \<Rightarrow> l | Inl _ \<Rightarrow> LevelInfo)"
  define format where "format = (case parseFormat envFormat of Inr f \<Rightarrow> f | Inl _ \<Rightarrow> ''json'')"
  have l: "lvl \<in> {LevelInfo, LevelError, LevelWarn, LevelDebug}"
    using parseLevel_cases [of envLevel] by (auto simp: lvl_def split: sum.split)
  have f: "format \<in> {''json'', ''text''}"
    using parseFormat_cases [of envFormat] by (auto simp: format_def split: sum.split)
  have run: "setupFromEnv envLevel envFormat =
      (newLogger lvl format, \<lparr>set_Level = go_to_lower (levelString lvl), set_Format = format\<rparr>,
       (case parseLevel envLevel of Inl err \<Rightarrow> [InvalidLevel err ''info''] | Inr _ \<Rightarrow> [])
         @ (case parseFormat envFormat of
              Inl err \<Rightarrow> filter (\<lambda>_. lvl \<noteq> LevelError) [InvalidFormat err ''json'']
            | Inr _ \<Rightarrow> []))"
    using l
    by (cases "parseLevel envLevel"; cases "parseFormat envFormat")
      (auto simp: setupFromEnv_def lvl_def format_def log_warn_def enabled_def newLogger_def
        slog_level_defs)
  have "parseLevel (go_to_lower (levelString lvl)) = Inr lvl" "parseFormat format = Inr format"
    using l f parse_reported by auto
  moreover have "lvl \<le> LevelDebug \<longleftrightarrow> lvl = LevelDebug" using l by (auto simp: slog_level_defs)
  moreover have "lg_level (newLogger lvl format) = lvl" "lg_text (newLogger lvl format) = (format = ''text'')"
    "lg_addSource (newLogger lvl format) = (lvl \<le> LevelDebug)" by (simp_all add: newLogger_def)
  ultimately show ?thesis
    unfolding run by (simp only: prod.case log_settings.simps lvl_def [symmetric] format_def [symmetric] simp_thms)
qed

end
