(* ===== verification/Process.thy ===== *)
theory Process imports RunLoop Logging begin

text \<open>
  \<open>Run\<close> of \<open>cmd/rbln-device-plugin/main.go\<close> with \<open>initTracing\<close> of \<open>tracing.go\<close>: the life of
  the process from the first record to the last deferred call.  \<open>os.MkdirAll\<close> is one fallible call;
  directories are not kept in \<open>w_paths\<close>.  The OpenTelemetry SDK and the URL parser are the record
  \<open>otel_library\<close>; \<open>pe_duration\<close> and \<open>pe_quote\<close> are the texts of \<open>Duration.String\<close> and of
  the verb \<open>%q\<close>.  A cancelled context ends the manager's loop by the event \<open>CtxDone\<close>.
\<close>

section \<open>Tracing\<close>

datatype otlp_option = WithEndpointURL string | WithEndpoint string | WithInsecure

record otel_library =
  ol_parse :: "string \<Rightarrow> string option"
  ol_exporter :: "otlp_option list \<Rightarrow> string option"
  ol_resource :: "(string \<times> string) list \<Rightarrow> string option"
  ol_shutdown :: "string option"

datatype tracing_error =
    ParseEndpointFailed string string
  | NewExporterFailed string
  | BuildResourceFailed string

text \<open>The options the exporter is built with, or the error.\<close>

definition newOTLPExporter :: "otel_library \<Rightarrow> string \<Rightarrow> (tracing_error, otlp_option list) go_result" where
  "newOTLPExporter lib endpoint =
     (let url = go_contains endpoint ''://'' in
      if url \<and> ol_parse lib endpoint \<noteq> None
      then Inl (ParseEndpointFailed endpoint (the (ol_parse lib endpoint)))
      else
        (let opts = (if url then [WithEndpointURL endpoint] else [WithEndpoint endpoint, WithInsecure]) in
         case ol_exporter lib opts of Some err \<Rightarrow> Inl (NewExporterFailed err) | None \<Rightarrow> Inr opts))"

definition newTracingResource :: "otel_library \<Rightarrow> string \<Rightarrow> string \<Rightarrow> (tracing_error, (string \<times> string) list) go_result" where
  "newTracingResource lib nodeName serviceVersion =
     (let attrs = [(''service.name'', ''rbln-device-plugin''), (''service.version'', serviceVersion)];
          attrs = (if nodeName \<noteq> [] then attrs @ [(''k8s.node.name'', nodeName)] else attrs)
      in case ol_resource lib attrs of Some err \<Rightarrow> Inl (BuildResourceFailed err) | None \<Rightarrow> Inr attrs)"

text \<open>The shutdown function: what it returns; of a disabled tracing it returns nil.\<close>

definition initTracing ::
    "otel_library \<Rightarrow> string \<Rightarrow> string \<Rightarrow> string \<Rightarrow> world \<Rightarrow> (tracing_error, string option) go_result \<times> world" where
  "initTracing lib nodeName endpoint serviceVersion w =
     (if endpoint = [] then
        (Inr None, emit LevelInfo ''Distributed tracing disabled; no OTLP endpoint configured'' [] w)
      else
        (case newOTLPExporter lib endpoint of
           Inl err \<Rightarrow> (Inl err, w)
         | Inr exporter \<Rightarrow>
             (case newTracingResource lib nodeName serviceVersion of
                Inl err \<Rightarrow> (Inl err, w)
              | Inr res \<Rightarrow>
                  (Inr (ol_shutdown lib),
                   emit LevelInfo ''Distributed tracing enabled'' [(''otlpEndpoint'', LString endpoint)] w))))"

fun tracing_error_text :: "(string \<Rightarrow> string) \<Rightarrow> tracing_error \<Rightarrow> string" where
  "tracing_error_text quote (ParseEndpointFailed endpoint err) =
     ''create OTLP trace exporter: parse OTLP endpoint URL '' @ quote endpoint @ '': '' @ err"
| "tracing_error_text quote (NewExporterFailed err) = ''create OTLP trace exporter: '' @ err"
| "tracing_error_text quote (BuildResourceFailed err) = ''build tracing resource: '' @ err"

section \<open>Run\<close>

record process_env =
  pe_version :: string
  pe_nodeName :: string
  pe_otel :: otel_library
  pe_watch :: watch_library
  pe_duration :: "int \<Rightarrow> string"
  pe_quote :: "string \<Rightarrow> string"
  pe_readDir :: dir_listing
  pe_scan :: scan
  pe_events :: "run_event list"
  pe_order :: "string list \<Rightarrow> string list"

datatype process_error =
    MkdirAllFailed fs_error
  | NewManagerFailed manager_error
  | ManagerRunFailed run_error

datatype process_state = Running manager | Exited "process_error option" | Crashed

text \<open>
  \<open>errors.Is(err, context.Canceled)\<close>: of the errors of \<open>Run\<close>, the one of the dial to the kubelet
  may wrap the error of the context; its text tells.
\<close>

fun is_canceled :: "run_error \<Rightarrow> bool" where
  "is_canceled Canceled \<longleftrightarrow> True"
| "is_canceled (ManagerFailed (StartPluginFailed _ (ConnectFailed _ err))) \<longleftrightarrow>
     err = FsError ''context canceled''"
| "is_canceled _ \<longleftrightarrow> False"

text \<open>How \<open>Run\<close> ends: a panic runs the deferred calls and crashes the process.\<close>

definition exit_state :: "run_error \<Rightarrow> process_state" where
  "exit_state err =
     (if err = TickerPanic then Crashed
      else Exited (if is_canceled err then None else Some (ManagerRunFailed err)))"

definition log_starting :: "flags \<Rightarrow> log_settings \<Rightarrow> process_env \<Rightarrow> world \<Rightarrow> world" where
  "log_starting flags settings env =
     emit LevelInfo ''Starting rbln-device-plugin''
       [(''version'', LString (pe_version env)), (''logLevel'', LString (set_Level settings)),
        (''logFormat'', LString (set_Format settings)), (''cdiRoot'', LString (cdiRoot flags)),
        (''kubeletDevicePluginPath'', LString (kubeletDevicePluginPath flags)),
        (''healthcheckPort'', LInt (healthcheckPort flags)),
        (''deviceScanInterval'', LString (pe_duration env (deviceScanInterval flags)))]"

definition setup_tracing :: "flags \<Rightarrow> process_env \<Rightarrow> world \<Rightarrow> string option \<times> world" where
  "setup_tracing flags env w =
     (case initTracing (pe_otel env) (pe_nodeName env) (otlpEndpoint flags) (pe_version env) w of
        (Inl err, w) \<Rightarrow>
          (None, emit LevelWarn ''Tracing setup failed; continuing without distributed tracing''
            [(''err'', LErr (tracing_error_text (pe_quote env) err)),
             (''otlpEndpoint'', LString (otlpEndpoint flags))] w)
      | (Inr shutdownTracing, w) \<Rightarrow> (shutdownTracing, w))"

definition flush_traces :: "string option \<Rightarrow> world \<Rightarrow> world" where
  "flush_traces shutdownTracing w =
     (case shutdownTracing of
        Some err \<Rightarrow> emit LevelWarn ''Failed to flush traces on shutdown'' [(''err'', LErr err)] w
      | None \<Rightarrow> w)"

definition Run ::
    "kubelet_api \<Rightarrow> flags \<Rightarrow> log_settings \<Rightarrow> process_env \<Rightarrow> world \<Rightarrow> (process_state \<times> world) option" where
  "Run api flags settings env w =
     (case sys_tick (log_starting flags settings env w) of
        (Some err, w) \<Rightarrow> Some (Exited (Some (MkdirAllFailed err)), w)
      | (None, w) \<Rightarrow>
          (case sys_tick w of
             (Some err, w) \<Rightarrow> Some (Exited (Some (MkdirAllFailed err)), w)
           | (None, w) \<Rightarrow>
               (let (shutdownTracing, w) = setup_tracing flags env w in
                case NewManager (pe_readDir env) flags w of
                  (Inl err, w) \<Rightarrow>
                    Some (Exited (Some (NewManagerFailed err)), flush_traces shutdownTracing w)
                | (Inr m, w) \<Rightarrow>
                    map_option (\<lambda>(r, m, w).
                        case r of
                          None \<Rightarrow> (Running m, w)
                        | Some err \<Rightarrow>
                            (exit_state err,
                             flush_traces shutdownTracing (snd (manager_Stop (pe_order env) m w))))
                      (manager_Run api flags (pe_watch env) (pe_scan env) (pe_events env) m w))))"

section \<open>The life of the process\<close>

text \<open>The sockets of the process are free.\<close>

definition nothing_open :: "flags \<Rightarrow> world \<Rightarrow> bool" where
  "nothing_open flags w \<longleftrightarrow>
     (\<forall>r\<in>resource_names. resource_socket flags r \<notin> set (w_listening w))
     \<and> (0 \<le> healthcheckPort flags \<longrightarrow> health_addr (healthcheckPort flags) \<notin> set (w_listening w))"

lemma nothing_open_cong: "w_listening w' = w_listening w \<Longrightarrow> nothing_open flags w' = nothing_open flags w"
  by (simp add: nothing_open_def)

lemma setup_tracing_listening:
  "setup_tracing flags env w = (s, w') \<Longrightarrow> w_listening w' = w_listening w"
  by (auto simp: setup_tracing_def initTracing_def world_simps split: sum.splits if_splits prod.splits)

lemma log_starting_listening [simp]: "w_listening (log_starting flags settings env w) = w_listening w"
  by (simp add: log_starting_def world_simps)

lemma flush_traces_listening [simp]: "w_listening (flush_traces s w) = w_listening w"
  by (simp add: flush_traces_def world_simps split: option.split)

lemma nothing_open_flush [simp]: "nothing_open flags (flush_traces s w) = nothing_open flags w"
  by (simp add: nothing_open_def)

text \<open>The health service a new manager starts with.\<close>

definition health_start :: "flags \<Rightarrow> healthServer option" where
  "health_start flags =
     (if healthcheckPort flags < 0 then None
      else Some \<lparr>h_addr = health_addr (healthcheckPort flags), h_serving = False\<rparr>)"

lemma tcp_listen_listening:
  "set (w_listening (snd (tcp_listen addr w))) =
     (if fst (tcp_listen addr w) = None then insert addr (set (w_listening w)) else set (w_listening w))"
  by (auto simp: tcp_listen_def sys_tick_def split: option.split)

lemma NewManager_outcome:
  assumes "nothing_open flags w" "NewManager read_dir flags w = (r, w')"
  shows "case r of
      Inl err \<Rightarrow> nothing_open flags w'
    | Inr m \<Rightarrow> m_plugins m = [] \<and> m_health m = health_start flags \<and> manager_inv flags [] w'"
proof -
  obtain e w1 where init: "cdi_Initialize read_dir (NewCDIHandler (cdiRoot flags)) w = (e, w1)" by fastforce
  have w1: "w_listening w1 = w_listening w" using cdi_Initialize_fields [OF init] by simp
  then have open1: "nothing_open flags w1" using nothing_open_cong assms(1) by blast
  show ?thesis
  proof (cases "e = None \<and> 0 \<le> healthcheckPort flags")
    case False
    then show ?thesis
      using assms(2) open1
      by (auto simp: NewManager_def Let_def init startHealthcheck_def health_start_def nothing_open_def
          manager_inv_Nil split: option.splits)
  next
    case True
    obtain l w2 where li: "tcp_listen (health_addr (healthcheckPort flags)) w1 = (l, w2)" by fastforce
    note t = tcp_listen_listening [of "health_addr (healthcheckPort flags)" w1, unfolded li]
    have "resource_socket flags r \<in> set (w_listening w2) \<longleftrightarrow> resource_socket flags r \<in> set (w_listening w1)"
      if "r \<in> resource_names" for r
      using t health_addr_no_socket [OF that, of "healthcheckPort flags" flags] by (auto split: if_splits)
    then have "manager_inv flags [] w2" using open1 by (simp add: manager_inv_Nil nothing_open_def)
    moreover have "nothing_open flags w2" if "l \<noteq> None"
      using t that open1 by (auto simp: nothing_open_def)
    ultimately show ?thesis
      using assms(2) True
      by (auto simp: NewManager_def Let_def init startHealthcheck_def health_start_def li split: option.splits)
  qed
qed

definition process_result :: "flags \<Rightarrow> (process_state \<times> world) option \<Rightarrow> bool" where
  "process_result flags result \<longleftrightarrow>
     (\<exists>state w. result = Some (state, w) \<and>
        (case state of
           Running m \<Rightarrow> manager_inv flags (m_plugins m) w
             \<and> m_health m = map_option (SetServing True) (health_start flags)
         | _ \<Rightarrow> nothing_open flags w))"

lemma exit_state_over [simp]: "exit_state err \<noteq> Running m" "Running m \<noteq> exit_state err"
  by (simp_all add: exit_state_def)

lemma manager_Run_waiting:
  "manager_Run api flags lib scan events m w = Some (None, m', w') \<Longrightarrow>
     \<exists>m1 w1. reconcile api flags scan m w = Some (None, m1, w1)"
  by (auto simp: manager_Run_def bind_eq_Some_conv split: option.splits)

lemma manager_Run_cancelled:
  assumes "manager_Run api flags lib scan events m w = Some (None, m', w')"
  shows "manager_Run api flags lib scan (events @ CtxDone # later) m w
      = Some (Some Canceled, m', close_watcher lib w')"
proof -
  obtain m1 w1 where rec: "reconcile api flags scan m w = Some (None, m1, w1)"
    using manager_Run_waiting [OF assms] by blast
  let ?m = "m1\<lparr>m_health := map_option (SetServing True) (m_health m1)\<rparr>"
  have lib: "\<not> deviceScanInterval flags \<le> 0" "wl_new lib = None" "wl_add lib (kubeletDevicePluginPath flags) = None"
    using assms by (auto simp: manager_Run_def rec Let_def split: option.splits if_splits)
  then have "run_loop api flags events ?m w1 = Some (None, m', w')"
    using assms by (auto simp: manager_Run_def rec Let_def split: if_splits)
  then show ?thesis by (simp add: manager_Run_def rec Let_def lib run_loop_append)
qed

lemma Run_running:
  assumes "Run api flags settings env w = Some (Running m, w')"
  obtains m0 w2 w3 w4 where
    "sys_tick (log_starting flags settings env w) = (None, w2)" "sys_tick w2 = (None, w3)"
    "NewManager (pe_readDir env) flags (snd (setup_tracing flags env w3)) = (Inr m0, w4)"
    "manager_Run api flags (pe_watch env) (pe_scan env) (pe_events env) m0 w4 = Some (None, m, w')"
proof -
  obtain e1 w2 where mk1: "sys_tick (log_starting flags settings env w) = (e1, w2)" by fastforce
  obtain e2 w3 where mk2: "sys_tick w2 = (e2, w3)" by fastforce
  obtain r w4 where new: "NewManager (pe_readDir env) flags (snd (setup_tracing flags env w3)) = (r, w4)" by fastforce
  have "e1 = None" "e2 = None"
    using assms by (auto simp: Run_def mk1 mk2 split: option.splits)
  moreover from this obtain m0 where "r = Inr m0"
    using assms by (cases r) (auto simp: Run_def mk1 mk2 new split_beta)
  moreover from calculation have "manager_Run api flags (pe_watch env) (pe_scan env) (pe_events env) m0 w4 = Some (None, m, w')"
    using assms by (auto simp: Run_def mk1 mk2 new split_beta split: option.splits)
  ultimately show thesis using that mk1 mk2 new by simp
qed

lemma manager_stopped_nothing_open:
  assumes "manager_inv flags (m_plugins m) w" "order_ok order"
    and "m_health m = map_option (SetServing b) (health_start flags)"
  shows "nothing_open flags (snd (manager_Stop order m w))"
proof -
  obtain m' w' where stop: "manager_Stop order m w = (m', w')" by fastforce
  have ok: "health_ok m" using assms(3) by (auto simp: health_ok_def health_start_def SetServing_def)
  note closed = manager_Stop_closes [OF assms(1,2) ok, unfolded stop prod.case]
  have "m_health m' = map_option (SetServing False) (m_health m)"
    using stop by (auto simp: manager_Stop_def Let_def split: option.splits)
  then have "m_health m' = Some \<lparr>h_addr = health_addr (healthcheckPort flags), h_serving = False\<rparr>"
    if "0 \<le> healthcheckPort flags"
    using that assms(3) by (simp add: health_start_def SetServing_def)
  with closed show ?thesis by (auto simp: nothing_open_def stop)
qed

lemma health_start_idle: "map_option (\<lambda>h. h) (health_start flags) = map_option (SetServing False) (health_start flags)"
  by (simp add: health_start_def SetServing_def)

lemma Run_result:
  assumes "nothing_open flags w" "order_ok (sc_order (pe_scan env))" "\<forall>e\<in>set (pe_events env). event_ok e"
    and "order_ok (pe_order env)"
  shows "process_result flags (Run api flags settings env w)"
proof -
  obtain e1 w1 where mk1: "sys_tick (log_starting flags settings env w) = (e1, w1)" by fastforce
  obtain e2 w2 where mk2: "sys_tick w1 = (e2, w2)" by fastforce
  obtain s w3 where tr: "setup_tracing flags env w2 = (s, w3)" by fastforce
  obtain r w4 where new: "NewManager (pe_readDir env) flags w3 = (r, w4)" by fastforce
  have l1: "w_listening w1 = w_listening w"
    using sys_tick_fields(2) [of "log_starting flags settings env w"] by (simp add: mk1)
  have l2: "w_listening w2 = w_listening w1" using sys_tick_fields(2) [of w1] by (simp add: mk2)
  have open1: "nothing_open flags w1" using assms(1) nothing_open_cong [OF l1] by blast
  then have open2: "nothing_open flags w2" using nothing_open_cong [OF l2] by blast
  then have open3: "nothing_open flags w3" using nothing_open_cong [OF setup_tracing_listening [OF tr]] by blast
  note nm = NewManager_outcome [OF open3 new]
  show ?thesis
  proof (cases "e1 = None \<and> e2 = None \<and> (\<exists>m. r = Inr m)")
    case False
    consider err where "e1 = Some err" | err where "e1 = None" "e2 = Some err"
      | err where "e1 = None" "e2 = None" "r = Inl err"
      using False by (metis option.exhaust sum.exhaust)
    then show ?thesis
    proof cases
      case 1
      with open1 show ?thesis by (simp add: Run_def mk1 process_result_def)
    next
      case 2
      with open2 show ?thesis by (simp add: Run_def mk1 mk2 process_result_def)
    next
      case 3
      with nm show ?thesis by (simp add: Run_def mk1 mk2 tr new process_result_def nothing_open_def)
    qed
  next
    case True
    then obtain m where m: "e1 = None" "e2 = None" "r = Inr m" by blast
    with nm have m4: "m_plugins m = []" "m_health m = health_start flags" "manager_inv flags (m_plugins m) w4"
      by simp_all
    obtain first m5 w5 q m6 w6 where run: "reconcile api flags (pe_scan env) m w4 = Some (first, m5, w5)"
      "manager_Run api flags (pe_watch env) (pe_scan env) (pe_events env) m w4 = Some (q, m6, w6)"
      "manager_inv flags (m_plugins m6) w6"
      "m_health m6 = map_option (if first = None then SetServing True else (\<lambda>h. h)) (m_health m)"
      using manager_Run_outcome [OF m4(3) assms(2,3), of api "pe_watch env"] by blast
    have result: "Run api flags settings env w = Some (case q of None \<Rightarrow> (Running m6, w6)
        | Some err \<Rightarrow> (exit_state err,
            flush_traces s (snd (manager_Stop (pe_order env) m6 w6))))"
      by (simp add: Run_def mk1 mk2 tr new m run(2))
    show ?thesis
    proof (cases q)
      case None
      then have "first = None" using manager_Run_waiting run(1,2) by force
      with None run(3,4) m4(2) show ?thesis by (simp add: result process_result_def)
    next
      case (Some err)
      have "m_health m6 = map_option (SetServing (first = None)) (health_start flags)"
        using run(4) m4(2) health_start_idle by (cases first) simp_all
      from manager_stopped_nothing_open [OF run(3) assms(4) this] Some show ?thesis
        by (simp add: result process_result_def exit_state_def)
    qed
  qed
qed

text \<open>
  The process leaves nothing behind.  Started while its sockets are free, with any
  configuration, any tracing set-up, any events and any failing calls, \<open>Run\<close> never blocks; as long
  as it runs, its plugins keep their invariant and the health service reports serving; and when it
  returns, with or without an error, the socket of no resource and no health listener is open.
\<close>

theorem Run_leaves_nothing_open:
  assumes "nothing_open flags w" "order_ok (sc_order (pe_scan env))" "\<forall>e\<in>set (pe_events env). event_ok e"
    and "order_ok (pe_order env)"
  shows "\<exists>state w'. Run api flags settings env w = Some (state, w') \<and>
    (case state of
       Running m \<Rightarrow> manager_inv flags (m_plugins m) w'
         \<and> m_health m = map_option (SetServing True) (health_start flags)
     | _ \<Rightarrow> nothing_open flags w')"
  using Run_result [OF assms, of api settings] by (simp add: process_result_def)

text \<open>
  C31: a running process ends cleanly on a signal.  From any state in which \<open>Run\<close> is still
  running, the cancelled context makes it return nil, with nothing left open, whatever fails on the way
  and whatever events were still to come.
\<close>

theorem Run_shuts_down:
  assumes "nothing_open flags w" "order_ok (sc_order (pe_scan env))" "\<forall>e\<in>set (pe_events env). event_ok e"
    and "order_ok (pe_order env)" "\<forall>e\<in>set later. event_ok e"
    and "Run api flags settings env w = Some (Running m, w1)"
  shows "\<exists>w'. Run api flags settings (env\<lparr>pe_events := pe_events env @ CtxDone # later\<rparr>) w
      = Some (Exited None, w') \<and> nothing_open flags w'"
proof -
  let ?env = "env\<lparr>pe_events := pe_events env @ CtxDone # later\<rparr>"
  from assms(6) obtain m0 w2 w3 w4 where run:
    "sys_tick (log_starting flags settings env w) = (None, w2)" "sys_tick w2 = (None, w3)"
    "NewManager (pe_readDir env) flags (snd (setup_tracing flags env w3)) = (Inr m0, w4)"
    "manager_Run api flags (pe_watch env) (pe_scan env) (pe_events env) m0 w4 = Some (None, m, w1)"
    by (rule Run_running)
  have "log_starting flags settings ?env w = log_starting flags settings env w"
    "setup_tracing flags ?env w3 = setup_tracing flags env w3"
    by (simp_all add: log_starting_def setup_tracing_def split: sum.split prod.split)
  moreover have "manager_Run api flags (pe_watch env) (pe_scan env) (pe_events env @ CtxDone # later) m0 w4
      = Some (Some Canceled, m, close_watcher (pe_watch env) w1)"
    by (rule manager_Run_cancelled [OF run(4)])
  ultimately have "\<exists>w'. Run api flags settings ?env w = Some (Exited None, w')"
    using run(1-3) by (simp add: Run_def split_beta exit_state_def)
  then obtain w' where run: "Run api flags settings ?env w = Some (Exited None, w')" by blast
  moreover have "process_result flags (Run api flags settings ?env w)"
    by (rule Run_result) (use assms in auto)
  ultimately show ?thesis by (simp add: process_result_def)
qed

definition process_flags :: flags where
  "process_flags = sample_flags\<lparr>healthcheckPort := 9\<rparr>"

definition sample_otel :: otel_library where
  "sample_otel = \<lparr>ol_parse = (\<lambda>_. Some ''missing port''), ol_exporter = (\<lambda>_. None), ol_resource = (\<lambda>_. None),
     ol_shutdown = None\<rparr>"

definition sample_env :: process_env where
  "sample_env = \<lparr>pe_version = ''dev'', pe_nodeName = ''node-1'', pe_otel = sample_otel, pe_watch = quiet_library,
     pe_duration = (\<lambda>_. ''5s''), pe_quote = (\<lambda>s. s), pe_readDir = (\<lambda>_. Inl NotExist),
     pe_scan = sample_scan, pe_events = [Tick sample_scan, Outside [], kubelet_created], pe_order = (\<lambda>xs. xs)\<rparr>"

lemma sample_env_ok:
  "nothing_open process_flags empty_world" "nothing_open process_flags register_fails_world"
  "order_ok (sc_order (pe_scan sample_env))" "\<forall>e\<in>set (pe_events sample_env). event_ok e"
  "order_ok (pe_order sample_env)"
  by (simp_all add: nothing_open_def empty_world_def register_fails_world_def sample_env_def sample_order
      kubelet_created_def)

theorem Run_leaves_nothing_open_witness:
  "\<exists>err w. Run sample_api process_flags \<lparr>set_Level = ''info'', set_Format = ''json''\<rparr> sample_env register_fails_world
       = Some (Exited (Some err), w) \<and> nothing_open process_flags w"
proof -
  let ?run = "Run sample_api process_flags \<lparr>set_Level = ''info'', set_Format = ''json''\<rparr> sample_env register_fails_world"
  have "map_option (\<lambda>(s, w). case s of Exited (Some e) \<Rightarrow> True | _ \<Rightarrow> False) ?run = Some True" by code_simp
  then obtain st w where st: "?run = Some (st, w)" "case st of Exited (Some e) \<Rightarrow> True | _ \<Rightarrow> False"
    by (auto simp del: not_None_eq)
  then obtain err where "st = Exited (Some err)" by (cases st) (auto split: option.splits)
  with st have "?run = Some (Exited (Some err), w)" by simp
  then show ?thesis
    using Run_leaves_nothing_open [OF sample_env_ok(2-5), of sample_api "\<lparr>set_Level = ''info'', set_Format = ''json''\<rparr>"]
    by auto
qed

definition idle_env :: process_env where
  "idle_env = sample_env\<lparr>pe_events := [Outside []]\<rparr>"

theorem Run_shuts_down_witness:
  "\<exists>w. Run sample_api process_flags \<lparr>set_Level = ''info'', set_Format = ''json''\<rparr>
       (idle_env\<lparr>pe_events := pe_events idle_env @ CtxDone # []\<rparr>) empty_world
     = Some (Exited None, w) \<and> nothing_open process_flags w"
proof -
  let ?run = "Run sample_api process_flags \<lparr>set_Level = ''info'', set_Format = ''json''\<rparr> idle_env empty_world"
  have "map_option (\<lambda>(s, w). case s of Running _ \<Rightarrow> True | _ \<Rightarrow> False) ?run = Some True" by code_simp
  then obtain st w where st: "?run = Some (st, w)" "case st of Running _ \<Rightarrow> True | _ \<Rightarrow> False"
    by (auto simp del: not_None_eq)
  then obtain m where "st = Running m" by (cases st) auto
  with st have run: "?run = Some (Running m, w)" by simp
  have "order_ok (sc_order (pe_scan idle_env))" "\<forall>e\<in>set (pe_events idle_env). event_ok e"
    "order_ok (pe_order idle_env)" using sample_env_ok(3-5) by (simp_all add: idle_env_def)
  from Run_shuts_down [OF sample_env_ok(1) this _ run, of "[]"] show ?thesis by simp
qed

end
