(* ===== verification/Advertised.thy ===== *)
theory Advertised imports Process AllocateProps begin

text \<open>
  From the scan to the container: what a running process advertises to the kubelet can be allocated.  Every
  plugin of a running manager has the manager's CDI handler and holds its devices under their own names,
  whatever scans, restarts and failed reconciliations led to it; so \<open>Allocate\<close> accepts what
  \<open>ListAndWatch\<close> offered, and mounts the nodes the identifiers name.
\<close>

section \<open>The plugins of the process\<close>

definition plugin_from :: "cdiHandler \<Rightarrow> resourcePlugin \<Rightarrow> bool" where
  "plugin_from cdi p \<longleftrightarrow> p_cdi p = Some cdi \<and> named_devices (p_devices p)"

definition plugins_from :: "cdiHandler \<Rightarrow> resourcePlugin go_map \<Rightarrow> bool" where
  "plugins_from cdi plugins \<longleftrightarrow> (\<forall>r p. map_of plugins r = Some p \<longrightarrow> plugin_from cdi p)"

definition groups_named :: "deviceGroup go_map \<Rightarrow> bool" where
  "groups_named groups \<longleftrightarrow> (\<forall>r g. map_of groups r = Some g \<longrightarrow> named_devices (Devices g))"

named_theorems from_simps \<open>where plugins come from\<close>

lemma plugins_from_Nil [from_simps]: "plugins_from cdi []"
  by (simp add: plugins_from_def)

lemma plugins_from_maps [from_simps]:
  "plugins_from cdi plugins \<Longrightarrow> plugins_from cdi (AList.delete r plugins)"
  "plugins_from cdi plugins \<Longrightarrow> plugin_from cdi p \<Longrightarrow> plugins_from cdi (AList.update r p plugins)"
  "groups_named groups \<Longrightarrow> groups_named (AList.delete r groups)"
  by (auto simp: plugins_from_def groups_named_def go_map_simps split: if_splits)

lemma groups_named_scan [from_simps]: "groups_named (discoverDeviceGroups api fs devices)"
  using groups_ok_at [OF discoverDeviceGroups_ok] by (auto simp: groups_named_def group_ok_def)

lemma plugin_from_stop: "plugin_Stop p w = (e, p', w') \<Longrightarrow> plugin_from cdi p \<Longrightarrow> plugin_from cdi p'"
  by (auto simp: plugin_from_def dest: plugin_Stop_cases(1))

lemma plugin_from_update:
  "UpdateDevices api ds p w = Some (p', w') \<Longrightarrow> plugin_from cdi p \<Longrightarrow> named_devices ds \<Longrightarrow> plugin_from cdi p'"
  using UpdateDevices_devices [of api ds p w p' w'] by (auto simp: plugin_from_def)

lemma plugin_from_start:
  assumes "plugin_Start api (NewResourcePlugin r socket kubelet (Some cdi) ds) w = (None, p', w')" "named_devices ds"
  shows "plugin_from cdi p'"
proof -
  have "\<not> p_stopCh (NewResourcePlugin r socket kubelet (Some cdi) ds)" by (simp add: NewResourcePlugin_def)
  from plugin_Start_cases(1) [OF assms(1) this] assms(2) show ?thesis
    by (simp add: plugin_from_def NewResourcePlugin_def)
qed

lemma existing_from:
  "reconcile_existing api names groups plugins w = Some (e, groups', plugins', w') \<Longrightarrow>
     plugins_from cdi plugins \<Longrightarrow> groups_named groups \<Longrightarrow> plugins_from cdi plugins' \<and> groups_named groups'"
proof (induction names arbitrary: groups plugins w)
  case (Cons r names)
  show ?case
  proof (cases "map_of plugins r")
    case None
    with Cons show ?thesis by simp
  next
    case (Some p)
    with Cons.prems(2) have p: "plugin_from cdi p" by (simp add: plugins_from_def)
    show ?thesis
    proof (cases "map_of groups r")
      case None
      obtain e1 p1 w1 where stop: "plugin_Stop p w = (e1, p1, w1)" by (metis prod_cases3)
      show ?thesis
      proof (cases e1)
        case e1: None
        then show ?thesis
          using Cons.prems Some None stop Cons.IH [OF _ plugins_from_maps(1) [OF Cons.prems(2)] Cons.prems(3)] by simp
      next
        case e1: (Some err)
        then show ?thesis
          using Cons.prems Some None stop plugins_from_maps(2) [OF Cons.prems(2) plugin_from_stop [OF stop p]] by auto
      qed
    next
      case g: (Some g)
      then obtain p1 w1 where u: "UpdateDevices api (Devices g) p w = Some (p1, w1)"
        "reconcile_existing api names (AList.delete r groups) (AList.update r p1 plugins) w1
          = Some (e, groups', plugins', w')"
        using Cons.prems(1) Some by (auto simp: bind_eq_Some_conv)
      have "plugin_from cdi p1"
        using plugin_from_update [OF u(1) p] Cons.prems(3) g by (simp add: groups_named_def)
      from Cons.IH [OF u(2) plugins_from_maps(2) [OF Cons.prems(2) this] plugins_from_maps(3) [OF Cons.prems(3)]]
      show ?thesis .
    qed
  qed
qed simp

lemma new_from:
  "reconcile_new api flags cdi names groups plugins w = (e, plugins', w') \<Longrightarrow>
     plugins_from cdi plugins \<Longrightarrow> groups_named groups \<Longrightarrow> plugins_from cdi plugins'"
proof (induction names arbitrary: plugins w)
  case (Cons r names)
  show ?case
  proof (cases "map_of groups r")
    case None
    with Cons show ?thesis by simp
  next
    case (Some g)
    obtain e1 p1 w1 where run: "plugin_Start api (NewResourcePlugin r (resource_socket flags r)
        (KubeletSocketPath api flags) (Some cdi) (Devices g)) w = (e1, p1, w1)" by (metis prod_cases3)
    show ?thesis
    proof (cases e1)
      case None
      then have "plugin_from cdi p1"
        using plugin_from_start run Cons.prems(3) Some by (simp add: groups_named_def)
      with Cons Some run None show ?thesis by (simp add: Let_def plugins_from_maps(2))
    next
      case e1: (Some err)
      with Cons.prems Some run show ?thesis by (simp add: Let_def)
    qed
  qed
qed simp

lemma reconcile_from:
  assumes "reconcile api flags scan m w = Some (e, m', w')" "plugins_from (m_cdi m) (m_plugins m)"
  shows "m_cdi m' = m_cdi m \<and> plugins_from (m_cdi m) (m_plugins m')"
proof -
  obtain r groups plugins w1 where ex: "reconcile_existing api (sc_order scan (map fst (m_plugins m)))
      (scan_groups api scan) (m_plugins m)
      (emit_all (discoverDeviceGroups_log (sc_fs scan) (sc_devices scan)) w) = Some (r, groups, plugins, w1)"
    using assms(1) by (auto simp: reconcile_def Let_def)
  note from_existing = existing_from [OF ex assms(2) groups_named_scan]
  obtain e2 plugins2 w2 where new: "reconcile_new api flags (m_cdi m) (sc_order scan (map fst groups))
      groups plugins w1 = (e2, plugins2, w2)" by (metis prod_cases3)
  have "plugins_from (m_cdi m) plugins2" using new_from [OF new] from_existing by blast
  with from_existing assms(1) show ?thesis
    by (auto simp: reconcile_def Let_def ex new split: option.splits)
qed

lemma run_loop_from:
  assumes "run_loop api flags events m w = Some (None, m', w')" "plugins_from (m_cdi m) (m_plugins m)"
  shows "m_cdi m' = m_cdi m \<and> plugins_from (m_cdi m) (m_plugins m')"
  using assms
proof (induction api flags events m w rule: run_loop.induct)
  case (3 api flags scan events m w)
  then obtain r m1 w1 where rec: "reconcile api flags scan m w = Some (r, m1, w1)"
    by (auto simp: bind_eq_Some_conv)
  from reconcile_from [OF this "3.prems"(2)] "3.IH" [of "(r, m1, w1)"] "3.prems"(1) rec show ?case by simp
next
  case (4 api flags event read_dir scan events m w)
  show ?case
  proof (cases "isKubeletRestartEvent (KubeletSocketPath api flags) event")
    case False
    with 4 show ?thesis by simp
  next
    case True
    with "4.prems"(1) obtain m1 w1 where re: "restart api flags read_dir scan m (log_recreated event w) = Some (None, m1, w1)"
      and rest: "run_loop api flags events m1 w1 = Some (None, m', w')"
      by (auto simp: bind_eq_Some_conv split: option.splits)
    obtain w0 where "reconcile api flags scan (m\<lparr>m_plugins := []\<rparr>) w0 = Some (None, m1, w1)"
      using re by (auto simp: restart_def split: prod.splits option.splits)
    from reconcile_from [OF this] have "m_cdi m1 = m_cdi m \<and> plugins_from (m_cdi m) (m_plugins m1)"
      by (simp add: from_simps)
    with "4.IH"(2) [of "(None, m1, w1)"] re rest True show ?thesis by simp
  qed
qed simp_all

lemma Run_plugins:
  assumes "Run api flags settings env w = Some (Running m, w')"
  shows "plugins_from (NewCDIHandler (cdiRoot flags)) (m_plugins m)"
proof -
  obtain w1 m0 w4 where new: "NewManager (pe_readDir env) flags w1 = (Inr m0, w4)"
    and run: "manager_Run api flags (pe_watch env) (pe_scan env) (pe_events env) m0 w4 = Some (None, m, w')"
    by (rule Run_running [OF assms])
  have m0: "m_cdi m0 = NewCDIHandler (cdiRoot flags)" "m_plugins m0 = []"
    using new by (auto simp: NewManager_def Let_def split: prod.splits option.splits sum.splits)
  obtain m1 w1 where rec: "reconcile api flags (pe_scan env) m0 w4 = Some (None, m1, w1)"
    using manager_Run_waiting [OF run] by blast
  have m1: "m_cdi m1 = m_cdi m0 \<and> plugins_from (m_cdi m0) (m_plugins m1)"
    by (rule reconcile_from [OF rec]) (simp add: m0 from_simps)
  have "run_loop api flags (pe_events env) (m1\<lparr>m_health := map_option (SetServing True) (m_health m1)\<rparr>) w1
      = Some (None, m, w')"
    using run by (auto simp: manager_Run_def rec Let_def split: option.splits if_splits)
  from run_loop_from [OF this] m1 m0 show ?thesis by simp
qed

section \<open>What can still refuse a container\<close>

text \<open>
  An error of the node: the RSD group call, the wait for a device node or the CDI library failed, with
  the error they reported.
\<close>

definition node_failed ::
    "node_env \<Rightarrow> cdiHandler \<Rightarrow> string list list \<Rightarrow> string list \<Rightarrow> string list \<Rightarrow> alloc_error \<Rightarrow> bool" where
  "node_failed node cdi calls bus ids err \<longleftrightarrow>
     (case err of
        RsdGroupFailed b e \<Rightarrow> b = bus \<and> n_rsdGroup node calls bus = Inl e
      | RsdDeviceNode path e \<Rightarrow> n_rsdGroup node calls bus = Inr path \<and> path \<noteq> []
          \<and> (\<exists>t. fst (waitForDeviceNode node path t) = Inl e)
      | RblnDeviceNode path e \<Rightarrow> (\<exists>i\<in>set ids. path = ''/dev/'' @ i)
          \<and> (\<exists>t. fst (waitForDeviceNode node path t) = Inl e)
      | RuntimeAnnotationsFailed e \<Rightarrow> RuntimeAnnotations (n_cdi node) cdi = Inl e
      | _ \<Rightarrow> False)"

lemma newDeviceSpec_Inl:
  "newDeviceSpec node c path now = (Inl e, now') \<Longrightarrow> fst (waitForDeviceNode node path now) = Inl e"
  by (auto simp: newDeviceSpec_def split: prod.splits sum.splits)

lemma rbln_specs_Inl:
  "rbln_specs node ds specs now = (Inl err, now') \<Longrightarrow>
     \<exists>d\<in>set ds. \<exists>e t. err = RblnDeviceNode (''/dev/'' @ Name (Info d)) e
       \<and> fst (waitForDeviceNode node (''/dev/'' @ Name (Info d)) t) = Inl e"
proof (induction ds arbitrary: specs now)
  case (Cons d ds)
  let ?path = "''/dev/'' @ Name (Info d)"
  obtain r now1 where spec: "newDeviceSpec node ?path ?path now = (r, now1)" by fastforce
  show ?case
  proof (cases r)
    case (Inl e)
    with Cons.prems spec newDeviceSpec_Inl [of node ?path ?path now e now1] show ?thesis by auto
  next
    case (Inr rblnSpec)
    with Cons.prems spec have "rbln_specs node ds (specs @ [rblnSpec]) now1 = (Inl err, now')" by simp
    from Cons.IH [OF this] show ?thesis by auto
  qed
qed simp

lemma deviceSpecs_Inl:
  assumes "deviceSpecsForDevices node ds host now = (Inl err, now')"
  shows "host \<noteq> [] \<and> (\<exists>e t. err = RsdDeviceNode host e \<and> fst (waitForDeviceNode node host t) = Inl e)
    \<or> (\<exists>d\<in>set ds. \<exists>e t. err = RblnDeviceNode (''/dev/'' @ Name (Info d)) e
       \<and> fst (waitForDeviceNode node (''/dev/'' @ Name (Info d)) t) = Inl e)"
proof (cases "host = []")
  case True
  with assms rbln_specs_Inl [of node ds "[]" now err now'] show ?thesis by (simp add: deviceSpecsForDevices_def)
next
  case False
  obtain r now1 where spec: "newDeviceSpec node ''/dev/rsd0'' host now = (r, now1)" by fastforce
  show ?thesis
  proof (cases r)
    case (Inl e)
    with assms spec False newDeviceSpec_Inl [of node "''/dev/rsd0''" host now e now1] show ?thesis
      by (auto simp: deviceSpecsForDevices_def)
  next
    case (Inr rsdSpec)
    with assms spec False have "rbln_specs node ds [rsdSpec] now1 = (Inl err, now')"
      by (simp add: deviceSpecsForDevices_def)
    with rbln_specs_Inl show ?thesis by blast
  qed
qed

lemma steps_node_failed:
  assumes "container_refused p ids = None" "container_steps node p ids s = (Inl err, s')" "p_cdi p = Some cdi"
    and "\<forall>i\<in>set ids. Name (Info (device_at (p_devices p) i)) = i"
  shows "node_failed node cdi (as_rsdCalls s) (container_bus p ids) ids err"
proof -
  let ?ds = "map (device_at (p_devices p)) ids" and ?bus = "container_bus p ids"
  have acc: "ids \<noteq> []" "selectedDevices p ids = Inr ?ds"
    "bus_loop ?ds [] = Inr (map (\<lambda>i. PCIBusID (Info (device_at (p_devices p) i))) ids)"
    using allocateContainer_accepted [OF assms(1)] by blast+
  define s1 where "s1 = alloc_log (StartingAllocation ids ?bus) (alloc_log (SpanAttributes [(attrBusIDs, LStrings ?bus)]) s)"
  obtain g s2 where group: "rsdGroupFn node ?bus s1 = (g, s2)" by fastforce
  then have g: "n_rsdGroup node (as_rsdCalls s) ?bus = g" by (simp add: rsdGroupFn_def s1_def)
  note run = assms(2) [unfolded container_steps_def assms(3) acc(2,3) option.case sum.case if_not_P [OF acc(1)] Let_def
      container_bus_def [symmetric] s1_def [symmetric] group prod.case]
  show ?thesis
  proof (cases g)
    case (Inl e)
    with run g show ?thesis by (auto simp: node_failed_def)
  next
    case host: (Inr host)
    define s3 where "s3 = alloc_log (RecreatedGroup ?bus host) (alloc_log (SpanAttributes [(attrRsdHostPath, LString host)]) s2)"
    obtain d now where specs: "deviceSpecsForDevices node ?ds host (as_now s3) = (d, now)" by fastforce
    show ?thesis
    proof (cases d)
      case (Inl e)
      with run host specs have "err = e" by (auto simp: s3_def)
      with deviceSpecs_Inl [OF specs [unfolded Inl]] g host assms(4) show ?thesis
        by (auto simp: node_failed_def)
    next
      case (Inr ds)
      with run host specs show ?thesis
        by (auto simp: s3_def node_failed_def split: sum.splits)
    qed
  qed
qed

section \<open>Advertised devices can be allocated\<close>

text \<open>The only check left for identifiers of the list the kubelet received: their PCI addresses.\<close>

lemma refused_advertised:
  assumes "plugin_from cdi p" "ids \<noteq> []" "set ids \<subseteq> set (map pd_ID (clonePluginDevices api (p_devices p)))"
  shows "\<forall>i\<in>set ids. Name (Info (device_at (p_devices p) i)) = i"
    and "container_refused p ids
      = map_option MissingPCIBusID (find (\<lambda>i. PCIBusID (Info (device_at (p_devices p) i)) = []) ids)"
proof -
  have named: "named_devices (p_devices p)" and cdi: "p_cdi p = Some cdi" using assms(1) by (simp_all add: plugin_from_def)
  have keys: "set ids \<subseteq> fst ` set (p_devices p)"
    using assms(3) by (simp add: clonePluginDevices_ids [OF named] sortedDeviceIDs_def)
  then have at: "map_of (p_devices p) i = Some (device_at (p_devices p) i)" if "i \<in> set ids" for i
    using that device_at_key by blast
  then show names: "\<forall>i\<in>set ids. Name (Info (device_at (p_devices p) i)) = i"
    using named_devices_at [OF named] by blast
  have "find (\<lambda>i. map_of (p_devices p) i = None) ids = None" using at by (auto simp: find_None_iff)
  moreover have "map_option (\<lambda>d. MissingPCIBusID (Name (Info d)))
      (find (\<lambda>d. PCIBusID (Info d) = []) (map (device_at (p_devices p)) ids))
    = map_option MissingPCIBusID (find (\<lambda>i. PCIBusID (Info (device_at (p_devices p) i)) = []) ids)"
    using names by (induction ids) simp_all
  ultimately show "container_refused p ids
      = map_option MissingPCIBusID (find (\<lambda>i. PCIBusID (Info (device_at (p_devices p) i)) = []) ids)"
    using assms(2) cdi by (simp add: container_refused_def)
qed

text \<open>
  C37: what the process advertises can be allocated.  Take any running state of the process, after any
  configuration, scans, kubelet restarts and failing calls, and a container that asks one of its plugins for
  at least one device, all from the list the plugin advertises.  The request is never refused as unmanaged
  or for want of a CDI handler: if some device was discovered without a PCI address, it is refused with the
  first of them before any RSD group is touched; otherwise it fails only with the error of a node operation
  (the RSD group call, the wait for a device node, the CDI annotations), or the container gets the RSD node and
  the node of each identifier, in order, with the annotations of the configured CDI root.
\<close>

theorem advertised_is_allocatable:
  assumes "Run api flags settings env w = Some (Running m, w')" "map_of (m_plugins m) r = Some p"
    and "ids \<noteq> []" "set ids \<subseteq> set (map pd_ID (clonePluginDevices api (p_devices p)))"
  defines "cdi \<equiv> NewCDIHandler (cdiRoot flags)" and "bus \<equiv> container_bus p ids"
  shows "case allocateContainer node p ids s of (result, s') \<Rightarrow>
    (case find (\<lambda>i. PCIBusID (Info (device_at (p_devices p) i)) = []) ids of
       Some i \<Rightarrow> result = Inl (MissingPCIBusID i) \<and> as_rsdCalls s' = as_rsdCalls s
     | None \<Rightarrow> as_rsdCalls s' = as_rsdCalls s @ [bus] \<and>
         (case result of
            Inl err \<Rightarrow> node_failed node cdi (as_rsdCalls s) bus ids err
          | Inr response \<Rightarrow> \<exists>host. n_rsdGroup node (as_rsdCalls s) bus = Inr host
              \<and> DeviceSpecs response = (if host = [] then [] else [rw_spec ''/dev/rsd0'' host])
                  @ map (\<lambda>i. rw_spec (''/dev/'' @ i) (''/dev/'' @ i)) ids
              \<and> RuntimeAnnotations (n_cdi node) cdi = Inr (Annotations response)))"
proof -
  have p: "plugin_from cdi p"
    using Run_plugins [OF assms(1)] assms(2) by (simp add: plugins_from_def cdi_def)
  then have some: "p_cdi p = Some cdi" by (simp add: plugin_from_def)
  note names = refused_advertised(1) [OF p assms(3,4)] and refused = refused_advertised(2) [OF p assms(3,4)]
  show ?thesis
  proof (cases "find (\<lambda>i. PCIBusID (Info (device_at (p_devices p) i)) = []) ids")
    case (Some i)
    with refused have "container_refused p ids = Some (MissingPCIBusID i)" by simp
    from allocateContainer_refused [OF this, of node s] Some show ?thesis by simp
  next
    case None
    with refused have none: "container_refused p ids = None" by simp
    obtain result s' where run: "allocateContainer node p ids s = (result, s')" by fastforce
    then obtain t where t: "container_steps node p ids (alloc_log (container_span p ids) s) = (result, t)"
      "as_rsdCalls s' = as_rsdCalls s @ [bus]" unfolding bus_def by (rule allocateContainer_runs [OF none])
    show ?thesis
    proof (cases result)
      case (Inl err)
      from steps_node_failed [OF none t(1) [unfolded Inl] some names]
      have "node_failed node cdi (as_rsdCalls s) bus ids err" by (simp add: bus_def)
      with None run t(2) Inl show ?thesis by simp
    next
      case (Inr response)
      with container_steps_runs(3) [OF none t(1)] some obtain host where
        host: "n_rsdGroup node (as_rsdCalls s) bus = Inr host"
          "RuntimeAnnotations (n_cdi node) cdi = Inr (Annotations response)"
          "DeviceSpecs response = container_specs p host ids" by (auto simp: bus_def)
      have "map (\<lambda>i. let path = ''/dev/'' @ Name (Info (device_at (p_devices p) i)) in rw_spec path path) ids
          = map (\<lambda>i. rw_spec (''/dev/'' @ i) (''/dev/'' @ i)) ids" using names by (simp add: Let_def)
      with None run t(2) Inr host show ?thesis by (simp add: container_specs_def)
    qed
  qed
qed

text \<open>The partitioned node of the sample scan: the process runs, and its one function is allocated.\<close>

theorem advertised_is_allocatable_witness:
  "\<exists>m w p response. Run sample_api process_flags \<lparr>set_Level = ''info'', set_Format = ''json''\<rparr> idle_env empty_world
       = Some (Running m, w)
     \<and> map_of (m_plugins m) ''rebellions.ai/npu-vf4'' = Some p
     \<and> map pd_ID (clonePluginDevices sample_api (p_devices p)) = [''rbln1'']
     \<and> fst (allocateContainer slow_node p [''rbln1''] alloc_init) = Inr response
     \<and> map ContainerPath (DeviceSpecs response) = [''/dev/rsd0'', ''/dev/rbln1'']"
proof -
  let ?run = "Run sample_api process_flags \<lparr>set_Level = ''info'', set_Format = ''json''\<rparr> idle_env empty_world"
  let ?r = "''rebellions.ai/npu-vf4''"
  have "map_option (\<lambda>(s, w). case s of
      Running m \<Rightarrow> map_option (\<lambda>p. (map pd_ID (clonePluginDevices sample_api (p_devices p)),
        map (\<lambda>(i, d). PCIBusID (Info d)) (p_devices p), isl (fst (allocateContainer slow_node p [''rbln1''] alloc_init))))
        (map_of (m_plugins m) ?r)
    | _ \<Rightarrow> None) ?run = Some (Some ([''rbln1''], [''0000:3b:00.1''], False))" by code_simp
  then obtain st w where st: "?run = Some (st, w)" and here: "(case st of
      Running m \<Rightarrow> map_option (\<lambda>p. (map pd_ID (clonePluginDevices sample_api (p_devices p)),
        map (\<lambda>(i, d). PCIBusID (Info d)) (p_devices p), isl (fst (allocateContainer slow_node p [''rbln1''] alloc_init))))
        (map_of (m_plugins m) ?r)
    | _ \<Rightarrow> None) = Some ([''rbln1''], [''0000:3b:00.1''], False)" by auto
  then obtain m where m: "st = Running m" by (cases st) simp_all
  with here obtain p where p: "map_of (m_plugins m) ?r = Some p"
    "map pd_ID (clonePluginDevices sample_api (p_devices p)) = [''rbln1'']"
    "map (\<lambda>(i, d). PCIBusID (Info d)) (p_devices p) = [''0000:3b:00.1'']"
    "\<not> isl (fst (allocateContainer slow_node p [''rbln1''] alloc_init))" by auto
  have run: "?run = Some (Running m, w)" using st m by simp
  obtain result s' where alloc: "allocateContainer slow_node p [''rbln1''] alloc_init = (result, s')" by fastforce
  with p(4) obtain response where response: "result = Inr response" by (cases result) auto
  have ids: "[''rbln1''] \<noteq> []" "set [''rbln1''] \<subseteq> set (map pd_ID (clonePluginDevices sample_api (p_devices p)))"
    by (simp_all add: p(2) del: set_map)
  note spec = advertised_is_allocatable [OF run p(1) ids, where node = slow_node and s = alloc_init]
  from spec obtain host where
    "n_rsdGroup slow_node (as_rsdCalls alloc_init) (container_bus p [''rbln1'']) = Inr host"
    "DeviceSpecs response = (if host = [] then [] else [rw_spec ''/dev/rsd0'' host])
      @ map (\<lambda>i. rw_spec (''/dev/'' @ i) (''/dev/'' @ i)) [''rbln1'']"
    unfolding alloc response prod.case sum.case by (auto split: option.splits)
  moreover have "host = ''/dev/rsd3''"
    using calculation(1) by (simp add: slow_node_def container_bus_def)
  ultimately have "map ContainerPath (DeviceSpecs response) = [''/dev/rsd0'', ''/dev/rbln1'']"
    by (simp add: rw_spec_def)
  with run p(1,2) alloc response show ?thesis by auto
qed

end
