(* ===== verification/LogFrame.thy ===== *)
theory LogFrame imports RunLoop begin

text \<open>
  The log is only written: no operation of the running process reads it.  Each one commutes with a prefix of
  the log, \<open>with_logs\<close>; the locale \<open>log_writer\<close> draws the two consequences, that the log only
  grows and that the rest does not depend on it, and is interpreted on the loop of the manager.
\<close>

section \<open>A prefix of the log\<close>

definition with_logs :: "log_record list \<Rightarrow> world \<Rightarrow> world" where
  "with_logs l w = w\<lparr>w_logs := l @ w_logs w\<rparr>"

lemma with_logs_fields [simp]:
  "w_paths (with_logs l w) = w_paths w" "w_listening (with_logs l w) = w_listening w"
  "w_registered (with_logs l w) = w_registered w" "w_logs (with_logs l w) = l @ w_logs w"
  "w_clock (with_logs l w) = w_clock w" "w_fault (with_logs l w) = w_fault w"
  by (simp_all add: with_logs_def)

lemma with_logs_nest [simp]: "with_logs k (with_logs l w) = with_logs (k @ l) w"
  by (simp add: with_logs_def)

text \<open>The world before its log.\<close>

definition erased :: "world \<Rightarrow> world" where
  "erased w = w\<lparr>w_logs := []\<rparr>"

lemma with_logs_erased [simp]: "with_logs (w_logs w) (erased w) = w"
  by (simp add: with_logs_def erased_def)

lemma erased_with_logs [simp]: "erased (with_logs l w) = erased w"
  by (simp add: with_logs_def erased_def)

lemma erased_fields [simp]:
  "w_paths (erased w) = w_paths w" "w_listening (erased w) = w_listening w"
  "w_registered (erased w) = w_registered w" "w_logs (erased w) = []"
  "w_clock (erased w) = w_clock w" "w_fault (erased w) = w_fault w"
  by (simp_all add: erased_def)

named_theorems log_frame \<open>operations commute with a prefix of the log\<close>

section \<open>Operations\<close>

lemma world_updates_frame [log_frame]:
  "(with_logs l w)\<lparr>w_paths := ps\<rparr> = with_logs l (w\<lparr>w_paths := ps\<rparr>)"
  "(with_logs l w)\<lparr>w_listening := ps\<rparr> = with_logs l (w\<lparr>w_listening := ps\<rparr>)"
  "(with_logs l w)\<lparr>w_registered := rs\<rparr> = with_logs l (w\<lparr>w_registered := rs\<rparr>)"
  "(with_logs l w)\<lparr>w_clock := n\<rparr> = with_logs l (w\<lparr>w_clock := n\<rparr>)"
  by (simp_all add: with_logs_def)

lemma emit_frame [log_frame]:
  "emit level msg attrs (with_logs l w) = with_logs l (emit level msg attrs w)"
  "emit_all rs (with_logs l w) = with_logs l (emit_all rs w)"
  "plugin_emit p level msg attrs (with_logs l w) = with_logs l (plugin_emit p level msg attrs w)"
  "log_with p h u level msg attrs (with_logs l w) = with_logs l (log_with p h u level msg attrs w)"
  by (simp_all add: emit_def emit_all_def plugin_emit_def log_with_def with_logs_def)

lemma fold_frame:
  "(\<And>x w. f x (with_logs l w) = with_logs l (f x w)) \<Longrightarrow> fold f xs (with_logs l w) = with_logs l (fold f xs w)"
  by (induction xs arbitrary: w) simp_all

lemma sys_tick_frame [log_frame]:
  "sys_tick (with_logs l w) = (fst (sys_tick w), with_logs l (snd (sys_tick w)))"
  by (simp add: sys_tick_def log_frame)

lemma call_frame [log_frame]:
  "os_remove path (with_logs l w) = (fst (os_remove path w), with_logs l (snd (os_remove path w)))"
  "net_listen path (with_logs l w) = (fst (net_listen path w), with_logs l (snd (net_listen path w)))"
  "tcp_listen path (with_logs l w) = (fst (tcp_listen path w), with_logs l (snd (tcp_listen path w)))"
  "kubelet_register r (with_logs l w) = (fst (kubelet_register r w), with_logs l (snd (kubelet_register r w)))"
  by (simp_all add: os_remove_def net_listen_def tcp_listen_def kubelet_register_def log_frame split_beta
      split: option.split)

lemma close_frame [log_frame]:
  "listener_close path (with_logs l w) = with_logs l (listener_close path w)"
  "close_connection p (with_logs l w) = with_logs l (close_connection p w)"
  "health_Stop h (with_logs l w) = with_logs l (health_Stop h w)"
  by (simp_all add: listener_close_def close_connection_def health_Stop_def log_frame split_beta
      split: option.split)

lemma plugin_Stop_frame [log_frame]:
  "plugin_Stop p (with_logs l w) =
     (fst (plugin_Stop p w), fst (snd (plugin_Stop p w)), with_logs l (snd (snd (plugin_Stop p w))))"
  by (simp add: plugin_Stop_def Let_def log_frame split_beta split: option.split)

lemma log_registered_frame [log_frame]:
  "log_registered api p (with_logs l w) = with_logs l (log_registered api p w)"
  by (simp add: log_registered_def Let_def split_beta log_frame fold_frame)

lemma plugin_register_frame [log_frame]:
  "plugin_register api p (with_logs l w) =
     (fst (plugin_register api p w), with_logs l (snd (plugin_register api p w)))"
  by (simp add: plugin_register_def log_frame split_beta split: option.split)

lemma plugin_Start_frame [log_frame]:
  "plugin_Start api p (with_logs l w) =
     (fst (plugin_Start api p w), fst (snd (plugin_Start api p w)), with_logs l (snd (snd (plugin_Start api p w))))"
  by (simp add: plugin_Start_def Let_def log_frame split_beta split: option.split)

lemma logInventoryDelta_frame [log_frame]:
  "logInventoryDelta api p delta h u (with_logs l w) = with_logs l (logInventoryDelta api p delta h u w)"
  by (simp add: logInventoryDelta_def Let_def log_frame fold_frame)

abbreviation frame_option :: "log_record list \<Rightarrow> ('a \<times> world) option \<Rightarrow> ('a \<times> world) option" where
  "frame_option l \<equiv> map_option (map_prod id (with_logs l))"

lemma UpdateDevices_frame [log_frame]:
  "UpdateDevices api ds p (with_logs l w) = frame_option l (UpdateDevices api ds p w)"
  by (simp add: UpdateDevices_def Let_def log_frame split_beta option.map_comp o_def)

section \<open>The manager\<close>

abbreviation frame_option2 :: "log_record list \<Rightarrow> ('a \<times> 'b \<times> world) option \<Rightarrow> ('a \<times> 'b \<times> world) option" where
  "frame_option2 l \<equiv> map_option (map_prod id (map_prod id (with_logs l)))"

lemma bind_map_option: "Option.bind (map_option f x) g = Option.bind x (g \<circ> f)"
  by (cases x) simp_all

lemma reconcile_existing_frame [log_frame]:
  "reconcile_existing api names groups plugins (with_logs l w) =
     map_option (map_prod id (map_prod id (map_prod id (with_logs l))))
       (reconcile_existing api names groups plugins w)"
proof (induction names arbitrary: groups plugins w)
  case (Cons r names)
  show ?case
  proof (cases "map_of plugins r")
    case (Some p)
    show ?thesis
    proof (cases "map_of groups r")
      case None
      then show ?thesis using Some Cons.IH by (simp add: log_frame split_beta split: option.split)
    next
      case g: (Some g)
      then show ?thesis
        using Some Cons.IH
        by (cases "UpdateDevices api (Devices g) p w") (simp_all add: log_frame split_beta)
    qed
  qed (use Cons.IH in simp)
qed simp

lemma reconcile_new_frame [log_frame]:
  "reconcile_new api flags cdi names groups plugins (with_logs l w) =
     map_prod id (map_prod id (with_logs l)) (reconcile_new api flags cdi names groups plugins w)"
  by (induction names arbitrary: plugins w)
    (simp_all add: Let_def log_frame split_beta split: option.split)

lemma reconcile_frame [log_frame]:
  "reconcile api flags scan m (with_logs l w) = frame_option2 l (reconcile api flags scan m w)"
proof -
  let ?w = "emit_all (discoverDeviceGroups_log (sc_fs scan) (sc_devices scan)) w"
  let ?run = "reconcile_existing api (sc_order scan (map fst (m_plugins m))) (scan_groups api scan) (m_plugins m) ?w"
  show ?thesis
  proof (cases ?run)
    case (Some x)
    obtain r groups plugins w1 where x: "x = (r, groups, plugins, w1)" by (metis prod_cases4)
    obtain r' plugins' w2 where new:
      "reconcile_new api flags (m_cdi m) (sc_order scan (map fst groups)) groups plugins w1 = (r', plugins', w2)"
      by (metis prod_cases3)
    show ?thesis
      by (cases r; cases r') (simp_all add: reconcile_def Some x Let_def log_frame new)
  qed (simp add: reconcile_def Let_def log_frame)
qed

lemma cleanup_loop_frame [log_frame]:
  "cleanup_loop root pre entries (with_logs l w) =
     (fst (cleanup_loop root pre entries w), with_logs l (snd (cleanup_loop root pre entries w)))"
  by (induction entries arbitrary: w) (auto simp: log_frame split_beta split: option.split)

lemma cdi_Initialize_frame [log_frame]:
  "cdi_Initialize read_dir cdi (with_logs l w) =
     (fst (cdi_Initialize read_dir cdi w), with_logs l (snd (cdi_Initialize read_dir cdi w)))"
  by (simp add: cdi_Initialize_def cleanupTransientSpecs_def log_frame split: sum.split)

lemma stop_all_frame [log_frame]:
  "stop_all names plugins (with_logs l w) = map_prod id (map_prod id (with_logs l)) (stop_all names plugins w)"
  by (induction names arbitrary: plugins w) (simp_all add: log_frame split_beta split: option.split)

lemma restart_frame [log_frame]:
  "restart api flags read_dir scan m (with_logs l w) = frame_option2 l (restart api flags read_dir scan m w)"
  by (simp add: restart_def log_frame split_beta split: option.split)

lemma stop_logged_frame [log_frame]:
  "stop_logged names plugins (with_logs l w) = with_logs l (stop_logged names plugins w)"
  by (induction names arbitrary: w) (simp_all add: log_frame split_beta split: option.split)

lemma manager_Stop_frame [log_frame]:
  "manager_Stop order m (with_logs l w) =
     (fst (manager_Stop order m w), with_logs l (snd (manager_Stop order m w)))"
  by (simp add: manager_Stop_def Let_def log_frame split: option.split)

lemma NewManager_frame [log_frame]:
  "NewManager read_dir flags (with_logs l w) =
     (fst (NewManager read_dir flags w), with_logs l (snd (NewManager read_dir flags w)))"
  by (simp add: NewManager_def startHealthcheck_def Let_def log_frame split_beta split: option.split sum.split)

lemma loop_records_frame [log_frame]:
  "log_reconcile_failed r (with_logs l w) = with_logs l (log_reconcile_failed r w)"
  "signal_received sig (with_logs l w) = with_logs l (signal_received sig w)"
  "log_recreated event (with_logs l w) = with_logs l (log_recreated event w)"
  "close_watcher lib (with_logs l w) = with_logs l (close_watcher lib w)"
  by (simp_all add: log_reconcile_failed_def signal_received_def log_recreated_def close_watcher_def
      log_frame split: option.split)

lemma run_loop_frame [log_frame]:
  "run_loop api flags events m (with_logs l w) = frame_option2 l (run_loop api flags events m w)"
proof (induction api flags events m w rule: run_loop.induct)
  case (3 api flags scan events m w)
  then show ?case by (cases "reconcile api flags scan m w") (auto simp: log_frame)
next
  case (4 api flags event read_dir scan events m w)
  then show ?case
    by (cases "restart api flags read_dir scan m (log_recreated event w)")
      (auto simp: log_frame split: option.split)
qed (simp_all add: log_frame)

lemma manager_Run_frame [log_frame]:
  "manager_Run api flags lib scan events m (with_logs l w) = frame_option2 l (manager_Run api flags lib scan events m w)"
proof (cases "reconcile api flags scan m w")
  case (Some x)
  obtain r m1 w1 where x: "x = (r, m1, w1)" by (metis prod_cases3)
  let ?m = "m1\<lparr>m_health := map_option (SetServing True) (m_health m1)\<rparr>"
  show ?thesis
    by (cases "run_loop api flags events ?m w1")
      (auto simp: manager_Run_def Some x Let_def log_frame split: option.split)
qed (simp add: manager_Run_def log_frame)

section \<open>What a frame law gives\<close>

locale log_writer =
  fixes f :: "world \<Rightarrow> ('a \<times> world) option"
  assumes frame: "f (with_logs l w) = frame_option l (f w)"
begin

lemma from_erased: "f w = frame_option (w_logs w) (f (erased w))"
  using frame [of "w_logs w" "erased w"] by simp

lemma grows: "f w = Some (r, w') \<Longrightarrow> \<exists>more. w_logs w' = w_logs w @ more"
  using from_erased [of w] by auto

lemma log_blind:
  assumes "erased w1 = erased w2"
  shows "rel_option (\<lambda>(r1, w1') (r2, w2'). r1 = r2 \<and> erased w1' = erased w2'
      \<and> (\<exists>more. w_logs w1' = w_logs w1 @ more \<and> w_logs w2' = w_logs w2 @ more)) (f w1) (f w2)"
proof (cases "f (erased w1)")
  case (Some x)
  then show ?thesis
    using from_erased [of w1] from_erased [of w2] assms by (cases x) auto
qed (use from_erased [of w1] from_erased [of w2] assms in simp)

end

end
