(* ===== verification/Tracing.thy ===== *)
theory Tracing imports Process LogFrame begin

text \<open>
  Tracing is best-effort: the OpenTelemetry library and the endpoint reach the log and nothing else.
  \<open>Run\<close> is split at the set-up of tracing; what runs in between is a \<open>log_writer\<close> that does not
  see the endpoint.
\<close>

section \<open>Nothing but the set-up reads the endpoint\<close>

named_theorems otlp_free \<open>operations that do not read the endpoint\<close>

lemma paths_otlp_free [otlp_free]:
  "KubeletSocketPath api (flags\<lparr>otlpEndpoint := e\<rparr>) = KubeletSocketPath api flags"
  "resource_socket (flags\<lparr>otlpEndpoint := e\<rparr>) = resource_socket flags"
  by (simp_all add: KubeletSocketPath_def resource_socket_def fun_eq_iff)

lemma NewManager_otlp_free [otlp_free]:
  "NewManager read_dir (flags\<lparr>otlpEndpoint := e\<rparr>) = NewManager read_dir flags"
  by (simp add: NewManager_def fun_eq_iff Let_def cong: option.case_cong sum.case_cong prod.case_cong)

lemma reconcile_new_otlp_free [otlp_free]:
  "reconcile_new api (flags\<lparr>otlpEndpoint := e\<rparr>) cdi names groups plugins w
     = reconcile_new api flags cdi names groups plugins w"
  by (induction names arbitrary: plugins w)
    (simp_all add: otlp_free Let_def split_beta split: option.split)

lemma reconcile_otlp_free [otlp_free]:
  "reconcile api (flags\<lparr>otlpEndpoint := e\<rparr>) scan m w = reconcile api flags scan m w"
  by (simp add: reconcile_def otlp_free Let_def cong: option.case_cong sum.case_cong prod.case_cong)

lemma restart_otlp_free [otlp_free]:
  "restart api (flags\<lparr>otlpEndpoint := e\<rparr>) read_dir scan m w = restart api flags read_dir scan m w"
  by (simp add: restart_def otlp_free Let_def cong: option.case_cong sum.case_cong prod.case_cong)

lemma run_loop_otlp_free [otlp_free]:
  "run_loop api (flags\<lparr>otlpEndpoint := e\<rparr>) events m w = run_loop api flags events m w"
proof (induction api flags events m w rule: run_loop.induct)
  case (3 api flags scan events m w)
  then show ?case by (cases "reconcile api flags scan m w") (auto simp: otlp_free)
next
  case (4 api flags event read_dir scan events m w)
  then show ?case
    by (cases "restart api flags read_dir scan m (log_recreated event w)")
      (auto simp: otlp_free split: option.split)
qed simp_all

lemma manager_Run_otlp_free [otlp_free]:
  "manager_Run api (flags\<lparr>otlpEndpoint := e\<rparr>) lib scan events m w = manager_Run api flags lib scan events m w"
  by (simp add: manager_Run_def otlp_free Let_def cong: option.case_cong prod.case_cong if_cong)

section \<open>Run around the set-up\<close>

text \<open>What \<open>Run\<close> does between the set-up of tracing and the flush.\<close>

definition run_body ::
    "kubelet_api \<Rightarrow> flags \<Rightarrow> process_env \<Rightarrow> world \<Rightarrow> (process_state \<times> world) option" where
  "run_body api flags env w =
     (case NewManager (pe_readDir env) flags w of
        (Inl err, w) \<Rightarrow> Some (Exited (Some (NewManagerFailed err)), w)
      | (Inr m, w) \<Rightarrow>
          map_option (\<lambda>(r, m, w). case r of
              None \<Rightarrow> (Running m, w)
            | Some err \<Rightarrow> (exit_state err, snd (manager_Stop (pe_order env) m w)))
            (manager_Run api flags (pe_watch env) (pe_scan env) (pe_events env) m w))"

definition flush_on_exit :: "string option \<Rightarrow> process_state \<times> world \<Rightarrow> process_state \<times> world" where
  "flush_on_exit s x = (case x of (Running m, w) \<Rightarrow> (Running m, w) | (st, w) \<Rightarrow> (st, flush_traces s w))"

lemma flush_on_exit_over [simp]: "flush_on_exit s (exit_state err, w) = (exit_state err, flush_traces s w)"
  by (simp add: flush_on_exit_def exit_state_def)

lemma Run_split:
  assumes "sys_tick (log_starting flags settings env w) = (None, w1)" "sys_tick w1 = (None, w2)"
  shows "Run api flags settings env w =
    map_option (flush_on_exit (fst (setup_tracing flags env w2))) (run_body api flags env (snd (setup_tracing flags env w2)))"
  by (auto simp: Run_def assms run_body_def flush_on_exit_def [of _ "(Running _, _)"]
      flush_on_exit_def [of _ "(Exited _, _)"] split_beta option.map_comp o_def
      intro!: option.map_cong split: sum.split option.split)

lemma run_body_frame: "run_body api flags env (with_logs l w) = frame_option l (run_body api flags env w)"
  by (auto simp: run_body_def log_frame split_beta option.map_comp o_def
      intro!: option.map_cong split: sum.split option.split)

interpretation body: log_writer "run_body api flags env" for api flags env
  by unfold_locales (rule run_body_frame)

lemma run_body_tracing_free:
  "run_body api (flags\<lparr>otlpEndpoint := e\<rparr>) (env\<lparr>pe_otel := lib\<rparr>) w = run_body api flags env w"
  by (simp add: run_body_def otlp_free Let_def cong: option.case_cong sum.case_cong prod.case_cong)

text \<open>The whole of \<open>Run\<close> writes the log only.\<close>

lemma process_records_frame [log_frame]:
  "log_starting flags settings env (with_logs l w) = with_logs l (log_starting flags settings env w)"
  "flush_traces s (with_logs l w) = with_logs l (flush_traces s w)"
  "setup_tracing flags env (with_logs l w) =
     (fst (setup_tracing flags env w), with_logs l (snd (setup_tracing flags env w)))"
  by (auto simp: log_starting_def flush_traces_def setup_tracing_def initTracing_def log_frame
      split: option.split sum.split)

lemma Run_frame: "Run api flags settings env (with_logs l w) = frame_option l (Run api flags settings env w)"
  by (auto simp: Run_def log_frame split_beta option.map_comp o_def
      intro!: option.map_cong split: sum.split option.split)

interpretation process: log_writer "Run api flags settings env" for api flags settings env
  by unfold_locales (rule Run_frame)

section \<open>Two runs\<close>

text \<open>The records tracing itself writes.\<close>

definition tracing_record :: "log_record \<Rightarrow> bool" where
  "tracing_record r \<longleftrightarrow> lr_level r < LevelError \<and> lr_msg r \<in>
     {''Distributed tracing disabled; no OTLP endpoint configured'', ''Distributed tracing enabled'',
      ''Tracing setup failed; continuing without distributed tracing'', ''Failed to flush traces on shutdown''}"

lemma setup_tracing_records:
  obtains s r where "setup_tracing flags env w = (s, emit_all [r] w)" "tracing_record r"
proof -
  have "\<exists>r. setup_tracing flags env w = (fst (setup_tracing flags env w), emit_all [r] w) \<and> tracing_record r"
    by (auto simp: setup_tracing_def initTracing_def tracing_record_def emit_def emit_all_def slog_level_defs
        split: sum.split)
  with that show ?thesis by blast
qed

lemma flush_traces_records:
  obtains f where "flush_traces s w = emit_all f w" "list_all tracing_record f" "length f \<le> 1"
proof (cases s)
  case None
  with that [of "[]"] show ?thesis by (simp add: flush_traces_def emit_all_def)
next
  case (Some err)
  with that show ?thesis
    by (simp add: flush_traces_def emit_def emit_all_def tracing_record_def slog_level_defs)
qed

lemma flush_on_exit_records:
  obtains f where "flush_on_exit s (st, w) = (st, emit_all f w)" "list_all tracing_record f" "length f \<le> 1"
proof (cases st)
  case (Running m)
  with that [of "[]"] show ?thesis by (simp add: flush_on_exit_def emit_all_def)
next
  case (Exited r)
  with flush_traces_records [of s w] that show ?thesis by (simp add: flush_on_exit_def) blast
next
  case Crashed
  with flush_traces_records [of s w] that show ?thesis by (simp add: flush_on_exit_def) blast
qed

lemma emit_all_erased [simp]: "erased (emit_all rs w) = erased w"
  by (simp add: emit_all_def erased_def)

lemma emit_all_logs [simp]: "w_logs (emit_all rs w) = w_logs w @ rs"
  by (simp add: emit_all_def)

lemma log_starting_tracing_free:
  "log_starting (flags\<lparr>otlpEndpoint := e\<rparr>) settings (env\<lparr>pe_otel := lib\<rparr>) w = log_starting flags settings env w"
  by (simp add: log_starting_def)

definition same_process :: "world \<Rightarrow> process_state \<times> world \<Rightarrow> process_state \<times> world \<Rightarrow> bool" where
  "same_process w x1 x2 \<longleftrightarrow> fst x1 = fst x2 \<and> erased (snd x1) = erased (snd x2)
     \<and> (\<exists>start t1 t2 rest f1 f2.
          w_logs (snd x1) = w_logs w @ start # t1 @ rest @ f1
        \<and> w_logs (snd x2) = w_logs w @ start # t2 @ rest @ f2
        \<and> lr_level start = LevelInfo \<and> lr_msg start = ''Starting rbln-device-plugin''
        \<and> list_all tracing_record (t1 @ t2 @ f1 @ f2)
        \<and> length t1 \<le> 1 \<and> length t2 \<le> 1 \<and> length f1 \<le> 1 \<and> length f2 \<le> 1)"

lemma log_starting_record:
  obtains start where "log_starting flags settings env w = emit_all [start] w" "lr_level start = LevelInfo"
    "lr_msg start = ''Starting rbln-device-plugin''"
  by (simp add: log_starting_def emit_def emit_all_def)

text \<open>Two bodies that write the same records, each before its own flush.\<close>

lemma same_process_flush:
  assumes "erased v1 = erased v2"
    and "w_logs v1 = w_logs w @ start # r1 # rest" "w_logs v2 = w_logs w @ start # r2 # rest"
    and "lr_level start = LevelInfo" "lr_msg start = ''Starting rbln-device-plugin''"
    and "tracing_record r1" "tracing_record r2"
  shows "same_process w (flush_on_exit s1 (st, v1)) (flush_on_exit s2 (st, v2))"
proof -
  obtain f1 where f1: "flush_on_exit s1 (st, v1) = (st, emit_all f1 v1)" "list_all tracing_record f1"
    "length f1 \<le> 1" by (rule flush_on_exit_records)
  obtain f2 where f2: "flush_on_exit s2 (st, v2) = (st, emit_all f2 v2)" "list_all tracing_record f2"
    "length f2 \<le> 1" by (rule flush_on_exit_records)
  show ?thesis
    unfolding same_process_def using assms f1 f2
    by (intro conjI exI [of _ start] exI [of _ "[r1]"] exI [of _ "[r2]"] exI [of _ rest] exI [of _ f1]
        exI [of _ f2]) simp_all
qed

lemma same_process_failed:
  assumes "w_logs w' = w_logs w @ [start]" "lr_level start = LevelInfo" "lr_msg start = ''Starting rbln-device-plugin''"
  shows "same_process w (st, w') (st, w')"
  unfolding same_process_def using assms
  by (intro conjI exI [of _ start] exI [of _ "[]"]) simp_all

text \<open>
  C9: tracing is best-effort.  Two runs that differ in the OpenTelemetry library and in the endpoint only
  (no tracing, a malformed endpoint, an exporter that fails, a flush that fails) do the same: both block or
  both end in the same state, with the same system calls, sockets, files and registrations, and with the
  same log, record for record, up to at most one record of tracing after the first and one at the end.  The
  first record of the process, in every run, is the one that says which build starts.
\<close>

theorem tracing_best_effort:
  "rel_option (\<lambda>(state1, w1) (state2, w2).
      state1 = state2 \<and> erased w1 = erased w2
      \<and> (\<exists>start t1 t2 rest f1 f2.
            w_logs w1 = w_logs w @ start # t1 @ rest @ f1
          \<and> w_logs w2 = w_logs w @ start # t2 @ rest @ f2
          \<and> lr_level start = LevelInfo \<and> lr_msg start = ''Starting rbln-device-plugin''
          \<and> list_all tracing_record (t1 @ t2 @ f1 @ f2)
          \<and> length t1 \<le> 1 \<and> length t2 \<le> 1 \<and> length f1 \<le> 1 \<and> length f2 \<le> 1))
    (Run api flags settings env w)
    (Run api (flags\<lparr>otlpEndpoint := e\<rparr>) settings (env\<lparr>pe_otel := lib\<rparr>) w)"
proof -
  let ?flags = "flags\<lparr>otlpEndpoint := e\<rparr>" and ?env = "env\<lparr>pe_otel := lib\<rparr>"
  obtain start where start: "log_starting flags settings env w = emit_all [start] w"
    "lr_level start = LevelInfo" "lr_msg start = ''Starting rbln-device-plugin''"
    by (rule log_starting_record)
  have first: "log_starting flags settings env w = emit_all [start] w"
    "log_starting ?flags settings ?env w = emit_all [start] w"
    by (simp_all add: log_starting_tracing_free start(1))
  obtain e1 w1 where mk1: "sys_tick (emit_all [start] w) = (e1, w1)" by fastforce
  obtain e2 w2 where mk2: "sys_tick w1 = (e2, w2)" by fastforce
  have logs: "w_logs w1 = w_logs w @ [start]" "w_logs w2 = w_logs w @ [start]"
    using sys_tick_fields(4) [of "emit_all [start] w"] sys_tick_fields(4) [of w1] by (simp_all add: mk1 mk2)
  have "rel_option (same_process w) (Run api flags settings env w) (Run api ?flags settings ?env w)"
  proof (cases "e1 = None \<and> e2 = None")
    case False
    then show ?thesis
      using same_process_failed logs start(2,3) by (cases e1; cases e2) (simp_all add: Run_def first mk1 mk2)
  next
    case True
    obtain s1 r1 where t1: "setup_tracing flags env w2 = (s1, emit_all [r1] w2)" "tracing_record r1"
      by (rule setup_tracing_records)
    obtain s2 r2 where t2: "setup_tracing ?flags ?env w2 = (s2, emit_all [r2] w2)" "tracing_record r2"
      by (rule setup_tracing_records)
    have ticks: "sys_tick (log_starting flags settings env w) = (None, w1)"
      "sys_tick (log_starting ?flags settings ?env w) = (None, w1)" "sys_tick w1 = (None, w2)"
      using True mk1 mk2 by (simp_all add: first)
    have "same_process w (flush_on_exit s1 (st, v1)) (flush_on_exit s2 (st, v2))"
      if "erased v1 = erased v2" "w_logs v1 = w_logs (emit_all [r1] w2) @ rest"
        "w_logs v2 = w_logs (emit_all [r2] w2) @ rest" for st v1 v2 rest
      by (rule same_process_flush [OF that(1) _ _ start(2,3) t1(2) t2(2)]) (use that logs in simp_all)
    moreover have "erased (emit_all [r1] w2) = erased (emit_all [r2] w2)" by simp
    note body.log_blind [OF this, of api flags env]
    ultimately show ?thesis
      unfolding Run_split [OF ticks(1,3)] Run_split [OF ticks(2,3)] t1(1) t2(1) run_body_tracing_free
      by (fastforce simp: option.rel_map elim!: option.rel_mono_strong)
  qed
  then show ?thesis by (rule option.rel_mono_strong) (simp only: same_process_def split_beta)
qed

end
