(* ===== verification/CommandLine.thy ===== *)
theory CommandLine imports Tracing begin

text \<open>
  \<open>main\<close>, \<open>newApp\<close> and \<open>init\<close> of \<open>cmd/rbln-device-plugin/main.go\<close>, \<open>SetupFromEnv\<close> of
  \<open>pkg/logging/logging.go\<close> and the installation of the log bridges: from the arguments and the
  environment of the process to its exit code.  The command-line library is the parameter
  \<open>cli_library\<close>: what it makes of an application, an environment and the arguments.  A panic of the
  main goroutine ends a Go process with code 2.  The log of the world holds every record before the gate of the
  logger; the warnings of the logging set-up are those that pass it.
\<close>

section \<open>The environment and the logger\<close>

type_synonym environment = "string \<Rightarrow> string option"

definition os_getenv :: "environment \<Rightarrow> string \<Rightarrow> string" where
  "os_getenv environ name = (case environ name of Some s \<Rightarrow> s | None \<Rightarrow> [])"

definition envLogLevel :: string where "envLogLevel = ''RBLN_DEVICE_PLUGIN_LOG_LEVEL''"
definition envLogFormat :: string where "envLogFormat = ''RBLN_DEVICE_PLUGIN_LOG_FORMAT''"

fun parse_error_text :: "(string \<Rightarrow> string) \<Rightarrow> parse_error \<Rightarrow> string" where
  "parse_error_text quote (UnknownLevel s) =
     ''unknown log level '' @ quote s @ '' (error|warning|warn|info|debug)''"
| "parse_error_text quote (UnknownFormat s) = ''unknown log format '' @ quote s @ '' (json|text)''"

fun setup_record :: "(string \<Rightarrow> string) \<Rightarrow> setup_warning \<Rightarrow> log_record" where
  "setup_record quote (InvalidLevel err fallback) =
     \<lparr>lr_level = LevelWarn, lr_msg = ''Invalid '' @ envLogLevel @ '', using default'',
      lr_attrs = [(''err'', LErr (parse_error_text quote err)), (''fallback'', LString fallback)]\<rparr>"
| "setup_record quote (InvalidFormat err fallback) =
     \<lparr>lr_level = LevelWarn, lr_msg = ''Invalid '' @ envLogFormat @ '', using default'',
      lr_attrs = [(''err'', LErr (parse_error_text quote err)), (''fallback'', LString fallback)]\<rparr>"

text \<open>Where the process and its libraries log: the default logger, and which library is bridged to it.\<close>

record log_sinks =
  ls_default :: "logger option"
  ls_grpc :: bool
  ls_otelHandler :: bool
  ls_otelLogger :: bool

definition initial_sinks :: log_sinks where
  "initial_sinks = \<lparr>ls_default = None, ls_grpc = False, ls_otelHandler = False, ls_otelLogger = False\<rparr>"

definition SetupFromEnv ::
    "(string \<Rightarrow> string) \<Rightarrow> environment \<Rightarrow> log_sinks \<Rightarrow> world \<Rightarrow> log_settings \<times> log_sinks \<times> world" where
  "SetupFromEnv quote environ sinks w =
     (let (logger, settings, warnings) =
            setupFromEnv (os_getenv environ envLogLevel) (os_getenv environ envLogFormat)
      in (settings, sinks\<lparr>ls_default := Some logger\<rparr>, emit_all (map (setup_record quote) warnings) w))"

definition bridgeGRPCLogs :: "log_sinks \<Rightarrow> log_sinks" where
  "bridgeGRPCLogs sinks = sinks\<lparr>ls_grpc := True\<rparr>"

definition bridgeOTELLogs :: "log_sinks \<Rightarrow> log_sinks" where
  "bridgeOTELLogs sinks = sinks\<lparr>ls_otelHandler := True, ls_otelLogger := True\<rparr>"

section \<open>The application\<close>

datatype cli_value = CliString string | CliInt int | CliDuration int

record cli_flag =
  cf_Name :: string
  cf_Usage :: string
  cf_Value :: cli_value
  cf_EnvVars :: "string list"

datatype output_stream = Stdout | Stderr

record cli_app =
  ca_Name :: string
  ca_Version :: string
  ca_Usage :: string
  ca_Writer :: output_stream
  ca_ErrWriter :: output_stream
  ca_ArgsUsage :: string
  ca_HideHelpCommand :: bool
  ca_VersionFlag :: "string list"
  ca_Flags :: "cli_flag list"

datatype cli_outcome =
    CliUsage string
  | CliPrinted
  | CliParsed "string \<Rightarrow> cli_value" "string list"

type_synonym cli_library = "cli_app \<Rightarrow> environment \<Rightarrow> string list \<Rightarrow> cli_outcome"

text \<open>The names of the version flag: no alias \<open>-v\<close>.\<close>

definition cli_VersionFlag :: "string list" where "cli_VersionFlag = [''version'']"

definition time_Second :: int where "time_Second = 1000000000"

definition newApp_flags :: "kubelet_api \<Rightarrow> cli_flag list" where
  "newApp_flags api =
     [\<lparr>cf_Name = ''cdi-root'',
       cf_Usage = ''Absolute path to the directory where CDI files will be generated.'',
       cf_Value = CliString ''/var/run/cdi'', cf_EnvVars = [''CDI_ROOT'']\<rparr>,
      \<lparr>cf_Name = ''kubelet-device-plugin-path'',
       cf_Usage = ''Absolute path to the kubelet device-plugin directory.'',
       cf_Value = CliString (DevicePluginPath api), cf_EnvVars = [''KUBELET_DEVICE_PLUGIN_PATH'']\<rparr>,
      \<lparr>cf_Name = ''healthcheck-port'',
       cf_Usage = ''Port to start a gRPC healthcheck service. Use a negative value to disable it.'',
       cf_Value = CliInt 51515, cf_EnvVars = [''HEALTHCHECK_PORT'']\<rparr>,
      \<lparr>cf_Name = ''device-scan-interval'',
       cf_Usage = ''Polling interval used to refresh the device inventory.'',
       cf_Value = CliDuration (5 * time_Second), cf_EnvVars = [''DEVICE_SCAN_INTERVAL'']\<rparr>,
      \<lparr>cf_Name = ''otlp-endpoint'',
       cf_Usage = ''OTLP gRPC endpoint (e.g. host:port) to export allocation traces to. Leave empty to disable tracing.'',
       cf_Value = CliString [], cf_EnvVars = [''OTEL_EXPORTER_OTLP_ENDPOINT'']\<rparr>]"

definition newApp :: "kubelet_api \<Rightarrow> string \<Rightarrow> cli_app" where
  "newApp api version =
     \<lparr>ca_Name = ''rbln-device-plugin'', ca_Version = version,
      ca_Usage = ''rbln-device-plugin exposes Rebellions NPUs through the Kubernetes device plugin API.'',
      ca_Writer = Stderr, ca_ErrWriter = Stderr, ca_ArgsUsage = '' '', ca_HideHelpCommand = True, ca_VersionFlag = cli_VersionFlag,
      ca_Flags = newApp_flags api\<rparr>"

text \<open>The destinations of the flags.\<close>

fun string_value :: "cli_value \<Rightarrow> string" where
  "string_value (CliString s) = s"
| "string_value _ = []"

fun int_value :: "cli_value \<Rightarrow> int" where
  "int_value (CliInt n) = n"
| "int_value (CliDuration d) = d"
| "int_value (CliString s) = 0"

definition flags_of :: "(string \<Rightarrow> cli_value) \<Rightarrow> flags" where
  "flags_of vals =
     \<lparr>cdiRoot = string_value (vals ''cdi-root''),
      kubeletDevicePluginPath = string_value (vals ''kubelet-device-plugin-path''),
      healthcheckPort = int_value (vals ''healthcheck-port''),
      deviceScanInterval = int_value (vals ''device-scan-interval''),
      otlpEndpoint = string_value (vals ''otlp-endpoint'')\<rparr>"

definition app_Before :: "string list \<Rightarrow> string option" where
  "app_Before args =
     (if length args > 0 then Some (''arguments not supported: ['' @ go_join '' '' args @ '']'') else None)"

section \<open>Signals\<close>

text \<open>
  The goroutine of \<open>watchShutdownSignals\<close>: its input is the sequence of signals sent to the process and the
  end of the context; the result is whether it cancelled the context.  It is done after one case of its
  \<open>select\<close>.  In the events of the loop this is \<open>SignalReceived\<close> before the \<open>CtxDone\<close>.
\<close>

datatype os_signal = SIGHUP | SIGINT | SIGTERM | SIGQUIT | OtherSignal string

fun signal_text :: "os_signal \<Rightarrow> string" where
  "signal_text SIGHUP = ''hangup''"
| "signal_text SIGINT = ''interrupt''"
| "signal_text SIGTERM = ''terminated''"
| "signal_text SIGQUIT = ''quit''"
| "signal_text (OtherSignal s) = s"

fun notified :: "os_signal \<Rightarrow> bool" where
  "notified (OtherSignal s) \<longleftrightarrow> False"
| "notified _ \<longleftrightarrow> True"

datatype shutdown_input = Signalled os_signal | ContextDone

fun watchShutdownSignals :: "shutdown_input list \<Rightarrow> world \<Rightarrow> bool \<times> world" where
  "watchShutdownSignals [] w = (False, w)"
| "watchShutdownSignals (Signalled sig # inputs) w =
     (if notified sig then (True, signal_received (signal_text sig) w) else watchShutdownSignals inputs w)"
| "watchShutdownSignals (ContextDone # inputs) w = (False, w)"

text \<open>A context cancelled elsewhere is a shutdown that logs nothing.\<close>

lemma watchShutdownSignals_logs:
  "\<not> fst (watchShutdownSignals inputs w) \<Longrightarrow> snd (watchShutdownSignals inputs w) = w"
  "fst (watchShutdownSignals inputs w) \<Longrightarrow>
     \<exists>sig. notified sig \<and> Signalled sig \<in> set inputs
       \<and> snd (watchShutdownSignals inputs w) = signal_received (signal_text sig) w"
  by (induction inputs w rule: watchShutdownSignals.induct) (auto split: if_splits)

section \<open>Errors\<close>

fun run_error_text :: "run_error \<Rightarrow> string" where
  "run_error_text Canceled = ''context canceled''"
| "run_error_text (ManagerFailed err) = manager_error_text err"
| "run_error_text (CreateWatcherFailed err) = ''create kubelet socket watcher: '' @ err"
| "run_error_text (WatchDirectoryFailed dir err) =
     ''watch kubelet device-plugin directory '' @ dir @ '': '' @ err"
| "run_error_text WatcherClosed = ''kubelet socket watcher closed unexpectedly''"
| "run_error_text TickerPanic = ''non-positive interval for NewTicker''"

fun process_error_text :: "process_error \<Rightarrow> string" where
  "process_error_text (MkdirAllFailed err) = err_text err"
| "process_error_text (NewManagerFailed err) = manager_error_text err"
| "process_error_text (ManagerRunFailed err) = run_error_text err"

section \<open>main\<close>

datatype app_state = AppRunning manager | AppReturned "string option" | AppPanicked

fun app_state_of :: "process_state \<Rightarrow> app_state" where
  "app_state_of (Running m) = AppRunning m"
| "app_state_of (Exited r) = AppReturned (map_option process_error_text r)"
| "app_state_of Crashed = AppPanicked"

text \<open>\<open>App.Run\<close> with the application's \<open>Before\<close> and \<open>Action\<close>.\<close>

definition app_Run ::
    "kubelet_api \<Rightarrow> cli_library \<Rightarrow> environment \<Rightarrow> string list \<Rightarrow> log_settings \<Rightarrow> process_env \<Rightarrow> world \<Rightarrow>
     (app_state \<times> world) option" where
  "app_Run api cli environ args settings env w =
     (case cli (newApp api (pe_version env)) environ args of
        CliUsage err \<Rightarrow> Some (AppReturned (Some err), w)
      | CliPrinted \<Rightarrow> Some (AppReturned None, w)
      | CliParsed vals rest \<Rightarrow>
          (case app_Before rest of
             Some err \<Rightarrow> Some (AppReturned (Some err), w)
           | None \<Rightarrow> map_option (\<lambda>(st, w). (app_state_of st, w)) (Run api (flags_of vals) settings env w)))"

datatype main_state = MainRunning manager | MainExited int

fun main_end :: "app_state \<times> world \<Rightarrow> main_state \<times> world" where
  "main_end (AppRunning m, w) = (MainRunning m, w)"
| "main_end (AppReturned None, w) = (MainExited 0, w)"
| "main_end (AppReturned (Some err), w) =
     (MainExited 1, emit LevelError ''Command execution failed'' [(''err'', LErr err)] w)"
| "main_end (AppPanicked, w) = (MainExited 2, w)"

definition main ::
    "kubelet_api \<Rightarrow> cli_library \<Rightarrow> environment \<Rightarrow> string list \<Rightarrow> process_env \<Rightarrow> world \<Rightarrow>
     log_sinks \<times> (main_state \<times> world) option" where
  "main api cli environ args env w =
     (let (settings, sinks, w) = SetupFromEnv (pe_quote env) environ initial_sinks w;
          sinks = bridgeGRPCLogs sinks;
          sinks = bridgeOTELLogs sinks;
          env = env\<lparr>pe_nodeName := os_getenv environ ''NODE_NAME''\<rparr>
      in (sinks, map_option main_end (app_Run api cli environ args settings env w)))"

section \<open>The outcome\<close>

definition failure_record :: "log_record \<Rightarrow> bool" where
  "failure_record r \<longleftrightarrow> lr_level r = LevelError \<and> lr_msg r = ''Command execution failed''"

definition setup_records :: "process_env \<Rightarrow> environment \<Rightarrow> log_record list" where
  "setup_records env environ =
     map (setup_record (pe_quote env))
       (snd (snd (setupFromEnv (os_getenv environ envLogLevel) (os_getenv environ envLogFormat))))"

definition main_sinks :: "environment \<Rightarrow> log_sinks" where
  "main_sinks environ =
     \<lparr>ls_default = Some (fst (setupFromEnv (os_getenv environ envLogLevel) (os_getenv environ envLogFormat))),
      ls_grpc = True, ls_otelHandler = True, ls_otelLogger = True\<rparr>"

definition main_settings :: "environment \<Rightarrow> log_settings" where
  "main_settings environ = fst (snd (setupFromEnv (os_getenv environ envLogLevel) (os_getenv environ envLogFormat)))"

lemma main_unfold:
  "main api cli environ args env w =
     (main_sinks environ,
      map_option main_end (app_Run api cli environ args (main_settings environ)
        (env\<lparr>pe_nodeName := os_getenv environ ''NODE_NAME''\<rparr>) (emit_all (setup_records env environ) w)))"
  by (simp add: main_def SetupFromEnv_def bridgeGRPCLogs_def bridgeOTELLogs_def initial_sinks_def main_sinks_def
      main_settings_def setup_records_def split_beta)

text \<open>
  A wrong command line touches nothing and never looks like a success.  If the library reports a usage error
  or leaves positional arguments, the process exits with code 1 after no system call at all, and the
  stream holds the warnings of the logging set-up and then exactly one record, the error; printing the help
  or the version exits with code 0 and writes no record of its own.  In every case the logger and the
  bridges of both libraries are installed.
\<close>

theorem wrong_command_line_fails:
  "case cli (newApp api (pe_version env)) environ args of
     CliUsage err \<Rightarrow>
       main api cli environ args env w = (main_sinks environ, Some (MainExited 1,
         emit LevelError ''Command execution failed'' [(''err'', LErr err)] (emit_all (setup_records env environ) w)))
   | CliPrinted \<Rightarrow>
       main api cli environ args env w =
         (main_sinks environ, Some (MainExited 0, emit_all (setup_records env environ) w))
   | CliParsed vals rest \<Rightarrow>
       if rest = [] then fst (main api cli environ args env w) = main_sinks environ
       else main api cli environ args env w = (main_sinks environ, Some (MainExited 1,
         emit LevelError ''Command execution failed''
           [(''err'', LErr (''arguments not supported: ['' @ go_join '' '' rest @ '']''))]
           (emit_all (setup_records env environ) w)))"
  by (simp add: main_unfold app_Run_def app_Before_def split: cli_outcome.split)

text \<open>Why \<open>Run\<close> crashes, and that it does not run without a ticker.\<close>

lemma run_loop_no_panic: "run_loop api flags events m w \<noteq> Some (Some TickerPanic, m', w')"
proof (induction api flags events m w rule: run_loop.induct)
  case (3 api flags scan events m w)
  then show ?case by (cases "reconcile api flags scan m w") force+
next
  case (4 api flags event read_dir scan events m w)
  have IH: "run_loop api flags events m1 w1 \<noteq> Some (Some TickerPanic, m', w')"
    if "isKubeletRestartEvent (KubeletSocketPath api flags) event"
      "restart api flags read_dir scan m (log_recreated event w) = Some (None, m1, w1)" for m1 w1
    using "4.IH"(2) [of "(None, m1, w1)" None "(m1, w1)" m1 w1] that by simp
  with "4.IH"(1) show ?case
    by (cases "restart api flags read_dir scan m (log_recreated event w)") (auto split: option.splits)
qed auto

lemma manager_Run_panic:
  assumes "manager_Run api flags lib scan events m w = Some (r, m', w')"
  shows "r = Some TickerPanic \<Longrightarrow> deviceScanInterval flags \<le> 0" "r = None \<Longrightarrow> 0 < deviceScanInterval flags"
  using assms run_loop_no_panic
  by (auto simp: manager_Run_def Let_def bind_eq_Some_conv split: option.splits if_splits)

lemma exit_state_Crashed: "exit_state err = Crashed \<longleftrightarrow> err = TickerPanic"
  by (simp add: exit_state_def)

lemma Run_interval:
  assumes "Run api flags settings env w = Some (st, w')"
  shows "st = Crashed \<Longrightarrow> deviceScanInterval flags \<le> 0" "st = Running m \<Longrightarrow> 0 < deviceScanInterval flags"
  using assms manager_Run_panic
  by (auto simp: Run_def exit_state_Crashed split_beta split: option.splits sum.splits)

text \<open>
  C2: the process as a whole.  With an accepted command line, from a node on which the sockets of its configuration
  are free, for every sequence of events and every pattern of failing calls, \<open>main\<close> never blocks for
  ever in an operation of its own, and its log only grows.  Either it is up: its plugins keep their invariant and
  the health service reports serving.  Or it has exited and no socket of a resource and no health listener
  is open: with code 0; with code 1, and then the last record of the stream is the error that ended it; or with
  code 2, and then only because the scan interval is not positive, in which case it is never up.
\<close>

theorem main_outcome:
  assumes accepted: "cli (newApp api (pe_version env)) environ args = CliParsed vals []"
    and free: "nothing_open (flags_of vals) w"
    and order: "order_ok (sc_order (pe_scan env))" "\<forall>e\<in>set (pe_events env). event_ok e" "order_ok (pe_order env)"
  shows "\<exists>st w' log. main api cli environ args env w = (main_sinks environ, Some (st, w'))
    \<and> w_logs w' = w_logs w @ setup_records env environ @ log
    \<and> (case st of
         MainRunning m \<Rightarrow> manager_inv (flags_of vals) (m_plugins m) w'
           \<and> m_health m = map_option (SetServing True) (health_start (flags_of vals))
           \<and> 0 < deviceScanInterval (flags_of vals)
       | MainExited c \<Rightarrow> nothing_open (flags_of vals) w'
           \<and> (c = 0 \<or> c = 1 \<and> log \<noteq> [] \<and> failure_record (last log)
                \<or> c = 2 \<and> deviceScanInterval (flags_of vals) \<le> 0))"
proof -
  let ?flags = "flags_of vals" and ?env = "env\<lparr>pe_nodeName := os_getenv environ ''NODE_NAME''\<rparr>"
  let ?w = "emit_all (setup_records env environ) w"
  have "nothing_open ?flags ?w" using free by (simp add: nothing_open_def world_simps)
  then have "process_result ?flags (Run api ?flags (main_settings environ) ?env ?w)"
    by (rule Run_result) (use order in simp_all)
  then obtain st w1 where run: "Run api ?flags (main_settings environ) ?env ?w = Some (st, w1)"
    and res: "case st of Running m \<Rightarrow> manager_inv ?flags (m_plugins m) w1
        \<and> m_health m = map_option (SetServing True) (health_start ?flags) | _ \<Rightarrow> nothing_open ?flags w1"
    by (auto simp: process_result_def)
  obtain log where log: "w_logs w1 = w_logs w @ setup_records env environ @ log"
    using process.grows [OF run] by auto
  have main: "main api cli environ args env w = (main_sinks environ, Some (main_end (app_state_of st, w1)))"
    by (simp add: main_unfold app_Run_def accepted app_Before_def run)
  show ?thesis
  proof (cases st)
    case (Running m)
    with main log res Run_interval(2) [OF run Running] show ?thesis by simp
  next
    case Crashed
    with main log res Run_interval(1) [OF run Crashed] show ?thesis by simp
  next
    case (Exited r)
    show ?thesis
    proof (cases r)
      case None
      with main log res Exited show ?thesis by simp
    next
      case (Some err)
      let ?fail = "emit LevelError ''Command execution failed'' [(''err'', LErr (process_error_text err))] w1"
      have "nothing_open ?flags ?fail" using res Exited by (simp add: nothing_open_def world_simps)
      then show ?thesis
        using main log Exited Some
        by (intro exI [of _ "MainExited 1"] exI [of _ ?fail]) (simp add: emit_def failure_record_def)
    qed
  qed
qed

section \<open>The defaults\<close>

text \<open>
  What the library documents: a flag that is not on the command line and whose environment variables are
  unset has its default value.  And what the kubelet API documents: its socket is \<open>kubelet.sock\<close> in
  its device-plugin directory, whose path ends with a slash.
\<close>

definition flag_given :: "string list \<Rightarrow> environment \<Rightarrow> cli_flag \<Rightarrow> bool" where
  "flag_given args environ f \<longleftrightarrow>
     list_ex (\<lambda>a. list_ex (\<lambda>pre. a = pre @ cf_Name f \<or> has_prefix a (pre @ cf_Name f @ ''='')) [''-'', ''--'']) args
     \<or> list_ex (\<lambda>v. environ v \<noteq> None) (cf_EnvVars f)"

definition cli_defaults :: "cli_library \<Rightarrow> cli_app \<Rightarrow> bool" where
  "cli_defaults cli app \<longleftrightarrow>
     (\<forall>environ args vals rest f. cli app environ args = CliParsed vals rest \<longrightarrow> f \<in> set (ca_Flags app) \<longrightarrow>
        \<not> flag_given args environ f \<longrightarrow> vals (cf_Name f) = cf_Value f)"

definition api_paths :: "kubelet_api \<Rightarrow> string list \<Rightarrow> bool" where
  "api_paths api ws \<longleftrightarrow> ws \<noteq> [] \<and> list_all good_seg ws
     \<and> DevicePluginPath api = abs_path ws @ ''/'' \<and> KubeletSocket api = abs_path (ws @ [''kubelet.sock''])"

lemma path_base_segment:
  assumes "good_seg n"
  shows "path_base (d @ ''/'' @ n) = n"
proof -
  obtain c cs where c: "rev n = c # cs" "CHR ''/'' \<notin> set n"
    using assms by (cases "rev n") (auto simp: good_seg_def)
  then have "c \<noteq> CHR ''/''" by (metis list.set_intros(1) set_rev)
  then have "trim_right_set (d @ ''/'' @ n) ''/'' = d @ ''/'' @ n"
    using c(1) by (simp add: trim_right_set_def)
  moreover have "takeWhile (\<lambda>c. c \<noteq> CHR ''/'') (rev n @ CHR ''/'' # rev d) = rev n"
    using c(2) by (subst takeWhile_append2) auto
  ultimately show ?thesis by (simp add: path_base_def Let_def)
qed

lemma path_join_trailing:
  assumes "\<forall>w\<in>set ws. good_seg w" "good_seg n"
  shows "path_join [abs_path ws @ ''/'', n] = abs_path (ws @ [n])"
proof -
  let ?s = "abs_path ws @ ''/'' @ ''/'' @ n"
  have "go_split CHR ''/'' ?s = go_split CHR ''/'' (abs_path ws) @ [[], n]"
    using good_seg_no_slash [OF assms(2)] by (simp add: go_split_append_sep go_split_plain)
  moreover have "has_prefix ?s ''/''" by (simp add: abs_path_def has_prefix_def)
  ultimately have "path_clean ?s = abs_path (ws @ [n])"
    using go_split_abs_path [OF assms(1)] clean_step_good [OF assms(2)]
    by (simp add: path_clean_def Let_def abs_path_def [of "ws @ [n]"] clean_step_def [of _ _ "[]"])
  then show ?thesis by (simp add: path_join_def abs_path_def)
qed

lemma abs_path_snoc: "ws \<noteq> [] \<Longrightarrow> abs_path (ws @ [n]) = abs_path ws @ ''/'' @ n"
  by (simp add: abs_path_def go_join_snoc)

lemma api_paths_socket:
  assumes "api_paths api ws" "kubeletDevicePluginPath flags = DevicePluginPath api"
  shows "KubeletSocketPath api flags = KubeletSocket api"
proof -
  have ws: "ws \<noteq> []" "\<forall>w\<in>set ws. good_seg w" "good_seg ''kubelet.sock''"
    using assms(1) by (simp_all add: api_paths_def list_all_iff good_seg_def)
  then have "path_base (KubeletSocket api) = ''kubelet.sock''"
    using assms(1) abs_path_snoc path_base_segment by (simp add: api_paths_def)
  with path_join_trailing [OF ws(2,3)] assms show ?thesis by (simp add: KubeletSocketPath_def api_paths_def)
qed

text \<open>
  C21: the defaults.  With none of the five flags on an accepted command line and none of their environment
  variables set, the configuration is the documented one; the socket the plugins register at, and whose
  creation restarts them, is then the kubelet's own; the health service is on port 51515, tracing is off and
  the scan interval is positive, so that the ticker does not panic.  With the two variables of the logger
  unset, it logs at info in JSON and the set-up warns of nothing.
\<close>

theorem default_configuration:
  assumes "cli_defaults cli (newApp api version)" "api_paths api ws"
    and "cli (newApp api version) environ args = CliParsed vals rest"
    and "\<forall>f\<in>set (newApp_flags api). \<not> flag_given args environ f"
    and "environ envLogLevel = None" "environ envLogFormat = None"
  shows "flags_of vals = \<lparr>cdiRoot = ''/var/run/cdi'', kubeletDevicePluginPath = DevicePluginPath api,
        healthcheckPort = 51515, deviceScanInterval = 5 * time_Second, otlpEndpoint = []\<rparr>
    \<and> KubeletSocketPath api (flags_of vals) = KubeletSocket api
    \<and> health_start (flags_of vals) = Some \<lparr>h_addr = '':51515'', h_serving = False\<rparr>
    \<and> 0 < deviceScanInterval (flags_of vals)
    \<and> main_settings environ = \<lparr>set_Level = ''info'', set_Format = ''json''\<rparr>
    \<and> setup_records env environ = []"
proof -
  have "ca_Flags (newApp api version) = newApp_flags api" by (simp add: newApp_def)
  with assms(1,3,4) have "\<forall>f\<in>set (newApp_flags api). vals (cf_Name f) = cf_Value f"
    unfolding cli_defaults_def by metis
  then have flags: "flags_of vals = \<lparr>cdiRoot = ''/var/run/cdi'', kubeletDevicePluginPath = DevicePluginPath api,
        healthcheckPort = 51515, deviceScanInterval = 5 * time_Second, otlpEndpoint = []\<rparr>"
    by (simp add: newApp_flags_def flags_of_def)
  have env: "os_getenv environ envLogLevel = []" "os_getenv environ envLogFormat = []"
    using assms(5,6) by (simp_all add: os_getenv_def)
  have "setupFromEnv [] [] = (newLogger LevelInfo ''json'', \<lparr>set_Level = ''info'', set_Format = ''json''\<rparr>, [])"
    by code_simp
  moreover have "health_addr 51515 = '':51515''" by (simp add: health_addr_def itoa_def nat_digits.simps digit_char_def) code_simp
  ultimately show ?thesis
    using flags api_paths_socket [OF assms(2), of "flags_of vals"]
    by (simp add: health_start_def main_settings_def setup_records_def env time_Second_def)
qed

text \<open>A library for the concrete runs: it accepts no argument and reads no variable.\<close>

definition sample_cli :: cli_library where
  "sample_cli app environ args =
     (if length args > 1 then CliUsage ''flag provided but not defined''
      else CliParsed (\<lambda>name. case find (\<lambda>f. cf_Name f = name) (ca_Flags app) of
             Some f \<Rightarrow> cf_Value f | None \<Rightarrow> CliString []) [])"

lemma sample_cli_defaults: "cli_defaults sample_cli (newApp sample_api ''dev'')"
  by (simp add: cli_defaults_def sample_cli_def newApp_def newApp_flags_def)

lemma sample_api_paths: "api_paths sample_api [''var'', ''lib'', ''kubelet'', ''device-plugins'']"
  by (simp add: api_paths_def good_seg_def sample_api_def abs_path_def)

theorem default_configuration_witness:
  "\<exists>vals. sample_cli (newApp sample_api ''dev'') (\<lambda>_. None) [''rbln-device-plugin''] = CliParsed vals []
     \<and> KubeletSocketPath sample_api (flags_of vals) = KubeletSocket sample_api"
proof -
  obtain vals where parsed:
    "sample_cli (newApp sample_api ''dev'') (\<lambda>_. None) [''rbln-device-plugin''] = CliParsed vals []"
    by (simp add: sample_cli_def)
  have "\<forall>f\<in>set (newApp_flags sample_api). \<not> flag_given [''rbln-device-plugin''] (\<lambda>_. None) f" by code_simp
  with default_configuration [OF sample_cli_defaults sample_api_paths parsed] parsed show ?thesis by blast
qed

text \<open>A command line with a scan interval of zero and no health service.\<close>

definition zero_interval_cli :: cli_library where
  "zero_interval_cli app environ args =
     CliParsed (\<lambda>name. if name = ''device-scan-interval'' then CliDuration 0
       else if name = ''healthcheck-port'' then CliInt (- 1)
       else if name = ''otlp-endpoint'' then CliString [] else CliString ''/run'') []"

text \<open>The process crashes after it has registered its resources.\<close>

theorem main_outcome_witness:
  "\<exists>w. snd (main sample_api zero_interval_cli (\<lambda>_. None) [] idle_env empty_world) = Some (MainExited 2, w)
     \<and> w_registered w \<noteq> [] \<and> \<not> failure_record (last (w_logs w)) \<and> w_listening w = []"
proof -
  let ?vals = "\<lambda>name. if name = ''device-scan-interval'' then CliDuration 0
       else if name = ''healthcheck-port'' then CliInt (- 1)
       else if name = ''otlp-endpoint'' then CliString [] else CliString ''/run''"
  have parsed: "zero_interval_cli (newApp sample_api (pe_version idle_env)) (\<lambda>_. None) [] = CliParsed ?vals []"
    by (simp add: zero_interval_cli_def)
  have free: "nothing_open (flags_of ?vals) empty_world" by (simp add: nothing_open_def empty_world_def)
  have ok: "order_ok (sc_order (pe_scan idle_env))" "\<forall>e\<in>set (pe_events idle_env). event_ok e"
    "order_ok (pe_order idle_env)" using sample_env_ok(3-5) by (simp_all add: idle_env_def)
  obtain st w where main: "snd (main sample_api zero_interval_cli (\<lambda>_. None) [] idle_env empty_world) = Some (st, w)"
    using main_outcome [where cli = zero_interval_cli and environ = "\<lambda>_. None" and args = "[]" and vals = ?vals,
        OF parsed free ok] by fastforce
  have "map_option (\<lambda>(st, w). (case st of MainExited c \<Rightarrow> c = 2 | MainRunning m \<Rightarrow> False)
        \<and> w_registered w \<noteq> [] \<and> \<not> failure_record (last (w_logs w)) \<and> w_listening w = [])
      (snd (main sample_api zero_interval_cli (\<lambda>_. None) [] idle_env empty_world)) = Some True"
    by code_simp
  with main show ?thesis by (cases st) auto
qed

end
