(* ===== verification/Bridges.thy ===== *)
theory Bridges imports Logging begin

text \<open>
  \<open>cmd/rbln-device-plugin/grpclog.go\<close> and \<open>otellog.go\<close>: the loggers of gRPC and of the
  OpenTelemetry SDK, bridged into the process logger.  The output is the list of records so far.  An
  argument of a print function is a string or the text of another value; \<open>fmt.Sprintf\<close> is an
  argument.  Key-value arguments are pairs.
\<close>

section \<open>Printing\<close>

datatype go_any = AnyString string | AnyOther string

fun any_text :: "go_any \<Rightarrow> string" where
  "any_text (AnyString s) = s"
| "any_text (AnyOther s) = s"

fun is_string :: "go_any \<Rightarrow> bool" where
  "is_string (AnyString s) \<longleftrightarrow> True"
| "is_string (AnyOther s) \<longleftrightarrow> False"

text \<open>\<open>Sprint\<close> adds a space between two operands neither of which is a string, \<open>Sprintln\<close> always.\<close>

fun go_sprint :: "go_any list \<Rightarrow> string" where
  "go_sprint [] = []"
| "go_sprint [a] = any_text a"
| "go_sprint (a # b # args) =
     any_text a @ (if is_string a \<or> is_string b then [] else '' '') @ go_sprint (b # args)"

definition go_sprintln :: "go_any list \<Rightarrow> string" where
  "go_sprintln args = go_join '' '' (map any_text args) @ [CHR 0x0A]"

section \<open>gRPC\<close>

datatype grpc_call =
    GInfo "go_any list" | GInfoln "go_any list" | GInfof string "go_any list"
  | GWarning "go_any list" | GWarningln "go_any list" | GWarningf string "go_any list"
  | GError "go_any list" | GErrorln "go_any list" | GErrorf string "go_any list"
  | GFatal "go_any list" | GFatalln "go_any list" | GFatalf string "go_any list"

definition slog_Log ::
    "logger \<Rightarrow> slog_level \<Rightarrow> string \<Rightarrow> log_attrs \<Rightarrow> log_record list \<Rightarrow> log_record list" where
  "slog_Log lg level msg attrs out =
     (if enabled lg level then out @ [\<lparr>lr_level = level, lr_msg = msg, lr_attrs = attrs\<rparr>] else out)"

definition grpc_log :: "logger \<Rightarrow> slog_level \<Rightarrow> string \<Rightarrow> log_record list \<Rightarrow> log_record list" where
  "grpc_log lg level msg =
     slog_Log lg level (trim_right_set msg [CHR 0x0A]) [(''component'', LString ''grpc'')]"

fun grpcLogger ::
    "(string \<Rightarrow> go_any list \<Rightarrow> string) \<Rightarrow> logger \<Rightarrow> grpc_call \<Rightarrow> log_record list \<Rightarrow> log_record list" where
  "grpcLogger sprintf lg (GInfo args) = grpc_log lg LevelDebug (go_sprint args)"
| "grpcLogger sprintf lg (GInfoln args) = grpc_log lg LevelDebug (go_sprintln args)"
| "grpcLogger sprintf lg (GInfof format args) = grpc_log lg LevelDebug (sprintf format args)"
| "grpcLogger sprintf lg (GWarning args) = grpc_log lg LevelWarn (go_sprint args)"
| "grpcLogger sprintf lg (GWarningln args) = grpc_log lg LevelWarn (go_sprintln args)"
| "grpcLogger sprintf lg (GWarningf format args) = grpc_log lg LevelWarn (sprintf format args)"
| "grpcLogger sprintf lg (GError args) = grpc_log lg LevelError (go_sprint args)"
| "grpcLogger sprintf lg (GErrorln args) = grpc_log lg LevelError (go_sprintln args)"
| "grpcLogger sprintf lg (GErrorf format args) = grpc_log lg LevelError (sprintf format args)"
| "grpcLogger sprintf lg (GFatal args) = grpc_log lg LevelError (go_sprint args)"
| "grpcLogger sprintf lg (GFatalln args) = grpc_log lg LevelError (go_sprintln args)"
| "grpcLogger sprintf lg (GFatalf format args) = grpc_log lg LevelError (sprintf format args)"

definition grpc_V :: "logger \<Rightarrow> int \<Rightarrow> bool" where
  "grpc_V lg verbosity = enabled lg LevelDebug"

section \<open>OpenTelemetry\<close>

record otelLogSink =
  sink_attrs :: log_attrs

definition otelLog ::
    "logger \<Rightarrow> slog_level \<Rightarrow> string \<Rightarrow> log_attrs \<Rightarrow> log_record list \<Rightarrow> log_record list" where
  "otelLog lg level msg args = slog_Log lg level msg (args @ [(''component'', LString ''otel'')])"

definition otel_args :: "otelLogSink \<Rightarrow> log_attrs \<Rightarrow> log_attrs" where
  "otel_args s kv = sink_attrs s @ kv"

definition otel_Handle :: "logger \<Rightarrow> string \<Rightarrow> log_record list \<Rightarrow> log_record list" where
  "otel_Handle lg err = otelLog lg LevelWarn ''OpenTelemetry SDK error'' [(''err'', LErr err)]"

definition otel_Enabled :: "logger \<Rightarrow> int \<Rightarrow> bool" where
  "otel_Enabled lg verbosity = enabled lg LevelDebug"

definition otel_Info ::
    "logger \<Rightarrow> otelLogSink \<Rightarrow> int \<Rightarrow> string \<Rightarrow> log_attrs \<Rightarrow> log_record list \<Rightarrow> log_record list" where
  "otel_Info lg s verbosity msg kv = otelLog lg LevelDebug msg (otel_args s kv)"

definition otel_Error ::
    "logger \<Rightarrow> otelLogSink \<Rightarrow> string \<Rightarrow> string \<Rightarrow> log_attrs \<Rightarrow> log_record list \<Rightarrow> log_record list" where
  "otel_Error lg s err msg kv = otelLog lg LevelWarn msg (otel_args s kv @ [(''err'', LErr err)])"

definition otel_WithValues :: "otelLogSink \<Rightarrow> log_attrs \<Rightarrow> otelLogSink" where
  "otel_WithValues s kv = \<lparr>sink_attrs = otel_args s kv\<rparr>"

definition otel_WithName :: "otelLogSink \<Rightarrow> string \<Rightarrow> otelLogSink" where
  "otel_WithName s name = s"

text \<open>A call of the SDK, on the sink built by a sequence of \<open>WithValues\<close> and \<open>WithName\<close>.\<close>

datatype derive_step = WithValues log_attrs | WithName string

datatype otel_call =
    OHandle string
  | OInfo "derive_step list" int string log_attrs
  | OError "derive_step list" string string log_attrs

fun otel_derive :: "otelLogSink \<Rightarrow> derive_step list \<Rightarrow> otelLogSink" where
  "otel_derive s [] = s"
| "otel_derive s (WithValues kv # ds) = otel_derive (otel_WithValues s kv) ds"
| "otel_derive s (WithName name # ds) = otel_derive (otel_WithName s name) ds"

fun otel_run :: "logger \<Rightarrow> otel_call \<Rightarrow> log_record list \<Rightarrow> log_record list" where
  "otel_run lg (OHandle err) = otel_Handle lg err"
| "otel_run lg (OInfo ds v msg kv) = otel_Info lg (otel_derive \<lparr>sink_attrs = []\<rparr> ds) v msg kv"
| "otel_run lg (OError ds err msg kv) = otel_Error lg (otel_derive \<lparr>sink_attrs = []\<rparr> ds) err msg kv"

section \<open>Properties\<close>

lemma trim_newline: "s = trim_right_set t [CHR 0x0A] \<Longrightarrow> s = [] \<or> last s \<noteq> CHR 0x0A"
  using hd_dropWhile [of "\<lambda>c. c = CHR 0x0A" "rev t"]
  by (cases "dropWhile (\<lambda>c. c = CHR 0x0A) (rev t) = []") (simp_all add: trim_right_set_def last_rev)

fun grpc_chatter :: "grpc_call \<Rightarrow> bool" where
  "grpc_chatter (GInfo args) \<longleftrightarrow> True"
| "grpc_chatter (GInfoln args) \<longleftrightarrow> True"
| "grpc_chatter (GInfof format args) \<longleftrightarrow> True"
| "grpc_chatter _ \<longleftrightarrow> False"

fun derived_values :: "derive_step list \<Rightarrow> log_attrs" where
  "derived_values [] = []"
| "derived_values (WithValues kv # ds) = kv @ derived_values ds"
| "derived_values (WithName name # ds) = derived_values ds"

lemma otel_derive_attrs: "sink_attrs (otel_derive s ds) = sink_attrs s @ derived_values ds"
  by (induction s ds rule: otel_derive.induct)
    (simp_all add: otel_WithValues_def otel_WithName_def otel_args_def)

text \<open>What the SDK means by a call.\<close>

fun otel_attrs :: "otel_call \<Rightarrow> log_attrs" where
  "otel_attrs (OHandle err) = [(''err'', LErr err)]"
| "otel_attrs (OInfo ds v msg kv) = derived_values ds @ kv"
| "otel_attrs (OError ds err msg kv) = derived_values ds @ kv @ [(''err'', LErr err)]"

text \<open>
  The records of the libraries fit the stream.  With the default gate a gRPC call is logged
  exactly when it is not informational, and the SDK's records are logged exactly when they are not
  informational, never above warn; every logged record is one record at the end of the stream,
  names its component, carries the values of the call in order, and a gRPC message never ends in a newline.
\<close>

theorem library_records_gated:
  assumes "LevelDebug < lg_level lg" "lg_level lg \<le> LevelWarn"
  shows "(\<exists>level msg. grpcLogger sprintf lg c out
        = out @ filter (\<lambda>_. \<not> grpc_chatter c)
            [\<lparr>lr_level = level, lr_msg = msg, lr_attrs = [(''component'', LString ''grpc'')]\<rparr>]
      \<and> (level = LevelWarn \<or> level = LevelError) \<and> (msg = [] \<or> last msg \<noteq> CHR 0x0A))
    \<and> (\<exists>msg. otel_run lg d out
        = out @ filter (\<lambda>_. case d of OInfo _ _ _ _ \<Rightarrow> False | _ \<Rightarrow> True)
            [\<lparr>lr_level = LevelWarn, lr_msg = msg, lr_attrs = otel_attrs d @ [(''component'', LString ''otel'')]\<rparr>])
    \<and> \<not> grpc_V lg v \<and> \<not> otel_Enabled lg v"
proof (intro conjI)
  have "enabled lg LevelWarn" "enabled lg LevelError" "\<not> enabled lg LevelDebug"
    using assms by (simp_all add: enabled_def slog_level_defs)
  note gate = this
  have logged: "\<exists>level msg. grpc_log lg l t out
      = out @ [\<lparr>lr_level = level, lr_msg = msg, lr_attrs = [(''component'', LString ''grpc'')]\<rparr>]
      \<and> (level = LevelWarn \<or> level = LevelError) \<and> (msg = [] \<or> last msg \<noteq> CHR 0x0A)"
    if "l = LevelWarn \<or> l = LevelError" for l t
    using that gate trim_newline [of "trim_right_set t [CHR 0x0A]" t]
    by (intro exI [of _ l] exI [of _ "trim_right_set t [CHR 0x0A]"]) (auto simp: grpc_log_def slog_Log_def)
  have silent: "grpc_log lg LevelDebug t out = out" for t
    using gate by (simp add: grpc_log_def slog_Log_def)
  show "\<exists>level msg. grpcLogger sprintf lg c out
        = out @ filter (\<lambda>_. \<not> grpc_chatter c)
            [\<lparr>lr_level = level, lr_msg = msg, lr_attrs = [(''component'', LString ''grpc'')]\<rparr>]
      \<and> (level = LevelWarn \<or> level = LevelError) \<and> (msg = [] \<or> last msg \<noteq> CHR 0x0A)"
    by (cases c) (use logged silent in \<open>auto intro: exI [of _ LevelWarn] exI [of _ "[]"]\<close>)
  show "\<exists>msg. otel_run lg d out
        = out @ filter (\<lambda>_. case d of OInfo _ _ _ _ \<Rightarrow> False | _ \<Rightarrow> True)
            [\<lparr>lr_level = LevelWarn, lr_msg = msg, lr_attrs = otel_attrs d @ [(''component'', LString ''otel'')]\<rparr>]"
    by (cases d) (use gate in \<open>auto simp: otel_Handle_def otel_Info_def otel_Error_def otelLog_def slog_Log_def
        otel_args_def otel_derive_attrs\<close>)
  show "\<not> grpc_V lg v" "\<not> otel_Enabled lg v" using gate by (simp_all add: grpc_V_def otel_Enabled_def)
qed

theorem library_records_gated_witness:
  "otel_run (newLogger LevelInfo ''json'') (OError [WithValues [(''a'', LInt 1)], WithName ''x''] ''down'' ''export'' []) [] \<noteq> []"
proof -
  have "LevelDebug < lg_level (newLogger LevelInfo ''json'')" "lg_level (newLogger LevelInfo ''json'') \<le> LevelWarn"
    by (simp_all add: newLogger_def slog_level_defs)
  then obtain msg where "otel_run (newLogger LevelInfo ''json'')
      (OError [WithValues [(''a'', LInt 1)], WithName ''x''] ''down'' ''export'' []) []
      = [] @ filter (\<lambda>_. True) [\<lparr>lr_level = LevelWarn, lr_msg = msg,
          lr_attrs = [(''a'', LInt 1), (''err'', LErr ''down''), (''component'', LString ''otel'')]\<rparr>]"
    using library_records_gated [of "newLogger LevelInfo ''json''" undefined "GInfo []" "[]"
        "OError [WithValues [(''a'', LInt 1)], WithName ''x''] ''down'' ''export'' []" 0] by auto
  then show ?thesis by simp
qed

end
