(* ===== verification/Spec2Isabelle.thy ===== *)
theory Spec2Isabelle
  imports Placement PreferredHandler AllocateSpans Locking Watch Quiet ManagerStop Converge Advertised CommandLine Bridges
begin

text \<open>
  The Rebellions NPU device plugin for Kubernetes.  The process finds the NPUs of a node, groups them
  into resources, runs one gRPC device plugin per resource, keeps the kubelet informed of their
  devices, and answers its requests for preferred and actual allocations.  The implementation is
  \<open>cmd/rbln-device-plugin/\<close> with \<open>pkg/consts\<close> and \<open>pkg/logging\<close>; file names below are
  those of the first directory unless they say otherwise.

  \<^bold>\<open>Parts and theories, from the bottom.\<close>

  \<^item> \<open>Prelude\<close>, \<open>GoStrings\<close>, \<open>GoPath\<close>, \<open>Slog\<close>, \<open>Channel\<close>: Go maps as
    association lists, the functions of Go's standard library the program calls, buffered channels with
    the contract \<open>newest_mailbox\<close> of a mailbox that keeps its newest message.
  \<^item> \<open>Sysfs\<close>, \<open>Devices\<close>, \<open>Consts\<close>: one snapshot of the file system as a record of call
    results, \<open>NPUDevice\<close>, the constants of \<open>pkg/consts/consts.go\<close> and of the kubelet API.
  \<^item> \<open>Status\<close> (\<open>status.go\<close>), \<open>Sriov\<close> (\<open>sriov.go\<close>): the health of a device and its
    SR-IOV class from sysfs.
  \<^item> \<open>Inventory\<close> (\<open>inventory.go\<close>) with \<open>Discovery\<close>, \<open>ScanLog\<close> and
    \<open>InventoryDelta\<close>: a scan and its log, the difference of two inventories, the device list of the
    kubelet.  The records of a scan are a function of the same inputs as its groups.
  \<^item> \<open>PciAncestors\<close>, \<open>PciTree\<close>, \<open>PciDistance\<close> (\<open>pci_topology.go\<close>): the PCI forest.  A
    pointer to a node is its index; the contract \<open>path_family\<close> says that the ancestor chains of all
    devices fit into one forest.
  \<^item> \<open>Allocator\<close>, \<open>PciBounds\<close> (\<open>topology_allocator.go\<close>, \<open>pci_allocation_bounds.go\<close>): the
    allocator, its search with mutable counters, and its pruning bounds.  \<open>Scores\<close>,
    \<open>SearchRefine\<close> and \<open>BranchBound\<close> show that the search is a branch and bound over the
    combinations (contract \<open>admissible_pruning\<close>); \<open>ForestCounts\<close>, \<open>ForestPairs\<close>,
    \<open>SubtreeCosts\<close>, \<open>PlacementBound\<close>, \<open>AllocatorBuild\<close>, \<open>ScoreBounds\<close>,
    \<open>AdmissibleBound\<close> that no bound exceeds the score of a completion; \<open>Selection\<close>,
    \<open>Preferred\<close>, \<open>Policy\<close> what \<open>selectPreferredDeviceIDs\<close> answers.  The properties are in
    \<open>Placement\<close>, on the node of \<open>Samples\<close>.
  \<^item> \<open>World\<close>: the operating system and the kubelet as the lifecycle uses them.  Every fallible
    call consumes a tick, and \<open>w_fault\<close> says which calls fail.
  \<^item> \<open>Plugin\<close>, \<open>PluginFacts\<close>, \<open>PluginUpdate\<close> (\<open>plugin.go\<close>): construction,
    \<open>Start\<close>, \<open>Stop\<close>, \<open>register\<close>, \<open>UpdateDevices\<close> and its log.  \<open>Watch\<close> runs
    \<open>UpdateDevices\<close> beside \<open>ListAndWatch\<close> as interleaved atomic steps; \<open>Locking\<close> opens the
    steps under the plugin's read-write lock, one access to the device map at a time, for any number of
    handlers and of concurrent updates, and shows that \<open>selectedDevices\<close>, \<open>availableDevices\<close>,
    \<open>currentDevices\<close> and each update may be taken as atomic, in the order in which the updates took the
    lock.
  \<^item> \<open>Cdi\<close> (\<open>cdi.go\<close>), \<open>Allocation\<close>, \<open>AllocationFacts\<close>, \<open>AllocateProps\<close>,
    \<open>AllocateSpans\<close>, \<open>PreferredHandler\<close> (\<open>plugin.go\<close>): the allocation handlers, from
    \<open>Allocate\<close> down to the polling for device nodes, with their records and trace spans as events.
  \<^item> \<open>Health\<close> (\<open>health.go\<close>), \<open>Manager\<close>, \<open>Sockets\<close>, \<open>ManagerFacts\<close>,
    \<open>Reconcile\<close>, \<open>ManagerProps\<close>, \<open>Quiet\<close>, \<open>ManagerStop\<close>, \<open>RunLoop\<close>,
    \<open>Converge\<close> (\<open>manager.go\<close>): the manager's operations and its event loop.
  \<^item> \<open>Logging\<close> (\<open>pkg/logging/logging.go\<close>), \<open>Bridges\<close> (\<open>grpclog.go\<close>,
    \<open>otellog.go\<close>), \<open>Process\<close> (\<open>main.go\<close>, \<open>tracing.go\<close>): logging, and \<open>Run\<close> with its
    deferred calls.  \<open>LogFrame\<close> states for every operation of the process that it only appends to the
    log (contract \<open>log_writer\<close>), \<open>Tracing\<close> draws the consequences for two runs,
    \<open>Advertised\<close> follows the devices of a scan through the running process to \<open>Allocate\<close>, and
    \<open>CommandLine\<close> is \<open>main\<close>: flags, environment, signals, exit codes.

  \<^bold>\<open>How the parts interact.\<close>  \<open>main\<close> installs the logger and the log bridges, turns the command line
  into \<open>flags\<close> and calls \<open>Run\<close>; \<open>Run\<close> builds a manager and runs its loop; every scan goes
  through \<open>discoverDeviceGroups\<close> to \<open>reconcile\<close>, which stops, updates or starts plugins;
  \<open>UpdateDevices\<close> feeds the update channel that \<open>ListAndWatch\<close> reads; the device map of a plugin
  is what \<open>GetPreferredAllocation\<close> and \<open>Allocate\<close> decide on.

  \<^bold>\<open>What the lemmas show.\<close>

  \<^item> Placement: the preferred set is one of least policy score among all sets of the requested size
    that contain the mandatory devices, with the documented ties, and the pruned search equals the
    exhaustive one.  The policy score of \<open>Policy\<close> is written on device identifiers, without search.
  \<^item> Inventory: the classification of every device, the exact difference and its replay, the list sent
    to the kubelet.
  \<^item> Plugin: all-or-nothing start, effective stop, newest-wins updates, exact log; under every
    interleaving the stream is fresh at rest and both threads make progress.
  \<^item> Allocation: checks before effects, exact responses, all-or-nothing requests, bounded waiting, one
    inventory per request under every interleaving with updates, a bracketed trace, and no refusal of a
    device the process advertises but for a missing PCI address or an error of the node.
  \<^item> Log: a scan accounts for every device it leaves out, a scan that finds nothing new adds nothing but
    these errors to the default stream, and the stream of a process begins with its start record and does not
    depend on tracing.
  \<^item> Manager and process: the invariant \<open>manager_inv\<close> under every sequence of events and every
    pattern of failures, agreement of plugins and inventory, independence of Go's map order, recovery
    after faults, clean shutdown with no socket left open, the meaning of every exit code, and the default
    configuration.

  \<^bold>\<open>Bounds and fuel.\<close>  \<open>pciSubtreeCosts\<close> and the climbs of \<open>tree_distance\<close> follow pointers and
  are optional-valued; the results that they return are proved, one unit of fuel per tree node being
  enough.  Go's \<open>int\<close> and \<open>int64\<close> scores are integers here: for at most \<open>2 ^ 20\<close> devices and
  chains of at most 4096 PCI functions (a sysfs path is shorter than \<open>PATH_MAX\<close>) every sum stays
  below the sentinel cost, and the properties that need it assume \<open>small_inventory\<close>.  The polling
  loop has at most 52 polls, by its termination measure.  Directory listings, map iteration orders,
  event orders and failing calls are arguments, so the theorems hold for all of them.

  \<^bold>\<open>Parameters.\<close>  Code outside the repository enters as an argument: the device query, the RSD group
  library, the CDI library (\<open>cdi_library\<close>), \<open>fsnotify\<close> (\<open>watch_library\<close>), the OpenTelemetry SDK
  (\<open>otel_library\<close>), the command-line library (\<open>cli_library\<close>), the kubelet (\<open>kubelet_register\<close> succeeds or fails) and the constants of its
  API (\<open>kubelet_api\<close>).

  \<^bold>\<open>Not modelled.\<close>  The debug records of \<open>ListAndWatch\<close> and the records of the goroutines that serve a
  socket; gRPC transport and its deadlines; the values of measured durations.  What the command-line
  library makes of the arguments is a parameter, and only the defaults rest on a hypothesis about it.
  Operations of the manager are atomic, as its mutex makes them.  Directories are not part of
  \<open>w_paths\<close>.  A panic is modelled where the code can meet one, in \<open>time.NewTicker\<close>.

  \<^bold>\<open>Plan.\<close>  Next: several streams of \<open>ListAndWatch\<close> over the life of a plugin, the records of the
  serving goroutines, and a whole allocation interleaved with a scan.
\<close>

end
